(* ===== verification/Ocpp_Prelude.thy ===== *)
theory Ocpp_Prelude
  imports Main "HOL-Library.Word"
begin

text \<open>
  Shared vocabulary of the development: the Rust standard-library values the crate computes with
  (fixed-width integers, \<open>core::time::Duration\<close>, \<open>Result\<close>, big-endian byte conversion, decimal
  formatting) and the generic lemmas the component theories share.

  A \<open>Duration\<close> is its total number of nanoseconds; the representable ones are those up to
  \<open>duration_max\<close>, that is \<open>u64::MAX\<close> seconds and 999999999 nanoseconds.
\<close>

named_theorems engine_simps \<open>unfolding rules for the operations of the client engine\<close>
named_theorems table_simps \<open>unfolding rules for the action tables\<close>

type_synonym byte = "8 word"
type_synonym u32 = "32 word"
type_synonym u64 = "64 word"
type_synonym u128 = "128 word"
type_synonym duration = nat
type_synonym uuid = "128 word"

datatype ('a, 'e) result = Ok 'a | Err 'e

primrec map_err :: "('e \<Rightarrow> 'f) \<Rightarrow> ('a, 'e) result \<Rightarrow> ('a, 'f) result" where
  "map_err f (Ok a) = Ok a"
| "map_err f (Err e) = Err (f e)"

lemma map_err_Ok [simp]: "map_err f r = Ok a \<longleftrightarrow> r = Ok a"
  by (cases r) simp_all

subsection \<open>Durations\<close>

definition nanos_per_sec :: nat where
  "nanos_per_sec = 1000000000"

definition duration_max :: duration where
  "duration_max = 2 ^ 64 * 1000000000 - 1"

definition from_secs :: "nat \<Rightarrow> duration" where
  "from_secs s = s * 1000000000"

definition from_millis :: "nat \<Rightarrow> duration" where
  "from_millis ms = ms * 1000000"

definition as_millis :: "duration \<Rightarrow> nat" where
  "as_millis d = d div 1000000"

definition as_micros :: "duration \<Rightarrow> nat" where
  "as_micros d = d div 1000"

definition checked_mul :: "duration \<Rightarrow> u32 \<Rightarrow> duration option" where
  "checked_mul d m = (if d * unat m \<le> duration_max then Some (d * unat m) else None)"

lemma as_millis_from_millis [simp]: "as_millis (from_millis ms) = ms"
  by (simp add: as_millis_def from_millis_def)

subsection \<open>Saturating 32-bit counters\<close>

definition u32_max :: u32 where
  "u32_max = 4294967295"

definition saturating_add :: "u32 \<Rightarrow> u32 \<Rightarrow> u32" where
  "saturating_add a b = (if unat a + unat b < 2 ^ 32 then a + b else u32_max)"

lemma unat_saturating_add: "unat (saturating_add a b) = min (unat a + unat b) (2 ^ 32 - 1)"
proof (cases "unat a + unat b < 2 ^ 32")
  case True
  then have "unat (a + b) = unat a + unat b"
    by (simp add: unat_word_ariths)
  with True show ?thesis by (simp add: saturating_add_def)
next
  case False
  then show ?thesis by (simp add: saturating_add_def u32_max_def)
qed

lemma unat_saturating_Suc: "unat (saturating_add a 1) = min (Suc (unat a)) (2 ^ 32 - 1)"
  by (simp add: unat_saturating_add)

lemma saturating_add_ge: "a \<le> saturating_add a 1"
  using unsigned_less [of a, where ?'a = nat] by (simp add: word_le_nat_alt unat_saturating_Suc)

subsection \<open>Big-endian bytes\<close>

definition to_be_bytes :: "u64 \<Rightarrow> byte list" where
  "to_be_bytes w = map (\<lambda>i. word_of_nat (unat w div 256 ^ i)) [7, 6, 5, 4, 3, 2, 1, 0]"

definition be_value :: "byte list \<Rightarrow> nat" where
  "be_value bs = foldl (\<lambda>a b. a * 256 + unat b) 0 bs"

definition from_be_bytes :: "byte list \<Rightarrow> u64" where
  "from_be_bytes bs = word_of_nat (be_value bs)"

text \<open>\<open>\<langle>[u8; 8]\<rangle>::try_from(slice)\<close> succeeds exactly on slices of eight bytes.\<close>

definition try_u64_of_slice :: "byte list \<Rightarrow> u64 option" where
  "try_u64_of_slice bs = (if length bs = 8 then Some (from_be_bytes bs) else None)"

lemma length_to_be_bytes [simp]: "length (to_be_bytes w) = 8"
  by (simp add: to_be_bytes_def)

lemma be_digits: "foldl (\<lambda>a b. a * 256 + b) 0 (map (\<lambda>i. n div 256 ^ i mod 256) (rev [0..<k])) = n mod (256 ^ k)"
  for n :: nat
proof -
  have gen: "foldl (\<lambda>a b. a * 256 + b) c (map (\<lambda>i. n div 256 ^ i mod 256) (rev [0..<k]))
      = c * 256 ^ k + n mod 256 ^ k" for c :: nat
  proof (induction k arbitrary: c)
    case 0
    then show ?case by simp
  next
    case (Suc k)
    have "n mod 256 ^ Suc k = 256 ^ k * (n div 256 ^ k mod 256) + n mod 256 ^ k"
      using mod_mult2_eq [of n "256 ^ k" 256] by (simp add: mult.commute)
    with Suc show ?case by (simp add: algebra_simps)
  qed
  show ?thesis using gen [of 0] by simp
qed

lemma be_value_to_be_bytes: "be_value (to_be_bytes w) = unat w"
proof -
  have digits: "map unat (to_be_bytes w) = map (\<lambda>i. unat w div 256 ^ i mod 256) (rev [0..<8])"
    by (simp add: to_be_bytes_def unat_of_nat upt_rec unsigned_ucast_eq take_bit_eq_mod)
  have "be_value (to_be_bytes w) = foldl (\<lambda>a b. a * 256 + b) 0 (map unat (to_be_bytes w))"
    by (simp add: be_value_def foldl_map)
  also have "\<dots> = unat w mod 256 ^ 8"
    unfolding digits by (rule be_digits)
  also have "\<dots> = unat w"
    using unsigned_less [of w, where ?'a = nat] by simp
  finally show ?thesis .
qed

lemma from_to_be_bytes [simp]: "from_be_bytes (to_be_bytes w) = w"
  by (simp add: from_be_bytes_def be_value_to_be_bytes)

lemma try_u64_to_be_bytes [simp]: "try_u64_of_slice (to_be_bytes w) = Some w"
  by (simp add: try_u64_of_slice_def)

lemma to_be_bytes_inject [simp]: "to_be_bytes v = to_be_bytes w \<longleftrightarrow> v = w"
  by (metis from_to_be_bytes)

lemma be_value_snoc: "be_value (bs @ [b]) = be_value bs * 256 + unat b"
  by (simp add: be_value_def)

lemma digits_of_be_value: "map (\<lambda>i. word_of_nat (be_value bs div 256 ^ i)) (rev [0..<length bs]) = bs"
proof (induction bs rule: rev_induct)
  case Nil
  then show ?case by simp
next
  case (snoc b bs)
  have "unat b < 256" using unsigned_less [of b, where ?'a = nat] by simp
  then have up: "(be_value bs * 256 + unat b) div (256 * 256 ^ i) = be_value bs div 256 ^ i" for i
    by (simp add: div_mult2_eq)
  have low: "word_of_nat (be_value bs * 256 + unat b) = b"
  proof (rule word_unat_eq_iff [THEN iffD2])
    show "unat (word_of_nat (be_value bs * 256 + unat b) :: byte) = unat b"
      using \<open>unat b < 256\<close> by (simp add: unsigned_of_nat take_bit_eq_mod del: of_nat_add of_nat_mult)
  qed
  have "rev [0..<length (bs @ [b])] = map Suc (rev [0..<length bs]) @ [0]"
    by (simp add: upt_conv_Cons map_Suc_upt [symmetric] rev_map del: upt_Suc)
  with snoc up low show ?case by (simp add: be_value_snoc comp_def)
qed

lemma to_from_be_bytes:
  assumes "length bs = 8"
  shows "to_be_bytes (from_be_bytes bs) = bs"
proof -
  have bound: "be_value xs < 256 ^ length xs" for xs
  proof (induction xs rule: rev_induct)
    case Nil
    then show ?case by (simp add: be_value_def)
  next
    case (snoc b xs)
    have "unat b < 256" using unsigned_less [of b, where ?'a = nat] by simp
    with snoc show ?case by (simp add: be_value_snoc)
  qed
  have "unat (from_be_bytes bs) = be_value bs"
    using bound [of bs] assms by (simp add: from_be_bytes_def unsigned_of_nat take_bit_eq_mod)
  with digits_of_be_value [of bs] assms show ?thesis
    by (simp add: to_be_bytes_def upt_rec)
qed

subsection \<open>Decimal formatting\<close>

definition digit_char :: "nat \<Rightarrow> char" where
  "digit_char d = char_of (48 + d)"

fun show_nat :: "nat \<Rightarrow> string" where
  "show_nat n = (if n < 10 then [digit_char n] else show_nat (n div 10) @ [digit_char (n mod 10)])"

declare show_nat.simps [simp del]

subsection \<open>Maps\<close>

lemma dom_map_upd_None [simp]: "dom (m(k := None)) = dom m - {k}"
  by (auto simp: dom_def)

lemma map_upd_None_SomeD: "(m(k := None)) x = Some y \<Longrightarrow> x \<noteq> k \<and> m x = Some y"
  by (auto split: if_splits)

end
