(* ===== verification/Sync.thy ===== *)
theory Sync
  imports Ocpp_Prelude
begin

text \<open>
  The synchronisation primitives of \<^verbatim>\<open>src/sync.rs\<close>. All of them are built on \<open>embassy_sync\<close>'s
  \<open>Signal\<close>, which is code outside the repository; the locale \<open>latch_signal\<close> states the behaviour the
  crate documents and relies on (a signal sent before the wait is still observed, taking the value
  resets it, a second signal overwrites the first), and the primitives use the one-slot cell that
  satisfies it. \<open>Chan\<close> is modelled twice: as operations under its queue lock, and as a step
  relation that interleaves the halves of \<open>send\<close>, \<open>close\<close> and \<open>recv\<close>.
\<close>

subsection \<open>Signals\<close>

locale latch_signal =
  fixes sig_new :: "'s" and sig_signal :: "'a \<Rightarrow> 's \<Rightarrow> 's"
    and sig_poll :: "'s \<Rightarrow> 'a option \<times> 's" and held :: "'s \<Rightarrow> 'a option"
  assumes held_new: "held sig_new = None"
    and held_signal: "held (sig_signal v s) = Some v"
    and poll_value: "fst (sig_poll s) = held s"
    and poll_resets: "held (snd (sig_poll s)) = None"
begin

lemma latched: "fst (sig_poll (sig_signal v s)) = Some v"
  by (simp add: poll_value held_signal)

lemma coalesced:
  "fst (sig_poll (sig_signal w (sig_signal v s))) = Some w
   \<and> fst (sig_poll (snd (sig_poll (sig_signal w (sig_signal v s))))) = None"
  by (simp add: poll_value poll_resets held_signal)

lemma new_pending: "fst (sig_poll sig_new) = None"
  by (simp add: poll_value held_new)

lemma poll_once: "fst (sig_poll (snd (sig_poll s))) = None"
  by (simp add: poll_value poll_resets)

end

type_synonym 'a signal = "'a option"

definition signal_new :: "'a signal" where
  "signal_new = None"

definition signal_put :: "'a \<Rightarrow> 'a signal \<Rightarrow> 'a signal" where
  "signal_put v s = Some v"

definition signal_poll :: "'a signal \<Rightarrow> 'a option \<times> 'a signal" where
  "signal_poll s = (s, None)"

interpretation cell: latch_signal signal_new signal_put signal_poll "\<lambda>s. s"
  by unfold_locales (simp_all add: signal_new_def signal_put_def signal_poll_def)

subsection \<open>OneShot and Notify\<close>

definition oneshot_new :: "'a signal" where
  "oneshot_new = signal_new"

definition oneshot_send :: "'a \<Rightarrow> 'a signal \<Rightarrow> 'a signal" where
  "oneshot_send v s = signal_put v s"

definition oneshot_poll :: "'a signal \<Rightarrow> 'a option \<times> 'a signal" where
  "oneshot_poll s = signal_poll s"

definition notify_new :: "unit signal" where
  "notify_new = signal_new"

definition notify :: "unit signal \<Rightarrow> unit signal" where
  "notify s = signal_put () s"

definition notify_poll :: "unit signal \<Rightarrow> unit option \<times> unit signal" where
  "notify_poll s = signal_poll s"

lemmas signal_defs = signal_new_def signal_put_def signal_poll_def oneshot_new_def oneshot_send_def
  oneshot_poll_def notify_new_def notify_def notify_poll_def

declare signal_defs [engine_simps]

subsection \<open>Chan: the operations\<close>

record 'a chan =
  queue :: "'a list"
  wakeup :: "unit signal"
  is_closed_chan :: bool

definition chan_new :: "'a chan" where
  "chan_new = \<lparr>queue = [], wakeup = signal_new, is_closed_chan = False\<rparr>"

definition chan_push :: "'a \<Rightarrow> 'a chan \<Rightarrow> 'a chan" where
  "chan_push v c = c\<lparr>queue := queue c @ [v]\<rparr>"

definition chan_wake :: "'a chan \<Rightarrow> 'a chan" where
  "chan_wake c = c\<lparr>wakeup := signal_put () (wakeup c)\<rparr>"

definition chan_send :: "'a \<Rightarrow> 'a chan \<Rightarrow> 'a chan" where
  "chan_send v c = chan_wake (chan_push v c)"

definition chan_mark_closed :: "'a chan \<Rightarrow> 'a chan" where
  "chan_mark_closed c = c\<lparr>is_closed_chan := True\<rparr>"

definition chan_close :: "'a chan \<Rightarrow> 'a chan" where
  "chan_close c = chan_wake (chan_mark_closed c)"

text \<open>
  One pass of the receiving loop under the queue lock: \<open>Ready (Some v)\<close> and \<open>Ready None\<close> are the two
  \<open>return\<close>s, \<open>Park\<close> falls through to the wait on the signal.
\<close>

datatype 'a recv_outcome = Ready "'a option" | Park

definition chan_check :: "'a chan \<Rightarrow> 'a recv_outcome \<times> 'a chan" where
  "chan_check c =
     (case queue c of
        v # q \<Rightarrow> (Ready (Some v), c\<lparr>queue := q\<rparr>)
      | [] \<Rightarrow> if is_closed_chan c then (Ready None, c) else (Park, c))"

text \<open>
  Polling the \<open>recv\<close> future with nothing running beside it: check, and when parked with a latched
  signal take the signal and check once more. \<open>Park\<close> is \<open>Poll::Pending\<close>.
\<close>

definition chan_recv_poll :: "'a chan \<Rightarrow> 'a recv_outcome \<times> 'a chan" where
  "chan_recv_poll c =
     (case chan_check c of
        (Ready r, c') \<Rightarrow> (Ready r, c')
      | (Park, c') \<Rightarrow>
          (case signal_poll (wakeup c') of
             (None, w) \<Rightarrow> (Park, c'\<lparr>wakeup := w\<rparr>)
           | (Some _, w) \<Rightarrow> chan_check (c'\<lparr>wakeup := w\<rparr>)))"

lemmas chan_defs = chan_new_def chan_push_def chan_wake_def chan_send_def chan_mark_closed_def
  chan_close_def chan_check_def

declare chan_defs [engine_simps]

lemma queue_chan_send [simp]: "queue (chan_send v c) = queue c @ [v]"
  by (simp add: chan_defs)

lemma closed_chan_send [simp]: "is_closed_chan (chan_send v c) = is_closed_chan c"
  by (simp add: chan_defs)

lemma queue_chan_close [simp]: "queue (chan_close c) = queue c"
  by (simp add: chan_defs)

lemma closed_chan_close [simp]: "is_closed_chan (chan_close c)"
  by (simp add: chan_defs)

lemma chan_check_cases:
  "chan_check c =
     (if queue c \<noteq> [] then (Ready (Some (hd (queue c))), c\<lparr>queue := tl (queue c)\<rparr>)
      else if is_closed_chan c then (Ready None, c) else (Park, c))"
  by (cases "queue c") (simp_all add: chan_check_def)

lemma chan_recv_poll_cases:
  "chan_recv_poll c =
     (if queue c \<noteq> [] then (Ready (Some (hd (queue c))), c\<lparr>queue := tl (queue c)\<rparr>)
      else if is_closed_chan c then (Ready None, c) else (Park, c\<lparr>wakeup := None\<rparr>))"
  by (cases "queue c") (auto simp: chan_recv_poll_def chan_check_def signal_poll_def split: option.split)

subsection \<open>The mailbox contract\<close>

text \<open>
  What a handler task relies on: a mailbox delivers what was sent, in order, and reports the end only
  when it is closed and drained.
\<close>

primrec drain :: "('c \<Rightarrow> 'a recv_outcome \<times> 'c) \<Rightarrow> nat \<Rightarrow> 'c \<Rightarrow> 'a recv_outcome list" where
  "drain recv 0 c = []"
| "drain recv (Suc n) c = fst (recv c) # drain recv n (snd (recv c))"

locale mailbox =
  fixes mb_send :: "'a \<Rightarrow> 'c \<Rightarrow> 'c" and mb_close :: "'c \<Rightarrow> 'c"
    and mb_recv :: "'c \<Rightarrow> 'a recv_outcome \<times> 'c"
    and contents :: "'c \<Rightarrow> 'a list" and ended :: "'c \<Rightarrow> bool"
  assumes contents_send: "contents (mb_send v c) = contents c @ [v]"
    and ended_send: "ended (mb_send v c) = ended c"
    and contents_close: "contents (mb_close c) = contents c"
    and ended_close: "ended (mb_close c)"
    and recv_some: "contents c = v # vs \<Longrightarrow>
      fst (mb_recv c) = Ready (Some v) \<and> contents (snd (mb_recv c)) = vs"
    and recv_ended: "ended (snd (mb_recv c)) = ended c"
    and recv_none: "contents c = [] \<Longrightarrow>
      fst (mb_recv c) = (if ended c then Ready None else Park) \<and> contents (snd (mb_recv c)) = []"
begin

lemma drain_contents:
  "length (contents c) \<le> n \<Longrightarrow>
   drain mb_recv n c = map (\<lambda>v. Ready (Some v)) (contents c)
     @ replicate (n - length (contents c)) (if ended c then Ready None else Park)"
proof (induction n arbitrary: c)
  case 0
  then show ?case by simp
next
  case (Suc n)
  show ?case
  proof (cases "contents c")
    case Nil
    with Suc.IH [of "snd (mb_recv c)"] recv_none [OF Nil] recv_ended [of c] show ?thesis
      by simp
  next
    case (Cons v vs)
    with Suc.prems Suc.IH [of "snd (mb_recv c)"] recv_some [OF Cons] recv_ended [of c] show ?thesis
      by simp
  qed
qed

lemma contents_sends: "contents (fold mb_send vs c) = contents c @ vs"
  by (induction vs arbitrary: c) (simp_all add: contents_send)

lemma drain_after_close:
  "drain mb_recv (Suc (length (contents c))) (mb_close c)
     = map (\<lambda>v. Ready (Some v)) (contents c) @ [Ready None]"
  using drain_contents [of "mb_close c" "Suc (length (contents c))"]
  by (simp add: contents_close ended_close del: drain.simps)

end

interpretation chan: mailbox chan_send chan_close chan_recv_poll queue is_closed_chan
proof unfold_locales
  fix c :: "'a chan" and v vs
  assume "queue c = v # vs"
  then show "fst (chan_recv_poll c) = Ready (Some v) \<and> queue (snd (chan_recv_poll c)) = vs"
    by (simp add: chan_recv_poll_cases)
qed (simp_all add: chan_recv_poll_cases)

subsection \<open>BroadcastRegistry\<close>

type_synonym broadcast_registry = "unit signal list"

definition registry_new :: broadcast_registry where
  "registry_new = []"

text \<open>\<open>subscribe\<close> returns the new subscriber's handle, here its position in the vector.\<close>

definition subscribe :: "broadcast_registry \<Rightarrow> nat \<times> broadcast_registry" where
  "subscribe r = (length r, r @ [signal_new])"

definition notify_all :: "broadcast_registry \<Rightarrow> broadcast_registry" where
  "notify_all r = map (signal_put ()) r"

definition subscriber_poll :: "nat \<Rightarrow> broadcast_registry \<Rightarrow> unit option \<times> broadcast_registry" where
  "subscriber_poll i r =
     (if i < length r then (fst (signal_poll (r ! i)), r[i := snd (signal_poll (r ! i))])
      else (None, r))"

lemma length_notify_all [simp]: "length (notify_all r) = length r"
  by (simp add: notify_all_def)

lemma nth_notify_all: "i < length r \<Longrightarrow> notify_all r ! i = Some ()"
  by (simp add: notify_all_def signal_put_def)

lemma notify_all_idem: "notify_all (notify_all r) = notify_all r"
  by (simp add: notify_all_def signal_put_def)

lemma notify_all_pow: "0 < n \<Longrightarrow> (notify_all ^^ n) r = notify_all r"
  by (induction n rule: nat_induct_non_zero) (simp_all add: notify_all_idem)

subsection \<open>Properties\<close>

text \<open>
  A handler channel is first-in first-out and drains before it ends: whatever was sent before
  \<open>close\<close> is received in order, and only then does \<open>recv\<close> report the end.
\<close>

lemma chan_drains_then_ends:
  "drain chan_recv_poll (Suc (length vs)) (chan_close (fold chan_send vs chan_new))
     = map (\<lambda>v. Ready (Some v)) vs @ [Ready None]"
  using chan.drain_after_close [of "fold chan_send vs chan_new"] chan.contents_sends [of vs chan_new]
  by (simp add: chan_new_def del: drain.simps)

text \<open>
  A broadcast reaches every subscriber and coalesces: after one or more notifications with no
  wait in between, each subscriber's next wait completes exactly once, one that subscribes
  afterwards sees none of them, and consuming one subscriber's wake-up leaves the others' in place.
\<close>

lemma broadcast_wakes_each_once:
  assumes "0 < n" and "i < length r" and "j < length r" and "i \<noteq> j"
  shows "fst (subscriber_poll i ((notify_all ^^ n) r)) = Some ()
    \<and> fst (subscriber_poll i (snd (subscriber_poll i ((notify_all ^^ n) r)))) = None
    \<and> fst (subscriber_poll j (snd (subscriber_poll i ((notify_all ^^ n) r)))) = Some ()
    \<and> fst (subscriber_poll (fst (subscribe ((notify_all ^^ n) r))) (snd (subscribe ((notify_all ^^ n) r)))) = None"
  using assms
  by (simp add: notify_all_pow subscriber_poll_def signal_poll_def nth_notify_all subscribe_def
      signal_new_def nth_append)

lemma broadcast_wakes_each_once_example:
  "fst (subscriber_poll 0 ((notify_all ^^ 3) [None, None])) = Some ()
   \<and> fst (subscriber_poll 1 (snd (subscriber_poll 0 ((notify_all ^^ 3) [None, None])))) = Some ()"
  using broadcast_wakes_each_once [of 3 0 "[None, None]" 1] by simp

end
