(* ===== verification/Chan_Steps.thy ===== *)
theory Chan_Steps
  imports Sync
begin

text \<open>
  \<open>Chan\<close> under interleaving. \<open>send\<close> pushes under the lock and signals afterwards, \<open>close\<close> stores the
  flag and signals afterwards, and the receiver checks under the lock and then waits on the signal;
  other tasks may run between the halves. \<open>unsignalled\<close> counts the senders and closers between their
  two halves; \<open>pushed\<close> and \<open>taken\<close> record history and are read by no step.
\<close>

datatype receiver_pc =
    Checking        \<comment> \<open>at the top of the receiving loop, or back in a fresh \<open>recv\<close> call\<close>
  | Waiting         \<comment> \<open>parked on the signal\<close>
  | Handling        \<comment> \<open>\<open>recv\<close> returned a value and the task is processing it\<close>
  | Retired         \<comment> \<open>\<open>recv\<close> returned \<open>None\<close> and the task ended\<close>

record 'a chan_sys =
  ch :: "'a chan"
  unsignalled :: nat
  rpc :: receiver_pc
  pushed :: "'a list"
  taken :: "'a list"

definition chan_sys_init :: "'a chan_sys" where
  "chan_sys_init = \<lparr>ch = chan_new, unsignalled = 0, rpc = Checking, pushed = [], taken = []\<rparr>"

text \<open>What the receiving task does next, as a function of the shared channel.\<close>

definition receiver_check :: "'a chan_sys \<Rightarrow> 'a chan_sys" where
  "receiver_check s =
     (case chan_check (ch s) of
        (Ready (Some v), c) \<Rightarrow> s\<lparr>ch := c, rpc := Handling, taken := taken s @ [v]\<rparr>
      | (Ready None, c) \<Rightarrow> s\<lparr>ch := c, rpc := Retired\<rparr>
      | (Park, c) \<Rightarrow> s\<lparr>ch := c, rpc := Waiting\<rparr>)"

inductive receiver_step :: "'a chan_sys \<Rightarrow> 'a chan_sys \<Rightarrow> bool" where
  check: "rpc s = Checking \<Longrightarrow> receiver_step s (receiver_check s)"
| woken: "rpc s = Waiting \<Longrightarrow> signal_poll (wakeup (ch s)) = (Some (), w) \<Longrightarrow>
    receiver_step s (s\<lparr>ch := (ch s)\<lparr>wakeup := w\<rparr>, rpc := Checking\<rparr>)"
| handled: "rpc s = Handling \<Longrightarrow> receiver_step s (s\<lparr>rpc := Checking\<rparr>)"

inductive chan_step :: "'a chan_sys \<Rightarrow> 'a chan_sys \<Rightarrow> bool" where
  push: "chan_step s (s\<lparr>ch := chan_push v (ch s), unsignalled := Suc (unsignalled s),
    pushed := pushed s @ [v]\<rparr>)"
| mark_closed: "chan_step s (s\<lparr>ch := chan_mark_closed (ch s), unsignalled := Suc (unsignalled s)\<rparr>)"
| signal: "unsignalled s = Suc n \<Longrightarrow> chan_step s (s\<lparr>ch := chan_wake (ch s), unsignalled := n\<rparr>)"
| receive: "receiver_step s t \<Longrightarrow> chan_step s t"

inductive chan_reach :: "'a chan_sys \<Rightarrow> 'a chan_sys \<Rightarrow> bool" where
  here: "chan_reach s s"
| more: "chan_reach s t \<Longrightarrow> chan_step t u \<Longrightarrow> chan_reach s u"

definition chan_inv :: "'a chan_sys \<Rightarrow> bool" where
  "chan_inv s \<longleftrightarrow> taken s @ queue (ch s) = pushed s
     \<and> (rpc s = Waiting \<and> (queue (ch s) \<noteq> [] \<or> is_closed_chan (ch s)) \<and> unsignalled s = 0
        \<longrightarrow> wakeup (ch s) = Some ())
     \<and> (rpc s = Retired \<longrightarrow> is_closed_chan (ch s))"

lemma receiver_check_cases:
  "receiver_check s =
     (if queue (ch s) \<noteq> []
      then s\<lparr>ch := (ch s)\<lparr>queue := tl (queue (ch s))\<rparr>, rpc := Handling,
             taken := taken s @ [hd (queue (ch s))]\<rparr>
      else if is_closed_chan (ch s) then s\<lparr>rpc := Retired\<rparr> else s\<lparr>rpc := Waiting\<rparr>)"
  by (cases "queue (ch s)") (simp_all add: receiver_check_def chan_check_def)

lemma receiver_step_inv: "receiver_step s t \<Longrightarrow> chan_inv s \<Longrightarrow> chan_inv t"
  by (induction rule: receiver_step.induct)
    (auto simp: chan_inv_def receiver_check_cases signal_poll_def)

lemma chan_step_inv: "chan_step s t \<Longrightarrow> chan_inv s \<Longrightarrow> chan_inv t"
proof (induction rule: chan_step.induct)
  case (receive s t)
  then show ?case by (blast intro: receiver_step_inv)
qed (auto simp: chan_inv_def chan_push_def chan_mark_closed_def chan_wake_def signal_put_def)

lemma chan_reach_inv: "chan_reach s t \<Longrightarrow> chan_inv s \<Longrightarrow> chan_inv t"
  by (induction rule: chan_reach.induct) (auto intro: chan_step_inv)

lemma chan_inv_init: "chan_inv chan_sys_init"
  by (simp add: chan_inv_def chan_sys_init_def chan_new_def)

lemma retired_step: "chan_step s t \<Longrightarrow> rpc s = Retired \<Longrightarrow> rpc t = Retired \<and> taken t = taken s"
  by (induction rule: chan_step.induct) (auto elim: receiver_step.cases)

subsection \<open>Properties\<close>

text \<open>
  C27. No interleaving loses, duplicates or reorders a message: in every reachable state what the
  receiver took, followed by what is still queued, is exactly what was pushed.
\<close>

theorem chan_exactly_once_in_order:
  assumes "chan_reach chan_sys_init s"
  shows "taken s @ queue (ch s) = pushed s"
  using chan_reach_inv [OF assms chan_inv_init] by (simp add: chan_inv_def)

theorem chan_exactly_once_in_order_witness:
  "\<exists>s :: nat chan_sys. chan_reach chan_sys_init s \<and> pushed s = [7] \<and> taken s @ queue (ch s) = [7]"
proof -
  let ?s = "chan_sys_init :: nat chan_sys"
  let ?t = "?s\<lparr>ch := chan_push 7 (ch ?s), unsignalled := Suc (unsignalled ?s),
    pushed := pushed ?s @ [7]\<rparr>"
  have reach: "chan_reach ?s ?t"
    by (rule chan_reach.more [OF chan_reach.here]) (rule chan_step.push)
  have "pushed ?t = [7]" by (simp add: chan_sys_init_def)
  with reach chan_exactly_once_in_order [OF reach] show ?thesis by metis
qed

text \<open>
  C28. No wake-up is lost: whenever the receiver is parked although a message is queued or the channel
  was closed, and every sender and closer has finished, the signal is latched, so the receiver can
  take two steps of its own that deliver the oldest message, or retire if there is none.
\<close>

theorem chan_no_lost_wakeup:
  assumes "chan_reach chan_sys_init s" and "rpc s = Waiting" and "unsignalled s = 0"
    and "queue (ch s) \<noteq> [] \<or> is_closed_chan (ch s)"
  shows "\<exists>t u. receiver_step s t \<and> receiver_step t u
    \<and> (if queue (ch s) \<noteq> [] then taken u = taken s @ [hd (queue (ch s))] else rpc u = Retired)"
proof -
  have "wakeup (ch s) = Some ()"
    using chan_reach_inv [OF assms(1) chan_inv_init] assms(2-4) by (auto simp: chan_inv_def)
  then have w: "signal_poll (wakeup (ch s)) = (Some (), None)"
    by (simp add: signal_poll_def)
  let ?t = "s\<lparr>ch := (ch s)\<lparr>wakeup := None\<rparr>, rpc := Checking\<rparr>"
  have "receiver_step s ?t" by (rule receiver_step.woken [OF assms(2) w])
  moreover have "receiver_step ?t (receiver_check ?t)" by (rule receiver_step.check) simp
  moreover have "if queue (ch s) \<noteq> [] then taken (receiver_check ?t) = taken s @ [hd (queue (ch s))]
      else rpc (receiver_check ?t) = Retired"
    using assms(4) by (simp add: receiver_check_cases)
  ultimately show ?thesis by blast
qed

theorem chan_no_lost_wakeup_witness:
  "\<exists>s t u :: nat chan_sys. chan_reach chan_sys_init s \<and> rpc s = Waiting
     \<and> receiver_step s t \<and> receiver_step t u \<and> taken u = [5]"
proof -
  let ?a = "receiver_check (chan_sys_init :: nat chan_sys)"
  let ?b = "?a\<lparr>ch := chan_push 5 (ch ?a), unsignalled := Suc (unsignalled ?a), pushed := pushed ?a @ [5]\<rparr>"
  let ?c = "?b\<lparr>ch := chan_wake (ch ?b), unsignalled := 0\<rparr>"
  have "chan_reach chan_sys_init ?a"
    by (rule chan_reach.more [OF chan_reach.here], rule chan_step.receive, rule receiver_step.check)
      (simp add: chan_sys_init_def)
  then have "chan_reach chan_sys_init ?b"
    by (rule chan_reach.more) (rule chan_step.push)
  then have reach: "chan_reach chan_sys_init ?c"
    by (rule chan_reach.more) (rule chan_step.signal, simp add: chan_sys_init_def receiver_check_cases chan_defs)
  have st: "rpc ?c = Waiting" "unsignalled ?c = 0" "queue (ch ?c) = [5]" "taken ?c = []"
    by (simp_all add: chan_sys_init_def receiver_check_cases chan_defs)
  then have "queue (ch ?c) \<noteq> [] \<or> is_closed_chan (ch ?c)" by simp
  from chan_no_lost_wakeup [OF reach st(1,2) this] obtain t u
    where "receiver_step ?c t" "receiver_step t u" "taken u = [5]"
    unfolding st by auto
  with reach st(1) show ?thesis by blast
qed

text \<open>
  Once a handler task has retired, nothing delivered to its channel is ever received: a
  dispatcher that looked the channel up before the handler was replaced and pushes after the drain
  leaves the message, and so the peer's call, unanswered.
\<close>

lemma retired_channel_swallows:
  assumes "chan_reach s t" and "rpc s = Retired"
  shows "rpc t = Retired \<and> taken t = taken s"
  using assms by (induction rule: chan_reach.induct) (auto dest: retired_step)

lemma retired_channel_swallows_example:
  "\<exists>s t :: nat chan_sys. chan_reach chan_sys_init s \<and> chan_reach s t \<and> pushed t = [9] \<and> taken t = []"
proof -
  let ?a = "(chan_sys_init :: nat chan_sys)\<lparr>ch := chan_mark_closed (ch chan_sys_init),
    unsignalled := Suc (unsignalled (chan_sys_init :: nat chan_sys))\<rparr>"
  let ?b = "receiver_check ?a"
  let ?c = "?b\<lparr>ch := chan_push 9 (ch ?b), unsignalled := Suc (unsignalled ?b), pushed := pushed ?b @ [9]\<rparr>"
  have "chan_reach chan_sys_init ?a"
    by (rule chan_reach.more [OF chan_reach.here]) (rule chan_step.mark_closed)
  then have ab: "chan_reach chan_sys_init ?b"
    by (rule chan_reach.more) (rule chan_step.receive, rule receiver_step.check, simp add: chan_sys_init_def)
  have bc: "chan_reach ?b ?c"
    by (rule chan_reach.more [OF chan_reach.here]) (rule chan_step.push)
  have retired: "rpc ?b = Retired"
    by (simp add: chan_sys_init_def receiver_check_cases chan_defs)
  have "taken ?c = taken ?b" using retired_channel_swallows [OF bc retired] by simp
  moreover have "taken ?b = []" "pushed ?c = [9]"
    by (simp_all add: chan_sys_init_def receiver_check_cases chan_defs)
  ultimately show ?thesis using ab bc by metis
qed

end
