(* ===== verification/Reconnect.thy ===== *)
theory Reconnect
  imports Ocpp_Prelude
begin

text \<open>
  The reconnect policy of \<^verbatim>\<open>src/reconnect.rs\<close>: the bounded exponential backoff
  \<open>ReconnectPolicy::delay_for\<close>, its equal-jitter variant and the behaviour switch.
\<close>

record reconnect_policy =
  initial_delay :: duration
  max_delay :: duration
  multiplier :: u32
  jitter :: bool

definition default_reconnect_policy :: reconnect_policy where
  "default_reconnect_policy =
     \<lparr>initial_delay = from_secs 1, max_delay = from_secs 60, multiplier = 2, jitter = True\<rparr>"

fun delay_loop :: "reconnect_policy \<Rightarrow> nat \<Rightarrow> duration \<Rightarrow> duration" where
  "delay_loop p 0 delay = delay"
| "delay_loop p (Suc n) delay =
     (case checked_mul delay (multiplier p) of
        Some d \<Rightarrow> if d < max_delay p then delay_loop p n d else max_delay p
      | None \<Rightarrow> max_delay p)"

definition delay_for :: "reconnect_policy \<Rightarrow> u32 \<Rightarrow> duration" where
  "delay_for p attempt = delay_loop p (unat attempt) (initial_delay p)"

text \<open>
  \<open>fraction\<close> is the low word of the throwaway version-4 UUID the code draws. The product
  \<open>half.as_nanos() * fraction\<close> is 128-bit arithmetic and \<open>extra as u64\<close> truncates, both written out.
\<close>

definition jittered_delay_for :: "reconnect_policy \<Rightarrow> u32 \<Rightarrow> u128 \<Rightarrow> duration" where
  "jittered_delay_for p attempt uuid =
     (let delay = delay_for p attempt in
      if \<not> jitter p then delay
      else
        let half = delay div 2;
            fraction = unat uuid mod 2 ^ 32;
            extra = (half * fraction mod 2 ^ 128) div (2 ^ 32 - 1)
        in half + extra mod 2 ^ 64)"

datatype reconnect_behavior = ReconnectEnabled reconnect_policy | ReconnectDisabled

definition default_reconnect_behavior :: reconnect_behavior where
  "default_reconnect_behavior = ReconnectEnabled default_reconnect_policy"

definition policy_ok :: "reconnect_policy \<Rightarrow> bool" where
  "policy_ok p \<longleftrightarrow> initial_delay p \<le> duration_max \<and> max_delay p \<le> duration_max"

subsection \<open>The closed form of the backoff\<close>

lemma delay_loop_Suc:
  "delay_loop p (Suc n) delay =
     (if delay * unat (multiplier p) \<le> duration_max \<and> delay * unat (multiplier p) < max_delay p
      then delay_loop p n (delay * unat (multiplier p)) else max_delay p)"
  by (simp add: checked_mul_def)

declare delay_loop.simps(2) [simp del]

lemma delay_loop_closed:
  assumes "0 < unat (multiplier p)" and "max_delay p \<le> duration_max" and "delay \<le> max_delay p"
  shows "delay_loop p n delay = min (max_delay p) (delay * unat (multiplier p) ^ n)"
  using assms(3)
proof (induction n arbitrary: delay)
  case 0
  then show ?case by simp
next
  case (Suc n)
  let ?d = "delay * unat (multiplier p)"
  have grow: "?d \<le> ?d * unat (multiplier p) ^ n"
    using assms(1) by simp
  show ?case
  proof (cases "?d < max_delay p")
    case True
    with assms(2) Suc.IH [of ?d] show ?thesis by (simp add: delay_loop_Suc mult.assoc)
  next
    case False
    with grow have "max_delay p \<le> ?d * unat (multiplier p) ^ n" by linarith
    with False show ?thesis by (simp add: delay_loop_Suc mult.assoc min_absorb1)
  qed
qed

lemma delay_loop_le: "delay_loop p n delay \<le> max (max_delay p) delay"
proof (induction n arbitrary: delay)
  case 0
  then show ?case by simp
next
  case (Suc n)
  from Suc.IH [of "delay * unat (multiplier p)"] show ?case
    by (auto simp: delay_loop_Suc)
qed

lemma delay_loop_retry_le: "delay_loop p (Suc n) delay \<le> max_delay p"
  using delay_loop_le [of p n "delay * unat (multiplier p)"] by (auto simp: delay_loop_Suc)

lemma delay_for_le: "delay_for p attempt \<le> max (max_delay p) (initial_delay p)"
  by (simp add: delay_for_def delay_loop_le)


lemma unat_low_word: "unat (u :: u128) mod 2 ^ 32 \<le> 2 ^ 32 - 1"
proof -
  have "unat u mod 2 ^ 32 < 2 ^ 32" by simp
  then show ?thesis by linarith
qed

text \<open>The 128-bit product of the jitter never wraps, whatever the policy's delay.\<close>

lemma jitter_product_fits:
  assumes "policy_ok p"
  shows "(delay_for p attempt div 2) * (unat (u :: u128) mod 2 ^ 32) < 2 ^ 128"
proof -
  have "delay_for p attempt \<le> duration_max"
    using delay_for_le [of p attempt] assms by (auto simp: policy_ok_def max_def split: if_splits)
  then have "delay_for p attempt div 2 \<le> 2 ^ 63 * 1000000000"
    unfolding duration_max_def by simp
  then have "(delay_for p attempt div 2) * (unat u mod 2 ^ 32) \<le> (2 ^ 63 * 1000000000) * (2 ^ 32 - 1)"
    by (rule mult_le_mono) (rule unat_low_word)
  then show ?thesis by simp
qed

lemma jitter_extra_le:
  fixes half f :: nat
  assumes "f \<le> 2 ^ 32 - 1"
  shows "(half * f mod 2 ^ 128) div (2 ^ 32 - 1) mod 2 ^ 64 \<le> half"
proof -
  have "(half * f mod 2 ^ 128) div (2 ^ 32 - 1) mod 2 ^ 64 \<le> (half * f mod 2 ^ 128) div (2 ^ 32 - 1)"
    by (rule mod_less_eq_dividend)
  also have "\<dots> \<le> (half * f) div (2 ^ 32 - 1)"
    by (rule div_le_mono) (rule mod_less_eq_dividend)
  also have "\<dots> \<le> (half * (2 ^ 32 - 1)) div (2 ^ 32 - 1)"
    by (rule div_le_mono) (rule mult_le_mono2 [OF assms])
  also have "\<dots> = half" by simp
  finally show ?thesis .
qed

lemma jittered_in_window:
  "delay_for p attempt div 2 \<le> jittered_delay_for p attempt u
   \<and> jittered_delay_for p attempt u \<le> delay_for p attempt"
proof -
  let ?half = "delay_for p attempt div 2"
  let ?extra = "(?half * (unat u mod 2 ^ 32) mod 2 ^ 128) div (2 ^ 32 - 1) mod 2 ^ 64"
  have jittered: "jittered_delay_for p attempt u =
      (if jitter p then ?half + ?extra else delay_for p attempt)"
    by (simp add: jittered_delay_for_def Let_def)
  have "?extra \<le> ?half"
    by (rule jitter_extra_le [OF unat_low_word])
  moreover have "?half + ?half \<le> delay_for p attempt" by simp
  ultimately show ?thesis unfolding jittered by simp
qed

subsection \<open>Properties\<close>

text \<open>
  C35. With a non-zero multiplier and an initial delay within the cap, the loop with its overflow
  check and early return computes the closed form: the initial delay times the multiplier to the
  power of the attempt, capped at \<open>max_delay\<close>.
\<close>

theorem delay_for_closed_form:
  assumes "multiplier p \<noteq> 0" and "policy_ok p" and "initial_delay p \<le> max_delay p"
  shows "delay_for p attempt =
    min (max_delay p) (initial_delay p * unat (multiplier p) ^ unat attempt)"
  unfolding delay_for_def
  by (rule delay_loop_closed) (use assms in \<open>auto simp: policy_ok_def unat_gt_0\<close>)

theorem delay_for_closed_form_witness:
  "delay_for \<lparr>initial_delay = from_secs 1, max_delay = from_secs 10, multiplier = 2, jitter = False\<rparr> 3
     = from_secs 8"
  using delay_for_closed_form [of "\<lparr>initial_delay = from_secs 1, max_delay = from_secs 10,
      multiplier = 2, jitter = False\<rparr>" 3]
  by (simp add: policy_ok_def from_secs_def duration_max_def)

text \<open>
  Equal jitter stays within the documented window: for every drawn random value the delay lies
  between half the un-jittered delay and the un-jittered delay, the 128-bit product does not wrap,
  and the truncation to 64-bit nanoseconds cannot push it out of the window.
\<close>

lemma jittered_delay_window:
  assumes "policy_ok p"
  shows "delay_for p attempt div 2 \<le> jittered_delay_for p attempt u
    \<and> jittered_delay_for p attempt u \<le> delay_for p attempt
    \<and> (delay_for p attempt div 2) * (unat u mod 2 ^ 32) < 2 ^ 128"
  using jittered_in_window [of p attempt u] jitter_product_fits [OF assms, of attempt u] by blast

lemma jittered_delay_window_example:
  "policy_ok default_reconnect_policy
   \<and> 4000000000 \<le> jittered_delay_for default_reconnect_policy 3 77
   \<and> jittered_delay_for default_reconnect_policy 3 77 \<le> 8000000000"
proof -
  have ok: "policy_ok default_reconnect_policy"
    by (simp add: policy_ok_def default_reconnect_policy_def from_secs_def duration_max_def)
  have "delay_for default_reconnect_policy 3 = 8000000000"
    by (simp add: delay_for_def default_reconnect_policy_def from_secs_def delay_loop_closed
        duration_max_def)
  with ok jittered_delay_window [OF ok, of 3 77] show ?thesis by simp
qed

text \<open>
  The backoff escalates and saturates: from the 94th attempt on, a policy that at least doubles
  a non-zero initial delay waits exactly \<open>max_delay\<close>, for any representable cap.
\<close>

lemma delay_for_saturates:
  assumes "2 \<le> unat (multiplier p)" and "policy_ok p" and "0 < initial_delay p"
    and "initial_delay p \<le> max_delay p" and "94 \<le> unat attempt"
  shows "delay_for p attempt = max_delay p"
proof -
  have "max_delay p \<le> 2 ^ 94"
    using assms(2) by (simp add: policy_ok_def duration_max_def)
  also have "(2::nat) ^ 94 \<le> unat (multiplier p) ^ 94"
    by (rule power_mono) (use assms(1) in auto)
  also have "\<dots> \<le> unat (multiplier p) ^ unat attempt"
    by (rule power_increasing) (use assms(1,5) in auto)
  also have "\<dots> \<le> initial_delay p * unat (multiplier p) ^ unat attempt"
    using assms(3) by simp
  finally have "max_delay p \<le> initial_delay p * unat (multiplier p) ^ unat attempt" .
  moreover have "0 < unat (multiplier p)" using assms(1) by simp
  ultimately show ?thesis
    using assms(2,4) delay_loop_closed [of p "initial_delay p" "unat attempt"]
    by (simp add: delay_for_def policy_ok_def)
qed

lemma delay_for_saturates_example:
  "delay_for default_reconnect_policy 94 = from_secs 60"
  using delay_for_saturates [of default_reconnect_policy 94]
  by (simp add: policy_ok_def default_reconnect_policy_def from_secs_def duration_max_def)

text \<open>
  Every delay after the first respects the cap, but the delay before the first attempt is the
  initial delay itself: with \<open>initial_delay\<close> above \<open>max_delay\<close> it exceeds the documented cap.
\<close>

lemma delay_for_cap_skips_first:
  "(\<forall>p attempt. attempt \<noteq> 0 \<longrightarrow> delay_for p attempt \<le> max_delay p)
   \<and> (\<forall>p. delay_for p 0 = initial_delay p)"
proof (intro conjI allI impI)
  fix p :: reconnect_policy and attempt :: u32
  assume "attempt \<noteq> 0"
  then obtain n where "unat attempt = Suc n"
    by (metis not0_implies_Suc unat_eq_zero)
  then show "delay_for p attempt \<le> max_delay p"
    by (simp add: delay_for_def delay_loop_retry_le)
qed (simp add: delay_for_def)

lemma delay_for_cap_skips_first_example:
  "delay_for \<lparr>initial_delay = 50, max_delay = 10, multiplier = 2, jitter = False\<rparr> 0 = 50
   \<and> delay_for \<lparr>initial_delay = 50, max_delay = 10, multiplier = 2, jitter = False\<rparr> 1 \<le> 10"
proof -
  let ?p = "\<lparr>initial_delay = 50, max_delay = 10, multiplier = 2, jitter = False\<rparr>"
  have "delay_for ?p 1 \<le> max_delay ?p"
    by (rule delay_for_cap_skips_first [THEN conjunct1, rule_format]) simp
  moreover have "delay_for ?p 0 = initial_delay ?p"
    by (rule delay_for_cap_skips_first [THEN conjunct2, rule_format])
  ultimately show ?thesis by simp
qed

end
