(* ===== verification/Keepalive.thy ===== *)
theory Keepalive
  imports Ocpp_Prelude
begin

text \<open>
  The keepalive policy of \<^verbatim>\<open>src/keepalive.rs\<close> and the interval cell \<open>KeepaliveState\<close> of
  \<^verbatim>\<open>src/client.rs\<close>: how \<open>WebSocketPingInterval\<close> is stored as 32-bit milliseconds, read back and
  rewritten on a live client.
\<close>

record keepalive_policy =
  interval :: duration
  pong_timeout :: "duration option"
  max_missed :: u32

definition default_keepalive_policy :: keepalive_policy where
  "default_keepalive_policy = \<lparr>interval = from_secs 60, pong_timeout = None, max_missed = 2\<rparr>"

definition every :: "duration \<Rightarrow> keepalive_policy" where
  "every i = default_keepalive_policy\<lparr>interval := i\<rparr>"

definition misses_allowed :: "keepalive_policy \<Rightarrow> u32" where
  "misses_allowed p = max (max_missed p) 1"

datatype keepalive_behavior = KeepaliveEnabled keepalive_policy | KeepaliveDisabled

fun initial_interval :: "keepalive_behavior \<Rightarrow> duration option" where
  "initial_interval (KeepaliveEnabled p) = (if interval p \<noteq> 0 then Some (interval p) else None)"
| "initial_interval KeepaliveDisabled = None"

fun behavior_policy :: "keepalive_behavior \<Rightarrow> keepalive_policy" where
  "behavior_policy (KeepaliveEnabled p) = p"
| "behavior_policy KeepaliveDisabled = default_keepalive_policy"

subsection \<open>The live interval\<close>

text \<open>
  \<open>changed\<close> is the latched \<open>Notify\<close> that wakes the keepalive task; \<open>Some ()\<close> is a notification nobody
  has consumed yet.
\<close>

record keepalive_state =
  interval_millis :: u32
  changed :: "unit option"
  policy :: keepalive_policy

definition store_millis :: "duration option \<Rightarrow> u32" where
  "store_millis i =
     (case i of Some d \<Rightarrow> word_of_nat (min (as_millis d) (2 ^ 32 - 1)) | None \<Rightarrow> 0)"

definition new_keepalive_state :: "keepalive_behavior \<Rightarrow> keepalive_state" where
  "new_keepalive_state b =
     \<lparr>interval_millis = store_millis (initial_interval b), changed = None, policy = behavior_policy b\<rparr>"

definition read_interval :: "keepalive_state \<Rightarrow> duration option" where
  "read_interval s =
     (if interval_millis s = 0 then None else Some (from_millis (unat (interval_millis s))))"

definition set_interval :: "duration option \<Rightarrow> keepalive_state \<Rightarrow> keepalive_state" where
  "set_interval i s = s\<lparr>interval_millis := store_millis i, changed := Some ()\<rparr>"

text \<open>\<open>Client::set_ping_interval\<close> first drops a zero interval.\<close>

definition set_ping_interval :: "duration option \<Rightarrow> keepalive_state \<Rightarrow> keepalive_state" where
  "set_ping_interval i s =
     set_interval (case i of Some d \<Rightarrow> if d \<noteq> 0 then Some d else None | None \<Rightarrow> None) s"

definition ping_interval :: "keepalive_state \<Rightarrow> duration option" where
  "ping_interval s = read_interval s"

lemma unat_store_millis:
  "unat (store_millis (Some d)) = min (as_millis d) (2 ^ 32 - 1)"
  by (simp add: store_millis_def unat_of_nat)

lemma store_millis_zero: "store_millis (Some d) = 0 \<longleftrightarrow> as_millis d = 0"
proof -
  have "store_millis (Some d) = 0 \<longleftrightarrow> unat (store_millis (Some d)) = 0"
    by (simp add: unat_eq_zero)
  then show ?thesis by (simp add: unat_store_millis min_def)
qed

lemma store_millis_None [simp]: "store_millis None = 0"
  by (simp add: store_millis_def)

lemma misses_allowed_pos: "0 < unat (misses_allowed p)"
  by (cases "max_missed p = 0") (auto simp: misses_allowed_def max_def word_le_nat_alt)

lemma read_store:
  "read_interval (s\<lparr>interval_millis := store_millis (Some d)\<rparr>) =
     (if as_millis d = 0 then None else Some (from_millis (min (as_millis d) (2 ^ 32 - 1))))"
  by (simp add: read_interval_def store_millis_zero unat_store_millis)

subsection \<open>Properties\<close>

text \<open>
  What a CSMS writes to \<open>WebSocketPingInterval\<close> is what a later read reports: an interval of at
  least one millisecond is read back rounded down to whole milliseconds and clamped to the 32-bit
  range, a disabled one as disabled; the write always leaves the wake-up latched and the ping
  policy untouched.
\<close>

lemma set_then_read_interval:
  "ping_interval (set_ping_interval i s) =
     (case i of None \<Rightarrow> None
      | Some d \<Rightarrow> if d < 1000000 then None
                  else Some (from_millis (min (d div 1000000) (2 ^ 32 - 1))))
   \<and> changed (set_ping_interval i s) = Some ()
   \<and> policy (set_ping_interval i s) = policy s"
proof -
  have zero: "as_millis d = 0 \<longleftrightarrow> d < 1000000" for d
    by (auto simp: as_millis_def div_eq_0_iff)
  show ?thesis
    by (auto simp: set_ping_interval_def set_interval_def ping_interval_def read_interval_def
        store_millis_zero unat_store_millis zero as_millis_def split: option.split)
qed

text \<open>
  An interval between one nanosecond and one millisecond is not zero, yet storing it as whole
  milliseconds switches keepalive off, both when a live client is reconfigured and when a client is
  built with such a policy.
\<close>

lemma submillisecond_interval_disables:
  assumes "0 < d" and "d < 1000000"
  shows "ping_interval (set_ping_interval (Some d) s) = None
    \<and> initial_interval (KeepaliveEnabled (every d)) = Some d
    \<and> read_interval (new_keepalive_state (KeepaliveEnabled (every d))) = None"
proof -
  have "as_millis d = 0" using assms by (simp add: as_millis_def)
  then have "store_millis (Some d) = 0" by (simp add: store_millis_zero)
  with assms show ?thesis
    by (simp add: set_ping_interval_def set_interval_def ping_interval_def read_interval_def
        new_keepalive_state_def every_def)
qed

lemma submillisecond_interval_disables_example:
  "ping_interval (set_ping_interval (Some 500000) (new_keepalive_state KeepaliveDisabled)) = None"
  using submillisecond_interval_disables [of 500000 "new_keepalive_state KeepaliveDisabled"] by simp

end
