(* ===== verification/Envelope.thy ===== *)
theory Envelope
  imports Ocpp_Prelude
begin

text \<open>
  The OCPP-J wire envelopes of \<^verbatim>\<open>src/envelope.rs\<close> and the JSON values they are made of.

  \<open>serde_json\<close> is code outside the repository. Of its \<open>Value\<close> the model keeps the public
  constructors; a number is either one that \<open>as_u64\<close> accepts or any other one, kept by its text. The
  text layer (\<open>from_str\<close>, \<open>to_string\<close>) and the UUID text form are the fields of the parameter record
  \<open>codec\<close>; \<open>codec_ok\<close> names what the engine relies on. The derived (de)serialisation of the
  tuple structs is the documented one: an array of exactly the fields, in order.
\<close>

subsection \<open>JSON values\<close>

datatype json_number = PosInt u64 | OtherNumber string

datatype json =
    JNull
  | JBool bool
  | JNumber json_number
  | JString string
  | JArray "json list"
  | JObject "(string \<times> json) list"

fun as_u64 :: "json_number \<Rightarrow> u64 option" where
  "as_u64 (PosInt n) = Some n"
| "as_u64 (OtherNumber _) = None"

subsection \<open>Envelopes\<close>

datatype raw_call = RawCall u64 string string json
datatype raw_result = RawResult u64 string json
datatype raw_error = RawError u64 string string string json
datatype raw_send = RawSend u64 string string json

definition MESSAGE_TYPE_CALL :: u64 where
  "MESSAGE_TYPE_CALL = 2"

definition MESSAGE_TYPE_RESULT :: u64 where
  "MESSAGE_TYPE_RESULT = 3"

definition MESSAGE_TYPE_ERROR :: u64 where
  "MESSAGE_TYPE_ERROR = 4"

definition MESSAGE_TYPE_SEND :: u64 where
  "MESSAGE_TYPE_SEND = 6"

lemmas message_type_defs = MESSAGE_TYPE_CALL_def MESSAGE_TYPE_RESULT_def MESSAGE_TYPE_ERROR_def
  MESSAGE_TYPE_SEND_def

declare message_type_defs [engine_simps]

fun call_value :: "raw_call \<Rightarrow> json" where
  "call_value (RawCall t mid action payload) =
     JArray [JNumber (PosInt t), JString mid, JString action, payload]"

fun result_value :: "raw_result \<Rightarrow> json" where
  "result_value (RawResult t mid payload) = JArray [JNumber (PosInt t), JString mid, payload]"

fun error_value :: "raw_error \<Rightarrow> json" where
  "error_value (RawError t mid code description details) =
     JArray [JNumber (PosInt t), JString mid, JString code, JString description, details]"

fun send_value :: "raw_send \<Rightarrow> json" where
  "send_value (RawSend t mid action payload) =
     JArray [JNumber (PosInt t), JString mid, JString action, payload]"

fun decode_call :: "json \<Rightarrow> raw_call option" where
  "decode_call (JArray [JNumber (PosInt t), JString mid, JString action, payload]) =
     Some (RawCall t mid action payload)"
| "decode_call _ = None"

fun decode_result :: "json \<Rightarrow> raw_result option" where
  "decode_result (JArray [JNumber (PosInt t), JString mid, payload]) = Some (RawResult t mid payload)"
| "decode_result _ = None"

fun decode_error :: "json \<Rightarrow> raw_error option" where
  "decode_error (JArray [JNumber (PosInt t), JString mid, JString code, JString description, details]) =
     Some (RawError t mid code description details)"
| "decode_error _ = None"

fun decode_send :: "json \<Rightarrow> raw_send option" where
  "decode_send (JArray [JNumber (PosInt t), JString mid, JString action, payload]) =
     Some (RawSend t mid action payload)"
| "decode_send _ = None"

lemma decode_call_value [simp]: "decode_call (call_value c) = Some c"
  by (cases c) simp

lemma decode_result_value [simp]: "decode_result (result_value r) = Some r"
  by (cases r) simp

lemma decode_error_value [simp]: "decode_error (error_value e) = Some e"
  by (cases e) simp

lemma decode_send_value [simp]: "decode_send (send_value s) = Some s"
  by (cases s) simp

fun_cases decode_call_SomeE: "decode_call j = Some c"
fun_cases decode_result_SomeE: "decode_result j = Some r"
fun_cases decode_error_SomeE: "decode_error j = Some e"
fun_cases decode_send_SomeE: "decode_send j = Some s"

lemma decode_call_Some: "decode_call j = Some c \<longleftrightarrow> j = call_value c"
  by (auto elim: decode_call_SomeE)

lemma decode_result_Some: "decode_result j = Some r \<longleftrightarrow> j = result_value r"
  by (auto elim: decode_result_SomeE)

lemma decode_error_Some: "decode_error j = Some e \<longleftrightarrow> j = error_value e"
  by (auto elim: decode_error_SomeE)

lemma decode_send_Some: "decode_send j = Some s \<longleftrightarrow> j = send_value s"
  by (auto elim: decode_send_SomeE)

lemmas decode_Some = decode_call_Some decode_result_Some decode_error_Some decode_send_Some

subsection \<open>The text layer\<close>

record codec =
  from_str :: "string \<Rightarrow> json option"
  to_string :: "json \<Rightarrow> (string, string) result"
  parse_uuid :: "string \<Rightarrow> uuid option"
  uuid_string :: "uuid \<Rightarrow> string"

text \<open>
  The values that survive printing and parsing: parsing gives up at 128 nested arrays and objects, and
  without the feature \<open>float_roundtrip\<close>, which the repository does not enable, a floating-point number may
  come back as a neighbour. Integers of either sign come back exactly.
\<close>

primrec nesting :: "json \<Rightarrow> nat" where
  "nesting JNull = 0"
| "nesting (JBool _) = 0"
| "nesting (JNumber _) = 0"
| "nesting (JString _) = 0"
| "nesting (JArray items) = Suc (fold max (map nesting items) 0)"
| "nesting (JObject members) = Suc (fold max (map snd (map (map_prod id nesting) members)) 0)"

fun exact_number :: "json_number \<Rightarrow> bool" where
  "exact_number (PosInt _) = True"
| "exact_number (OtherNumber digits) = list_all (\<lambda>c. c \<in> set ''-0123456789'') digits"

primrec exact :: "json \<Rightarrow> bool" where
  "exact JNull = True"
| "exact (JBool _) = True"
| "exact (JNumber n) = exact_number n"
| "exact (JString _) = True"
| "exact (JArray items) = list_all id (map exact items)"
| "exact (JObject members) = list_all id (map snd (map (map_prod id exact) members))"

definition readable :: "nat \<Rightarrow> json \<Rightarrow> bool" where
  "readable depth v \<longleftrightarrow> nesting v < depth \<and> exact v"

text \<open>
  Documented behaviour of the two libraries: printing such a value and parsing it again gives the value,
  and so for UUIDs. A value of the model lists the members of an object in the order the map iterates.
\<close>

definition codec_ok :: "codec \<Rightarrow> bool" where
  "codec_ok C \<longleftrightarrow> (\<forall>v s. readable 128 v \<longrightarrow> to_string C v = Ok s \<longrightarrow> from_str C s = Some v)
     \<and> (\<forall>u. parse_uuid C (uuid_string C u) = Some u)"

lemma codec_ok_json: "codec_ok C \<Longrightarrow> to_string C v = Ok s \<Longrightarrow> readable 128 v \<Longrightarrow> from_str C s = Some v"
  by (simp add: codec_ok_def)

text \<open>An envelope nests one level deeper than its payload.\<close>

lemma readable_envelopes:
  assumes "readable 127 v"
  shows "readable 128 (call_value (RawCall t mid action v))" "readable 128 (result_value (RawResult t mid v))"
    "readable 128 (error_value (RawError t mid code description v))" "readable 128 (send_value (RawSend t mid action v))"
  using assms by (simp_all add: readable_def)

lemma readable_empty [simp]: "readable 127 (JObject [])" "readable 127 JNull"
  by (simp_all add: readable_def)

lemma codec_ok_uuid: "codec_ok C \<Longrightarrow> parse_uuid C (uuid_string C u) = Some u"
  by (simp add: codec_ok_def)

text \<open>
  The classification the dispatcher makes before it reads an envelope: an array whose first element
  is an unsigned integer.
\<close>

datatype classified =
    Malformed            \<comment> \<open>not JSON\<close>
  | NotAnArray
  | NoMessageType
  | NotAnInteger
  | Typed u64 json

definition classify :: "codec \<Rightarrow> string \<Rightarrow> classified" where
  "classify C frame =
     (case from_str C frame of
        None \<Rightarrow> Malformed
      | Some value \<Rightarrow>
          (case value of
             JArray items \<Rightarrow>
               (case items of
                  JNumber message_type # _ \<Rightarrow>
                    (case as_u64 message_type of
                       Some t \<Rightarrow> Typed t value
                     | None \<Rightarrow> NotAnInteger)
                | _ \<Rightarrow> NoMessageType)
           | _ \<Rightarrow> NotAnArray))"

lemma classify_array:
  "from_str C frame = Some (JArray (JNumber (PosInt t) # rest)) \<Longrightarrow>
   classify C frame = Typed t (JArray (JNumber (PosInt t) # rest))"
  by (simp add: classify_def)

lemma classify_Typed:
  "classify C frame = Typed t v \<longleftrightarrow>
     from_str C frame = Some v \<and> (\<exists>rest. v = JArray (JNumber (PosInt t) # rest))"
  by (auto simp: classify_def split: option.splits json.splits list.splits json_number.splits
      elim!: as_u64.elims)

text \<open>
  A finite table of frames is a concrete codec, with UUIDs written in unary; the witnesses use it.
\<close>

definition table_codec :: "(string \<times> json) list \<Rightarrow> codec" where
  "table_codec frames =
     \<lparr>from_str = map_of frames,
      to_string = (\<lambda>v. case map_of (map (\<lambda>(s, v). (v, s)) frames) v of
                          Some s \<Rightarrow> Ok s | None \<Rightarrow> Err ''not in the table''),
      parse_uuid = (\<lambda>s. if set s \<subseteq> {CHR ''x''} then Some (word_of_nat (length s)) else None),
      uuid_string = (\<lambda>u. replicate (unat u) CHR ''x'')\<rparr>"

lemma table_codec_ok: "distinct (map fst frames) \<Longrightarrow> codec_ok (table_codec frames)"
  unfolding codec_ok_def table_codec_def
  by (auto dest!: map_of_SomeD intro!: map_of_is_SomeI split: option.splits)

end
