(* ===== verification/Protocol_Error.thy ===== *)
theory Protocol_Error
  imports Envelope
begin

text \<open>
  CALLERROR values: the \<open>ProtocolError\<close> trait and \<open>ClientError\<close> of \<^verbatim>\<open>src/error.rs\<close> and the three
  per-version error types of \<^verbatim>\<open>src/ocpp_1_6/error.rs\<close>, \<^verbatim>\<open>src/ocpp_2_0_1/error.rs\<close> and
  \<^verbatim>\<open>src/ocpp_2_1/error.rs\<close>. A trait implementation is a record of its methods; the trait's
  contract is the locale \<open>protocol_error_laws\<close>, interpreted for each version.
\<close>

subsection \<open>The trait\<close>

record 'e protocol_error =
  pe_code :: "'e \<Rightarrow> string"
  pe_description :: "'e \<Rightarrow> string"
  pe_details :: "'e \<Rightarrow> json"
  pe_not_implemented :: "string \<Rightarrow> 'e"
  pe_from_wire :: "string \<Rightarrow> string \<Rightarrow> json \<Rightarrow> 'e"

text \<open>The CALLERROR envelope the engine builds from an error, and the error it reads from one.\<close>

definition error_frame :: "'e protocol_error \<Rightarrow> string \<Rightarrow> 'e \<Rightarrow> raw_error" where
  "error_frame P mid e =
     RawError MESSAGE_TYPE_ERROR mid (pe_code P e) (pe_description P e) (pe_details P e)"

fun error_of_frame :: "'e protocol_error \<Rightarrow> raw_error \<Rightarrow> 'e" where
  "error_of_frame P (RawError _ _ code description details) = pe_from_wire P code description details"

definition quote_char :: char where
  "quote_char = CHR 0x27"

locale protocol_error_laws =
  fixes P :: "'e protocol_error"
  assumes from_wire_id: "pe_from_wire P (pe_code P e) (pe_description P e) (pe_details P e) = e"
    and from_wire_description: "pe_description P (pe_from_wire P c d v) = d"
    and from_wire_details: "pe_details P (pe_from_wire P c d v) = v"
    and not_implemented_code: "pe_code P (pe_not_implemented P a) = ''NotImplemented''"
    and not_implemented_description: "pe_description P (pe_not_implemented P a)
      = ''Action '' @ [quote_char] @ a @ [quote_char] @ '' is not implemented''"
    and not_implemented_details: "pe_details P (pe_not_implemented P a) = JObject []"
begin

lemma frame_roundtrip: "error_of_frame P (error_frame P mid e) = e"
  by (simp add: error_frame_def from_wire_id)

lemma from_wire_stable:
  "error_of_frame P (error_frame P mid (pe_from_wire P c d v)) = pe_from_wire P c d v"
  by (rule frame_roundtrip)

lemma code_eqI:
  "pe_code P e = pe_code P e' \<Longrightarrow> pe_description P e = pe_description P e' \<Longrightarrow>
   pe_details P e = pe_details P e' \<Longrightarrow> e = e'"
  by (metis from_wire_id)

end

subsection \<open>ClientError\<close>

datatype ('e, 'x) client_error =
    Protocol 'e
  | Timeout
  | Decode 'x
  | Transport 'x
  | Closed

text \<open>
  \<open>'x\<close> stands for the foreign error values (\<open>serde_json::Error\<close>, \<open>TransportError\<close>), of which only the
  display text \<open>show\<close> is used.
\<close>

fun client_error_display :: "'e protocol_error \<Rightarrow> ('x \<Rightarrow> string) \<Rightarrow> ('e, 'x) client_error \<Rightarrow> string" where
  "client_error_display P show (Protocol e) =
     ''protocol error: '' @ pe_code P e @ '' ('' @ pe_description P e @ '')''"
| "client_error_display P show Timeout = ''request timed out''"
| "client_error_display P show (Decode e) = ''failed to decode payload: '' @ show e"
| "client_error_display P show (Transport e) = ''transport error: '' @ show e"
| "client_error_display P show Closed = ''connection closed''"

subsection \<open>Validation errors\<close>

text \<open>
  \<open>ocpp_types::validate::ValidationError\<close> is code outside the repository; a value is what its accessors
  return: the path, whether it was truncated, its display text and its constraint class.
\<close>

datatype path_segment = Field string | Index nat

datatype constraint_class = PropertyClass | OccurrenceClass

record validation_error =
  ve_path :: "path_segment list"
  ve_path_truncated :: bool
  ve_display :: string
  ve_class :: constraint_class

fun render_segments :: "bool \<Rightarrow> nat \<Rightarrow> path_segment list \<Rightarrow> string" where
  "render_segments truncated position [] = []"
| "render_segments truncated position (Field name # rest) =
     (if position > 0 \<or> truncated then ''.'' else []) @ name
     @ render_segments truncated (Suc position) rest"
| "render_segments truncated position (Index index # rest) =
     ''['' @ show_nat index @ '']'' @ render_segments truncated (Suc position) rest"

definition render_path :: "validation_error \<Rightarrow> string" where
  "render_path error =
     (if ve_path_truncated error then ''...'' else [])
     @ (if ve_path error = [] \<and> \<not> ve_path_truncated error then ''<payload>'' else [])
     @ render_segments (ve_path_truncated error) 0 (ve_path error)"

definition validation_error_parts :: "validation_error \<Rightarrow> string \<times> json" where
  "validation_error_parts error =
     (ve_display error, JObject [(''path'', JString (render_path error))])"

subsection \<open>The shape of a version's error\<close>

record 'c ocpp_error =
  err_code :: 'c
  err_description :: string
  err_details :: json

subsection \<open>OCPP 1.6\<close>

datatype rpc_error_code_1_6 =
    NotImplemented_1_6
  | NotSupported_1_6
  | InternalError_1_6
  | ProtocolError_1_6
  | SecurityError_1_6
  | FormationViolation_1_6
  | PropertyConstraintViolation_1_6
  | OccurenceConstraintViolation_1_6
  | TypeConstraintViolation_1_6
  | GenericError_1_6

type_synonym OCPP1_6Error = "rpc_error_code_1_6 ocpp_error"

fun wire_code_1_6 :: "rpc_error_code_1_6 \<Rightarrow> string" where
  "wire_code_1_6 NotImplemented_1_6 = ''NotImplemented''"
| "wire_code_1_6 NotSupported_1_6 = ''NotSupported''"
| "wire_code_1_6 InternalError_1_6 = ''InternalError''"
| "wire_code_1_6 ProtocolError_1_6 = ''ProtocolError''"
| "wire_code_1_6 SecurityError_1_6 = ''SecurityError''"
| "wire_code_1_6 FormationViolation_1_6 = ''FormationViolation''"
| "wire_code_1_6 PropertyConstraintViolation_1_6 = ''PropertyConstraintViolation''"
| "wire_code_1_6 OccurenceConstraintViolation_1_6 = ''OccurenceConstraintViolation''"
| "wire_code_1_6 TypeConstraintViolation_1_6 = ''TypeConstraintViolation''"
| "wire_code_1_6 GenericError_1_6 = ''GenericError''"

definition not_implemented_1_6 :: "string \<Rightarrow> OCPP1_6Error" where
  "not_implemented_1_6 action =
     \<lparr>err_code = NotImplemented_1_6,
      err_description = ''Action '' @ [quote_char] @ action @ [quote_char] @ '' is not implemented'',
      err_details = JObject []\<rparr>"

definition wire_to_code_1_6 :: "string \<Rightarrow> rpc_error_code_1_6" where
  "wire_to_code_1_6 code =
     (if code = ''NotImplemented'' then NotImplemented_1_6
      else if code = ''NotSupported'' then NotSupported_1_6
      else if code = ''InternalError'' then InternalError_1_6
      else if code = ''ProtocolError'' then ProtocolError_1_6
      else if code = ''SecurityError'' then SecurityError_1_6
      else if code = ''FormationViolation'' then FormationViolation_1_6
      else if code = ''PropertyConstraintViolation'' then PropertyConstraintViolation_1_6
      else if code = ''OccurenceConstraintViolation'' then OccurenceConstraintViolation_1_6
      else if code = ''TypeConstraintViolation'' then TypeConstraintViolation_1_6
      else GenericError_1_6)"

definition from_wire_1_6 :: "string \<Rightarrow> string \<Rightarrow> json \<Rightarrow> OCPP1_6Error" where
  "from_wire_1_6 code description details =
     \<lparr>err_code = wire_to_code_1_6 code, err_description = description, err_details = details\<rparr>"

definition from_validation_1_6 :: "validation_error \<Rightarrow> OCPP1_6Error" where
  "from_validation_1_6 error =
     \<lparr>err_code = (case ve_class error of
                   PropertyClass \<Rightarrow> PropertyConstraintViolation_1_6
                 | OccurrenceClass \<Rightarrow> OccurenceConstraintViolation_1_6),
      err_description = fst (validation_error_parts error),
      err_details = snd (validation_error_parts error)\<rparr>"

definition display_1_6 :: "OCPP1_6Error \<Rightarrow> string" where
  "display_1_6 e = wire_code_1_6 (err_code e) @ '': '' @ err_description e"

definition protocol_error_1_6 :: "OCPP1_6Error protocol_error" where
  "protocol_error_1_6 =
     \<lparr>pe_code = wire_code_1_6 \<circ> err_code, pe_description = err_description, pe_details = err_details,
      pe_not_implemented = not_implemented_1_6, pe_from_wire = from_wire_1_6\<rparr>"

lemma wire_to_code_wire_code_1_6 [simp]: "wire_to_code_1_6 (wire_code_1_6 c) = c"
  by (cases c) (simp_all add: wire_to_code_1_6_def)

interpretation v1_6: protocol_error_laws protocol_error_1_6
  by unfold_locales (simp_all add: protocol_error_1_6_def from_wire_1_6_def not_implemented_1_6_def)

subsection \<open>OCPP 2.0.1\<close>

datatype rpc_error_code_2_0_1 =
    FormatViolation_2_0_1
  | GenericError_2_0_1
  | InternalError_2_0_1
  | MessageTypeNotSupported_2_0_1
  | NotImplemented_2_0_1
  | NotSupported_2_0_1
  | OccurrenceConstraintViolation_2_0_1
  | PropertyConstraintViolation_2_0_1
  | ProtocolError_2_0_1
  | RpcFrameworkError_2_0_1
  | SecurityError_2_0_1
  | TypeConstraintViolation_2_0_1

type_synonym OCPP2_0_1Error = "rpc_error_code_2_0_1 ocpp_error"

fun wire_code_2_0_1 :: "rpc_error_code_2_0_1 \<Rightarrow> string" where
  "wire_code_2_0_1 FormatViolation_2_0_1 = ''FormatViolation''"
| "wire_code_2_0_1 GenericError_2_0_1 = ''GenericError''"
| "wire_code_2_0_1 InternalError_2_0_1 = ''InternalError''"
| "wire_code_2_0_1 MessageTypeNotSupported_2_0_1 = ''MessageTypeNotSupported''"
| "wire_code_2_0_1 NotImplemented_2_0_1 = ''NotImplemented''"
| "wire_code_2_0_1 NotSupported_2_0_1 = ''NotSupported''"
| "wire_code_2_0_1 OccurrenceConstraintViolation_2_0_1 = ''OccurrenceConstraintViolation''"
| "wire_code_2_0_1 PropertyConstraintViolation_2_0_1 = ''PropertyConstraintViolation''"
| "wire_code_2_0_1 ProtocolError_2_0_1 = ''ProtocolError''"
| "wire_code_2_0_1 RpcFrameworkError_2_0_1 = ''RpcFrameworkError''"
| "wire_code_2_0_1 SecurityError_2_0_1 = ''SecurityError''"
| "wire_code_2_0_1 TypeConstraintViolation_2_0_1 = ''TypeConstraintViolation''"

definition not_implemented_2_0_1 :: "string \<Rightarrow> OCPP2_0_1Error" where
  "not_implemented_2_0_1 action =
     \<lparr>err_code = NotImplemented_2_0_1,
      err_description = ''Action '' @ [quote_char] @ action @ [quote_char] @ '' is not implemented'',
      err_details = JObject []\<rparr>"

definition wire_to_code_2_0_1 :: "string \<Rightarrow> rpc_error_code_2_0_1" where
  "wire_to_code_2_0_1 code =
     (if code = ''FormatViolation'' then FormatViolation_2_0_1
      else if code = ''InternalError'' then InternalError_2_0_1
      else if code = ''MessageTypeNotSupported'' then MessageTypeNotSupported_2_0_1
      else if code = ''NotImplemented'' then NotImplemented_2_0_1
      else if code = ''NotSupported'' then NotSupported_2_0_1
      else if code = ''OccurrenceConstraintViolation'' then OccurrenceConstraintViolation_2_0_1
      else if code = ''PropertyConstraintViolation'' then PropertyConstraintViolation_2_0_1
      else if code = ''ProtocolError'' then ProtocolError_2_0_1
      else if code = ''RpcFrameworkError'' then RpcFrameworkError_2_0_1
      else if code = ''SecurityError'' then SecurityError_2_0_1
      else if code = ''TypeConstraintViolation'' then TypeConstraintViolation_2_0_1
      else GenericError_2_0_1)"

definition from_wire_2_0_1 :: "string \<Rightarrow> string \<Rightarrow> json \<Rightarrow> OCPP2_0_1Error" where
  "from_wire_2_0_1 code description details =
     \<lparr>err_code = wire_to_code_2_0_1 code, err_description = description, err_details = details\<rparr>"

definition from_validation_2_0_1 :: "validation_error \<Rightarrow> OCPP2_0_1Error" where
  "from_validation_2_0_1 error =
     \<lparr>err_code = (case ve_class error of
                   PropertyClass \<Rightarrow> PropertyConstraintViolation_2_0_1
                 | OccurrenceClass \<Rightarrow> OccurrenceConstraintViolation_2_0_1),
      err_description = fst (validation_error_parts error),
      err_details = snd (validation_error_parts error)\<rparr>"

definition display_2_0_1 :: "OCPP2_0_1Error \<Rightarrow> string" where
  "display_2_0_1 e = wire_code_2_0_1 (err_code e) @ '': '' @ err_description e"

definition protocol_error_2_0_1 :: "OCPP2_0_1Error protocol_error" where
  "protocol_error_2_0_1 =
     \<lparr>pe_code = wire_code_2_0_1 \<circ> err_code, pe_description = err_description, pe_details = err_details,
      pe_not_implemented = not_implemented_2_0_1, pe_from_wire = from_wire_2_0_1\<rparr>"

lemma wire_to_code_wire_code_2_0_1 [simp]: "wire_to_code_2_0_1 (wire_code_2_0_1 c) = c"
  by (cases c) (simp_all add: wire_to_code_2_0_1_def)

interpretation v2_0_1: protocol_error_laws protocol_error_2_0_1
  by unfold_locales (simp_all add: protocol_error_2_0_1_def from_wire_2_0_1_def not_implemented_2_0_1_def)

subsection \<open>OCPP 2.1\<close>

datatype rpc_error_code_2_1 =
    FormatViolation_2_1
  | GenericError_2_1
  | InternalError_2_1
  | MessageTypeNotSupported_2_1
  | NotImplemented_2_1
  | NotSupported_2_1
  | OccurrenceConstraintViolation_2_1
  | PropertyConstraintViolation_2_1
  | ProtocolError_2_1
  | RpcFrameworkError_2_1
  | SecurityError_2_1
  | TypeConstraintViolation_2_1

type_synonym OCPP2_1Error = "rpc_error_code_2_1 ocpp_error"

fun wire_code_2_1 :: "rpc_error_code_2_1 \<Rightarrow> string" where
  "wire_code_2_1 FormatViolation_2_1 = ''FormatViolation''"
| "wire_code_2_1 GenericError_2_1 = ''GenericError''"
| "wire_code_2_1 InternalError_2_1 = ''InternalError''"
| "wire_code_2_1 MessageTypeNotSupported_2_1 = ''MessageTypeNotSupported''"
| "wire_code_2_1 NotImplemented_2_1 = ''NotImplemented''"
| "wire_code_2_1 NotSupported_2_1 = ''NotSupported''"
| "wire_code_2_1 OccurrenceConstraintViolation_2_1 = ''OccurrenceConstraintViolation''"
| "wire_code_2_1 PropertyConstraintViolation_2_1 = ''PropertyConstraintViolation''"
| "wire_code_2_1 ProtocolError_2_1 = ''ProtocolError''"
| "wire_code_2_1 RpcFrameworkError_2_1 = ''RpcFrameworkError''"
| "wire_code_2_1 SecurityError_2_1 = ''SecurityError''"
| "wire_code_2_1 TypeConstraintViolation_2_1 = ''TypeConstraintViolation''"

definition not_implemented_2_1 :: "string \<Rightarrow> OCPP2_1Error" where
  "not_implemented_2_1 action =
     \<lparr>err_code = NotImplemented_2_1,
      err_description = ''Action '' @ [quote_char] @ action @ [quote_char] @ '' is not implemented'',
      err_details = JObject []\<rparr>"

definition wire_to_code_2_1 :: "string \<Rightarrow> rpc_error_code_2_1" where
  "wire_to_code_2_1 code =
     (if code = ''FormatViolation'' then FormatViolation_2_1
      else if code = ''InternalError'' then InternalError_2_1
      else if code = ''MessageTypeNotSupported'' then MessageTypeNotSupported_2_1
      else if code = ''NotImplemented'' then NotImplemented_2_1
      else if code = ''NotSupported'' then NotSupported_2_1
      else if code = ''OccurrenceConstraintViolation'' then OccurrenceConstraintViolation_2_1
      else if code = ''PropertyConstraintViolation'' then PropertyConstraintViolation_2_1
      else if code = ''ProtocolError'' then ProtocolError_2_1
      else if code = ''RpcFrameworkError'' then RpcFrameworkError_2_1
      else if code = ''SecurityError'' then SecurityError_2_1
      else if code = ''TypeConstraintViolation'' then TypeConstraintViolation_2_1
      else GenericError_2_1)"

definition from_wire_2_1 :: "string \<Rightarrow> string \<Rightarrow> json \<Rightarrow> OCPP2_1Error" where
  "from_wire_2_1 code description details =
     \<lparr>err_code = wire_to_code_2_1 code, err_description = description, err_details = details\<rparr>"

definition from_validation_2_1 :: "validation_error \<Rightarrow> OCPP2_1Error" where
  "from_validation_2_1 error =
     \<lparr>err_code = (case ve_class error of
                   PropertyClass \<Rightarrow> PropertyConstraintViolation_2_1
                 | OccurrenceClass \<Rightarrow> OccurrenceConstraintViolation_2_1),
      err_description = fst (validation_error_parts error),
      err_details = snd (validation_error_parts error)\<rparr>"

definition display_2_1 :: "OCPP2_1Error \<Rightarrow> string" where
  "display_2_1 e = wire_code_2_1 (err_code e) @ '': '' @ err_description e"

definition protocol_error_2_1 :: "OCPP2_1Error protocol_error" where
  "protocol_error_2_1 =
     \<lparr>pe_code = wire_code_2_1 \<circ> err_code, pe_description = err_description, pe_details = err_details,
      pe_not_implemented = not_implemented_2_1, pe_from_wire = from_wire_2_1\<rparr>"

lemma wire_to_code_wire_code_2_1 [simp]: "wire_to_code_2_1 (wire_code_2_1 c) = c"
  by (cases c) (simp_all add: wire_to_code_2_1_def)

interpretation v2_1: protocol_error_laws protocol_error_2_1
  by unfold_locales (simp_all add: protocol_error_2_1_def from_wire_2_1_def not_implemented_2_1_def)

subsection \<open>Properties\<close>

text \<open>
  C34. A CALLERROR survives the wire in every version: building the envelope from an error and reading
  the error back from it is the identity, so a peer running the same version sees the same code,
  description and details.
\<close>

theorem protocol_error_roundtrip:
  "error_of_frame protocol_error_1_6 (error_frame protocol_error_1_6 mid e16) = e16
   \<and> error_of_frame protocol_error_2_0_1 (error_frame protocol_error_2_0_1 mid e201) = e201
   \<and> error_of_frame protocol_error_2_1 (error_frame protocol_error_2_1 mid e21) = e21"
  by (simp add: v1_6.frame_roundtrip v2_0_1.frame_roundtrip v2_1.frame_roundtrip)

text \<open>
  A code outside a version's table reads as \<open>GenericError\<close> without losing the rest of the message,
  and no listed code other than \<open>GenericError\<close> is ever read as \<open>GenericError\<close>.
\<close>

lemma unknown_codes_are_generic:
  "(from_wire_1_6 c d v = \<lparr>err_code = GenericError_1_6, err_description = d, err_details = v\<rparr>
      \<longleftrightarrow> c \<notin> wire_code_1_6 ` (UNIV - {GenericError_1_6}))
   \<and> (from_wire_2_0_1 c d v = \<lparr>err_code = GenericError_2_0_1, err_description = d, err_details = v\<rparr>
      \<longleftrightarrow> c \<notin> wire_code_2_0_1 ` (UNIV - {GenericError_2_0_1}))
   \<and> (from_wire_2_1 c d v = \<lparr>err_code = GenericError_2_1, err_description = d, err_details = v\<rparr>
      \<longleftrightarrow> c \<notin> wire_code_2_1 ` (UNIV - {GenericError_2_1}))"
proof (intro conjI)
  have "wire_to_code_1_6 c = GenericError_1_6 \<or> c = wire_code_1_6 (wire_to_code_1_6 c)"
    by (simp add: wire_to_code_1_6_def)
  then show "from_wire_1_6 c d v = \<lparr>err_code = GenericError_1_6, err_description = d, err_details = v\<rparr>
      \<longleftrightarrow> c \<notin> wire_code_1_6 ` (UNIV - {GenericError_1_6})"
    by (auto simp: from_wire_1_6_def)
next
  have "wire_to_code_2_0_1 c = GenericError_2_0_1 \<or> c = wire_code_2_0_1 (wire_to_code_2_0_1 c)"
    by (simp add: wire_to_code_2_0_1_def)
  then show "from_wire_2_0_1 c d v = \<lparr>err_code = GenericError_2_0_1, err_description = d, err_details = v\<rparr>
      \<longleftrightarrow> c \<notin> wire_code_2_0_1 ` (UNIV - {GenericError_2_0_1})"
    by (auto simp: from_wire_2_0_1_def)
next
  have "wire_to_code_2_1 c = GenericError_2_1 \<or> c = wire_code_2_1 (wire_to_code_2_1 c)"
    by (simp add: wire_to_code_2_1_def)
  then show "from_wire_2_1 c d v = \<lparr>err_code = GenericError_2_1, err_description = d, err_details = v\<rparr>
      \<longleftrightarrow> c \<notin> wire_code_2_1 ` (UNIV - {GenericError_2_1})"
    by (auto simp: from_wire_2_1_def)
qed

text \<open>
  A schema violation is answered with the code of the version's own table: the class decides
  between the property and the occurrence code, 1.6 keeps its one-r spelling where 2.0.1 and 2.1 have
  two, and the JSON path travels alone under \<open>path\<close> in the details.
\<close>

lemma validation_error_codes:
  "pe_code protocol_error_1_6 (from_validation_1_6 error) =
     (case ve_class error of PropertyClass \<Rightarrow> ''PropertyConstraintViolation''
      | OccurrenceClass \<Rightarrow> ''OccurenceConstraintViolation'')
   \<and> pe_code protocol_error_2_0_1 (from_validation_2_0_1 error) =
     (case ve_class error of PropertyClass \<Rightarrow> ''PropertyConstraintViolation''
      | OccurrenceClass \<Rightarrow> ''OccurrenceConstraintViolation'')
   \<and> pe_code protocol_error_2_1 (from_validation_2_1 error) = pe_code protocol_error_2_0_1 (from_validation_2_0_1 error)
   \<and> pe_details protocol_error_1_6 (from_validation_1_6 error) = JObject [(''path'', JString (render_path error))]
   \<and> pe_details protocol_error_2_0_1 (from_validation_2_0_1 error) = JObject [(''path'', JString (render_path error))]
   \<and> pe_details protocol_error_2_1 (from_validation_2_1 error) = JObject [(''path'', JString (render_path error))]"
  by (simp add: protocol_error_1_6_def protocol_error_2_0_1_def protocol_error_2_1_def
      from_validation_1_6_def from_validation_2_0_1_def from_validation_2_1_def
      validation_error_parts_def split: constraint_class.split)

end
