(* ===== verification/Client_State.thy ===== *)
theory Client_State
  imports Reconnect Keepalive Sync Protocol_Error
begin

text \<open>
  The shared state of \<open>Client\<close> (\<^verbatim>\<open>src/client.rs\<close>), its configuration and the operations that touch
  it in one lock section: registering and forgetting waiters, \<open>disconnect\<close>, \<open>force_reconnect\<close>,
  \<open>set_ping_interval\<close>.

  \<open>Arc\<close>-shared cells are addresses into stores held by the state (\<open>replies\<close>, \<open>pongs\<close>, the channel
  stores), so that a table entry and the task that waits on it really share one cell. The transport
  is not part of the repository's state: every operation on its sink is appended to \<open>wire\<close>, the
  rejected ones too, tagged with the connection it went to and whether the transport accepted it, and
  whether it accepts is an input of the operation. Errors of the transport and of \<open>serde_json\<close> are kept by their text.
\<close>

type_synonym 'e cerror = "('e, string) client_error"
type_synonym 'e reply = "(json, 'e) result"
type_synonym sink_outcome = "(unit, string) result"

datatype sink_op = SendOp string | PingOp "byte list" | PongOp "byte list" | CloseOp

datatype transport_event = Frame string | Ping "byte list" | Pong "byte list"

record client_config =
  cfg_timeout :: duration
  cfg_reconnector :: bool      \<comment> \<open>whether a \<open>Reconnector\<close> was supplied\<close>
  cfg_reconnect_policy :: reconnect_policy
  cfg_keepalive :: keepalive_behavior

definition client_config_new :: "duration \<Rightarrow> client_config" where
  "client_config_new t =
     \<lparr>cfg_timeout = t, cfg_reconnector = False, cfg_reconnect_policy = default_reconnect_policy,
      cfg_keepalive = KeepaliveDisabled\<rparr>"

definition with_reconnect :: "reconnect_policy \<Rightarrow> client_config \<Rightarrow> client_config" where
  "with_reconnect p cfg = cfg\<lparr>cfg_reconnector := True, cfg_reconnect_policy := p\<rparr>"

definition with_keepalive :: "keepalive_behavior \<Rightarrow> client_config \<Rightarrow> client_config" where
  "with_keepalive k cfg = cfg\<lparr>cfg_keepalive := k\<rparr>"

record 'e client =
  sink_conn :: nat
  wire :: "(nat \<times> sink_op \<times> bool) list"
  pending_responses :: "uuid \<rightharpoonup> nat"
  replies :: "nat \<Rightarrow> 'e reply signal"
  next_reply :: nat
  request_senders :: "string \<rightharpoonup> nat"
  call_chans :: "nat \<Rightarrow> (string \<times> json) chan"
  next_call_chan :: nat
  notification_senders :: "string \<rightharpoonup> nat"
  send_chans :: "nat \<Rightarrow> json chan"
  next_send_chan :: nat
  next_token :: u64
  pong_waiters :: "u64 \<rightharpoonup> nat"
  pongs :: "nat \<Rightarrow> unit signal"
  next_pong :: nat
  ping_registry :: broadcast_registry
  reconnect_registry :: broadcast_registry
  keepalive :: keepalive_state
  force_reconnect :: "unit signal"
  closed :: bool
  timeout :: duration

definition new_client :: "client_config \<Rightarrow> 'e client" where
  "new_client cfg =
     \<lparr>sink_conn = 0, wire = [],
      pending_responses = Map.empty, replies = (\<lambda>_. oneshot_new), next_reply = 0,
      request_senders = Map.empty, call_chans = (\<lambda>_. chan_new), next_call_chan = 0,
      notification_senders = Map.empty, send_chans = (\<lambda>_. chan_new), next_send_chan = 0,
      next_token = 0, pong_waiters = Map.empty, pongs = (\<lambda>_. oneshot_new), next_pong = 0,
      ping_registry = registry_new, reconnect_registry = registry_new,
      keepalive = new_keepalive_state (cfg_keepalive cfg),
      force_reconnect = notify_new, closed = False, timeout = cfg_timeout cfg\<rparr>"

subsection \<open>The sink\<close>

fun accepted :: "sink_outcome \<Rightarrow> bool" where
  "accepted (Ok _) = True"
| "accepted (Err _) = False"

definition sink_write :: "sink_op \<Rightarrow> sink_outcome \<Rightarrow> 'e client \<Rightarrow> 'e client" where
  "sink_write op r c = c\<lparr>wire := wire c @ [(sink_conn c, op, accepted r)]\<rparr>"

subsection \<open>Waiters\<close>

definition register_pending :: "uuid \<Rightarrow> 'e client \<Rightarrow> nat \<times> 'e client" where
  "register_pending message_id c =
     (let slot = next_reply c in
      (slot, c\<lparr>replies := (replies c)(slot := oneshot_new), next_reply := Suc slot,
               pending_responses := (pending_responses c)(message_id \<mapsto> slot)\<rparr>))"

definition forget_pending :: "uuid \<Rightarrow> 'e client \<Rightarrow> 'e client" where
  "forget_pending message_id c = c\<lparr>pending_responses := (pending_responses c)(message_id := None)\<rparr>"

definition register_ping :: "'e client \<Rightarrow> (u64 \<times> nat) \<times> 'e client" where
  "register_ping c =
     (let token = next_token c; slot = next_pong c in
      ((token, slot),
       c\<lparr>next_token := token + 1, pongs := (pongs c)(slot := oneshot_new), next_pong := Suc slot,
         pong_waiters := (pong_waiters c)(token \<mapsto> slot)\<rparr>))"

definition forget_ping :: "u64 \<Rightarrow> 'e client \<Rightarrow> 'e client" where
  "forget_ping token c = c\<lparr>pong_waiters := (pong_waiters c)(token := None)\<rparr>"

definition clear_pong_waiters :: "'e client \<Rightarrow> 'e client" where
  "clear_pong_waiters c = c\<lparr>pong_waiters := Map.empty\<rparr>"

definition pending_request_count :: "'e client \<Rightarrow> nat" where
  "pending_request_count c = card (dom (pending_responses c))"

definition pending_ping_count :: "'e client \<Rightarrow> nat" where
  "pending_ping_count c = card (dom (pong_waiters c))"

text \<open>The read loop resolves a waiter: take it out of its table and fill its cell.\<close>

definition resolve_pending :: "uuid \<Rightarrow> 'e reply \<Rightarrow> 'e client \<Rightarrow> 'e client" where
  "resolve_pending message_id r c =
     (case pending_responses c message_id of
        Some slot \<Rightarrow> c\<lparr>pending_responses := (pending_responses c)(message_id := None),
                       replies := (replies c)(slot := oneshot_send r (replies c slot))\<rparr>
      | None \<Rightarrow> c)"

definition resolve_pong :: "byte list \<Rightarrow> 'e client \<Rightarrow> 'e client" where
  "resolve_pong payload c =
     (case try_u64_of_slice payload of
        None \<Rightarrow> c
      | Some token \<Rightarrow>
          (case pong_waiters c token of
             None \<Rightarrow> c
           | Some slot \<Rightarrow> c\<lparr>pong_waiters := (pong_waiters c)(token := None),
                            pongs := (pongs c)(slot := oneshot_send () (pongs c slot))\<rparr>))"

subsection \<open>Shutdown, redial and reconfiguration\<close>

definition client_force_reconnect :: "'e client \<Rightarrow> 'e client" where
  "client_force_reconnect c =
     (if closed c then c else c\<lparr>force_reconnect := notify (force_reconnect c)\<rparr>)"

text \<open>
  \<open>disconnect\<close> before its first await: the swap of the sticky flag and the two notifications. \<open>None\<close> is
  the idempotent early return; otherwise the close of the current sink follows.
\<close>

definition disconnect_begin :: "'e client \<Rightarrow> 'e client option" where
  "disconnect_begin c =
     (if closed c then None
      else Some (c\<lparr>closed := True, force_reconnect := notify (force_reconnect c),
                   keepalive := (keepalive c)\<lparr>changed := notify (changed (keepalive c))\<rparr>\<rparr>))"

definition disconnect_close :: "sink_outcome \<Rightarrow> 'e client \<Rightarrow> (unit, 'e cerror) result \<times> 'e client" where
  "disconnect_close r c = (map_err Transport r, sink_write CloseOp r c)"

definition disconnect :: "sink_outcome \<Rightarrow> 'e client \<Rightarrow> (unit, 'e cerror) result \<times> 'e client" where
  "disconnect r c =
     (case disconnect_begin c of None \<Rightarrow> (Ok (), c) | Some c' \<Rightarrow> disconnect_close r c')"

definition client_set_ping_interval :: "duration option \<Rightarrow> 'e client \<Rightarrow> 'e client" where
  "client_set_ping_interval i c = c\<lparr>keepalive := set_ping_interval i (keepalive c)\<rparr>"

definition client_ping_interval :: "'e client \<Rightarrow> duration option" where
  "client_ping_interval c = ping_interval (keepalive c)"

definition client_subscribe_ping :: "'e client \<Rightarrow> nat \<times> 'e client" where
  "client_subscribe_ping c =
     (fst (subscribe (ping_registry c)), c\<lparr>ping_registry := snd (subscribe (ping_registry c))\<rparr>)"

definition client_subscribe_reconnect :: "'e client \<Rightarrow> nat \<times> 'e client" where
  "client_subscribe_reconnect c =
     (fst (subscribe (reconnect_registry c)),
      c\<lparr>reconnect_registry := snd (subscribe (reconnect_registry c))\<rparr>)"

lemmas client_defs = sink_write_def register_pending_def forget_pending_def register_ping_def
  forget_ping_def clear_pong_waiters_def resolve_pending_def resolve_pong_def
  client_force_reconnect_def disconnect_begin_def disconnect_close_def disconnect_def
  client_set_ping_interval_def client_ping_interval_def client_subscribe_ping_def
  client_subscribe_reconnect_def

declare client_defs [engine_simps]

subsection \<open>The waiter-table contract\<close>

text \<open>
  Both tables obey one contract, on which the calls and the pings rely: a registered waiter is found
  and empty until it is resolved, resolving it fills its own cell and no other and removes the entry,
  forgetting removes the entry and fills nothing.
\<close>

locale waiter_table =
  fixes entry :: "'c \<Rightarrow> 'k \<rightharpoonup> nat" and cell :: "'c \<Rightarrow> nat \<Rightarrow> 'v signal"
    and forget :: "'k \<Rightarrow> 'c \<Rightarrow> 'c" and resolve :: "'k \<Rightarrow> 'v \<Rightarrow> 'c \<Rightarrow> 'c"
  assumes forget_entry: "entry (forget k c) = (entry c)(k := None)"
    and forget_cell: "cell (forget k c) = cell c"
    and resolve_entry: "entry (resolve k v c) = (entry c)(k := None)"
    and resolve_hit: "entry c k = Some slot \<Longrightarrow> cell (resolve k v c) = (cell c)(slot := Some v)"
    and resolve_miss: "entry c k = None \<Longrightarrow> cell (resolve k v c) = cell c"
begin

lemma resolve_forgotten: "cell (resolve k v (forget k c)) = cell c"
  using resolve_miss [of "forget k c" k v] by (simp add: forget_entry forget_cell)

lemma resolve_twice: "cell (resolve k w (resolve k v c)) = cell (resolve k v c)"
  using resolve_miss [of "resolve k v c" k w] by (simp add: resolve_entry)

lemma resolve_other:
  assumes "entry c k = Some slot" and "slot \<noteq> slot'"
  shows "cell (resolve k v c) slot' = cell c slot'"
  using resolve_hit [OF assms(1)] assms(2) by simp

lemma resolve_other_key: "k \<noteq> k' \<Longrightarrow> entry (resolve k v c) k' = entry c k'"
  by (simp add: resolve_entry)

end

interpretation pending: waiter_table pending_responses replies forget_pending resolve_pending
  by unfold_locales (auto simp: forget_pending_def resolve_pending_def oneshot_send_def signal_put_def
      split: option.split)

interpretation ponging: waiter_table pong_waiters pongs forget_ping
  "\<lambda>token (_ :: unit). resolve_pong (to_be_bytes token)"
  by unfold_locales (auto simp: forget_ping_def resolve_pong_def oneshot_send_def signal_put_def
      split: option.split)

end
