(* ===== verification/Client_Tasks.thy ===== *)
theory Client_Tasks
  imports Client_State
begin

text \<open>
  The client's outgoing operations as tasks: \<open>do_send_request\<close> behind \<open>call\<close>, \<open>send_ping_with_timeout\<close>
  behind \<open>send_ping\<close>, \<open>send_notification\<close>, and \<open>do_send_response\<close>. A task's program counter names the
  await it is suspended at; one step runs to the next await. What the outside decides is the step's
  input: the sink's answer, and whether the timer fired. \<open>with_timeout\<close> polls the awaited future
  before the timer, so a reply that is already there wins over a timer that fired too.
\<close>

datatype task_input = Proceed | SinkAnswers sink_outcome | TimerFires

text \<open>
  The typed payloads belong to \<open>ocpp-types\<close>, outside the repository: \<open>response_check\<close>, \<open>request_check\<close>
  and \<open>payload_check\<close> are \<open>serde_json::from_value\<close> at the response, request and SEND payload type of
  an action, \<open>Err\<close> with the error's text where the value does not fit.
\<close>

record payload_types =
  response_check :: "string \<Rightarrow> json \<Rightarrow> (unit, string) result"
  request_check :: "string \<Rightarrow> json \<Rightarrow> (unit, string) result"
  payload_check :: "string \<Rightarrow> json \<Rightarrow> (unit, string) result"

subsection \<open>Calls\<close>

datatype 'e call_pc =
    CallPrepared uuid string string          \<comment> \<open>message id, action, frame\<close>
  | CallRegistered uuid nat string string    \<comment> \<open>message id, reply cell, action, frame\<close>
  | CallSendFailed uuid nat string
  | CallWaiting uuid nat string
  | CallTimedOut uuid nat
  | CallReturned "(json, 'e cerror) result"

definition call_start :: "codec \<Rightarrow> uuid \<Rightarrow> string \<Rightarrow> (json, string) result \<Rightarrow> 'e client \<Rightarrow> 'e call_pc" where
  "call_start C message_id action request_value c =
     (if closed c then CallReturned (Err Closed)
      else case request_value of
        Err e \<Rightarrow> CallReturned (Err (Decode e))
      | Ok payload \<Rightarrow>
          (case to_string C (call_value
             (RawCall MESSAGE_TYPE_CALL (uuid_string C message_id) action payload)) of
             Err e \<Rightarrow> CallReturned (Err (Decode e))
           | Ok frame \<Rightarrow> CallPrepared message_id action frame))"

definition call_result :: "payload_types \<Rightarrow> string \<Rightarrow> 'e reply \<Rightarrow> (json, 'e cerror) result" where
  "call_result T action r =
     (case r of
        Ok v \<Rightarrow> (case response_check T action v of Ok _ \<Rightarrow> Ok v | Err e \<Rightarrow> Err (Decode e))
      | Err e \<Rightarrow> Err (Protocol e))"

definition call_wait :: "payload_types \<Rightarrow> bool \<Rightarrow> uuid \<Rightarrow> nat \<Rightarrow> string \<Rightarrow> 'e client \<Rightarrow> ('e client \<times> 'e call_pc) option" where
  "call_wait T expired message_id slot action c =
     (case oneshot_poll (replies c slot) of
        (Some r, cell) \<Rightarrow> Some (c\<lparr>replies := (replies c)(slot := cell)\<rparr>, CallReturned (call_result T action r))
      | (None, _) \<Rightarrow> if expired then Some (c, CallTimedOut message_id slot) else None)"

fun call_step :: "payload_types \<Rightarrow> task_input \<Rightarrow> 'e client \<Rightarrow> 'e call_pc \<Rightarrow> ('e client \<times> 'e call_pc) option" where
  "call_step T Proceed c (CallPrepared message_id action frame) =
     (let (slot, c') = register_pending message_id c
      in Some (c', CallRegistered message_id slot action frame))"
| "call_step T (SinkAnswers r) c (CallRegistered message_id slot action frame) =
     Some (sink_write (SendOp frame) r c,
           case r of Ok _ \<Rightarrow> CallWaiting message_id slot action
                   | Err e \<Rightarrow> CallSendFailed message_id slot e)"
| "call_step T Proceed c (CallSendFailed message_id slot e) =
     Some (forget_pending message_id c, CallReturned (Err (Transport e)))"
| "call_step T Proceed c (CallWaiting message_id slot action) =
     call_wait T False message_id slot action c"
| "call_step T TimerFires c (CallWaiting message_id slot action) =
     call_wait T True message_id slot action c"
| "call_step T Proceed c (CallTimedOut message_id slot) =
     Some (forget_pending message_id c, CallReturned (Err Timeout))"
| "call_step T _ c _ = None"

fun call_measure :: "'e call_pc \<Rightarrow> nat" where
  "call_measure (CallPrepared _ _ _) = 4"
| "call_measure (CallRegistered _ _ _ _) = 3"
| "call_measure (CallWaiting _ _ _) = 2"
| "call_measure (CallSendFailed _ _ _) = 1"
| "call_measure (CallTimedOut _ _) = 1"
| "call_measure (CallReturned _) = 0"

text \<open>The input that makes a task move on, whatever the reply: its sink answers, its timer fires.\<close>

fun call_next_input :: "sink_outcome \<Rightarrow> 'e call_pc \<Rightarrow> task_input" where
  "call_next_input r (CallRegistered _ _ _ _) = SinkAnswers r"
| "call_next_input r (CallWaiting _ _ _) = TimerFires"
| "call_next_input r _ = Proceed"

subsection \<open>Pings\<close>

datatype 'e ping_pc =
    PingPrepared
  | PingRegistered u64 nat
  | PingSendFailed u64 nat string
  | PingWaiting u64 nat
  | PingTimedOut u64 nat
  | PingReturned "(unit, 'e cerror) result"

definition ping_start :: "'e client \<Rightarrow> 'e ping_pc" where
  "ping_start c = (if closed c then PingReturned (Err Closed) else PingPrepared)"

definition ping_wait :: "bool \<Rightarrow> u64 \<Rightarrow> nat \<Rightarrow> 'e client \<Rightarrow> ('e client \<times> 'e ping_pc) option" where
  "ping_wait expired token slot c =
     (case oneshot_poll (pongs c slot) of
        (Some _, cell) \<Rightarrow> Some (c\<lparr>pongs := (pongs c)(slot := cell)\<rparr>, PingReturned (Ok ()))
      | (None, _) \<Rightarrow> if expired then Some (c, PingTimedOut token slot) else None)"

fun ping_step :: "task_input \<Rightarrow> 'e client \<Rightarrow> 'e ping_pc \<Rightarrow> ('e client \<times> 'e ping_pc) option" where
  "ping_step Proceed c PingPrepared =
     (let ((token, slot), c') = register_ping c in Some (c', PingRegistered token slot))"
| "ping_step (SinkAnswers r) c (PingRegistered token slot) =
     Some (sink_write (PingOp (to_be_bytes token)) r c,
           case r of Ok _ \<Rightarrow> PingWaiting token slot | Err e \<Rightarrow> PingSendFailed token slot e)"
| "ping_step Proceed c (PingSendFailed token slot e) =
     Some (forget_ping token c, PingReturned (Err (Transport e)))"
| "ping_step Proceed c (PingWaiting token slot) = ping_wait False token slot c"
| "ping_step TimerFires c (PingWaiting token slot) = ping_wait True token slot c"
| "ping_step Proceed c (PingTimedOut token slot) =
     Some (forget_ping token c, PingReturned (Err Timeout))"
| "ping_step _ c _ = None"

fun ping_measure :: "'e ping_pc \<Rightarrow> nat" where
  "ping_measure PingPrepared = 4"
| "ping_measure (PingRegistered _ _) = 3"
| "ping_measure (PingWaiting _ _) = 2"
| "ping_measure (PingSendFailed _ _ _) = 1"
| "ping_measure (PingTimedOut _ _) = 1"
| "ping_measure (PingReturned _) = 0"

fun ping_next_input :: "sink_outcome \<Rightarrow> 'e ping_pc \<Rightarrow> task_input" where
  "ping_next_input r (PingRegistered _ _) = SinkAnswers r"
| "ping_next_input r (PingWaiting _ _) = TimerFires"
| "ping_next_input r _ = Proceed"

subsection \<open>SEND and responses\<close>

definition send_notification_frame :: "codec \<Rightarrow> uuid \<Rightarrow> string \<Rightarrow> (json, string) result \<Rightarrow> 'e client \<Rightarrow> (string, 'e cerror) result" where
  "send_notification_frame C message_id action payload_value c =
     (if closed c then Err Closed
      else case payload_value of
        Err e \<Rightarrow> Err (Decode e)
      | Ok payload \<Rightarrow>
          map_err Decode (to_string C (send_value
            (RawSend MESSAGE_TYPE_SEND (uuid_string C message_id) action payload))))"

datatype 'e send_pc =
    SendPrepared string
  | SendReturned "(unit, 'e cerror) result"

definition send_start :: "codec \<Rightarrow> uuid \<Rightarrow> string \<Rightarrow> (json, string) result \<Rightarrow> 'e client \<Rightarrow> 'e send_pc" where
  "send_start C message_id action payload_value c =
     (case send_notification_frame C message_id action payload_value c of
        Err e \<Rightarrow> SendReturned (Err e)
      | Ok frame \<Rightarrow> SendPrepared frame)"

fun send_step :: "task_input \<Rightarrow> 'e client \<Rightarrow> 'e send_pc \<Rightarrow> ('e client \<times> 'e send_pc) option" where
  "send_step (SinkAnswers r) c (SendPrepared frame) =
     Some (sink_write (SendOp frame) r c, SendReturned (map_err Transport r))"
| "send_step _ c _ = None"

text \<open>The whole operation, when nothing else runs between its check and its write.\<close>

definition send_notification ::
  "codec \<Rightarrow> uuid \<Rightarrow> string \<Rightarrow> (json, string) result \<Rightarrow> sink_outcome \<Rightarrow> 'e client \<Rightarrow> (unit, 'e cerror) result \<times> 'e client" where
  "send_notification C message_id action payload_value r c =
     (case send_notification_frame C message_id action payload_value c of
        Err e \<Rightarrow> (Err e, c)
      | Ok frame \<Rightarrow> (map_err Transport r, sink_write (SendOp frame) r c))"

text \<open>
  A handler's outcome: \<open>Ok\<close> with the serialised response (itself fallible), or \<open>Err\<close> with a protocol
  error. \<open>None\<close> is the branch that only logs.
\<close>

type_synonym 'e handler_outcome = "((json, string) result, 'e) result"

definition response_frame :: "'e protocol_error \<Rightarrow> codec \<Rightarrow> 'e handler_outcome \<Rightarrow> string \<Rightarrow> string option" where
  "response_frame P C response message_id =
     (case response of
        Ok (Ok v) \<Rightarrow>
          (case to_string C (result_value (RawResult MESSAGE_TYPE_RESULT message_id v)) of
             Ok f \<Rightarrow> Some f | Err _ \<Rightarrow> None)
      | Ok (Err _) \<Rightarrow> None
      | Err e \<Rightarrow>
          (case to_string C (error_value (error_frame P message_id e)) of
             Ok f \<Rightarrow> Some f | Err _ \<Rightarrow> None))"

definition do_send_response ::
  "'e protocol_error \<Rightarrow> codec \<Rightarrow> 'e handler_outcome \<Rightarrow> string \<Rightarrow> sink_outcome \<Rightarrow> 'e client \<Rightarrow> 'e client" where
  "do_send_response P C response message_id r c =
     (case response_frame P C response message_id of
        Some frame \<Rightarrow> sink_write (SendOp frame) r c
      | None \<Rightarrow> c)"

subsection \<open>Progress\<close>

lemma call_wait_cases:
  "call_wait T expired mid slot action c =
     (case replies c slot of
        Some r \<Rightarrow> Some (c\<lparr>replies := (replies c)(slot := None)\<rparr>, CallReturned (call_result T action r))
      | None \<Rightarrow> if expired then Some (c, CallTimedOut mid slot) else None)"
  by (simp add: call_wait_def oneshot_poll_def signal_poll_def split: option.split)

lemma ping_wait_cases:
  "ping_wait expired token slot c =
     (case pongs c slot of
        Some _ \<Rightarrow> Some (c\<lparr>pongs := (pongs c)(slot := None)\<rparr>, PingReturned (Ok ()))
      | None \<Rightarrow> if expired then Some (c, PingTimedOut token slot) else None)"
  by (simp add: ping_wait_def oneshot_poll_def signal_poll_def split: option.split)

lemma send_notification_tasks:
  "send_notification C message_id action payload_value r c =
     (case send_start C message_id action payload_value c of
        SendReturned res \<Rightarrow> (res, c)
      | pc \<Rightarrow> (case send_step (SinkAnswers r) c pc of Some (c', SendReturned res) \<Rightarrow> (res, c')))"
  by (simp add: send_notification_def send_start_def split: result.split)

fun_cases send_step_SomeE: "send_step inp c pc = Some r"
fun_cases call_step_SomeE: "call_step T inp c pc = Some r"
fun_cases ping_step_SomeE: "ping_step inp c pc = Some r"

lemma call_step_decreases: "call_step T inp c pc = Some (c', pc') \<Longrightarrow> call_measure pc' < call_measure pc"
  by (erule call_step_SomeE)
    (auto simp: call_wait_cases register_pending_def Let_def split: option.splits if_splits result.splits)

lemma ping_step_decreases: "ping_step inp c pc = Some (c', pc') \<Longrightarrow> ping_measure pc' < ping_measure pc"
  by (erule ping_step_SomeE)
    (auto simp: ping_wait_cases register_ping_def Let_def split: option.splits if_splits result.splits)

lemma call_step_enabled:
  "call_measure pc \<noteq> 0 \<Longrightarrow> \<exists>c' pc'. call_step T (call_next_input r pc) c pc = Some (c', pc')"
  by (cases pc) (auto simp: call_wait_cases register_pending_def Let_def split: option.split)

lemma ping_step_enabled:
  "ping_measure pc \<noteq> 0 \<Longrightarrow> \<exists>c' pc'. ping_step (ping_next_input r pc) c pc = Some (c', pc')"
  by (cases pc) (auto simp: ping_wait_cases register_ping_def Let_def split: option.split)

text \<open>
  A task run in an environment that changes the client between any two of its steps: \<open>cs\<close> is the client
  it finds at each of them. Its sink answers when it writes and its timer fires when it waits.
\<close>

fun call_drive :: "payload_types \<Rightarrow> sink_outcome \<Rightarrow> 'e client list \<Rightarrow> 'e call_pc \<Rightarrow> 'e call_pc" where
  "call_drive T r [] pc = pc"
| "call_drive T r (c # cs) pc =
     (case call_step T (call_next_input r pc) c pc of
        Some (_, pc') \<Rightarrow> call_drive T r cs pc' | None \<Rightarrow> call_drive T r cs pc)"

fun ping_drive :: "sink_outcome \<Rightarrow> 'e client list \<Rightarrow> 'e ping_pc \<Rightarrow> 'e ping_pc" where
  "ping_drive r [] pc = pc"
| "ping_drive r (c # cs) pc =
     (case ping_step (ping_next_input r pc) c pc of
        Some (_, pc') \<Rightarrow> ping_drive r cs pc' | None \<Rightarrow> ping_drive r cs pc)"

lemma call_measure_0: "call_measure pc = 0 \<Longrightarrow> \<exists>res. pc = CallReturned res"
  by (cases pc) auto

lemma ping_measure_0: "ping_measure pc = 0 \<Longrightarrow> \<exists>res. pc = PingReturned res"
  by (cases pc) auto

lemma call_drive_returns: "call_measure pc \<le> length cs \<Longrightarrow> \<exists>res. call_drive T r cs pc = CallReturned res"
proof (induction cs arbitrary: pc)
  case Nil
  then show ?case using call_measure_0 by simp
next
  case (Cons c cs)
  show ?case
  proof (cases "call_measure pc = 0")
    case True
    then obtain res where "pc = CallReturned res" using call_measure_0 by blast
    with Cons.IH show ?thesis by simp
  next
    case False
    then obtain c' pc' where step: "call_step T (call_next_input r pc) c pc = Some (c', pc')"
      using call_step_enabled by blast
    from call_step_decreases [OF step] Cons.prems Cons.IH [of pc'] step show ?thesis by simp
  qed
qed

lemma ping_drive_returns: "ping_measure pc \<le> length cs \<Longrightarrow> \<exists>res. ping_drive r cs pc = PingReturned res"
proof (induction cs arbitrary: pc)
  case Nil
  then show ?case using ping_measure_0 by simp
next
  case (Cons c cs)
  show ?case
  proof (cases "ping_measure pc = 0")
    case True
    then obtain res where "pc = PingReturned res" using ping_measure_0 by blast
    with Cons.IH show ?thesis by simp
  next
    case False
    then obtain c' pc' where step: "ping_step (ping_next_input r pc) c pc = Some (c', pc')"
      using ping_step_enabled by blast
    from ping_step_decreases [OF step] Cons.prems Cons.IH [of pc'] step show ?thesis by simp
  qed
qed

subsection \<open>Properties\<close>

text \<open>
  C31. Calls and pings always return: whatever the rest of the client does between their steps, once the
  transport has answered their write and their timer may fire, four steps of a call, or of a ping, lead
  from its start to a result, be it the answer, a transport error, \<open>Timeout\<close> or \<open>Closed\<close>.
\<close>

theorem calls_and_pings_return:
  assumes "4 \<le> length cs"
  shows "(\<exists>res. call_drive T r cs (call_start C message_id action request_value c) = CallReturned res)
    \<and> (\<exists>res. ping_drive r cs (ping_start c) = PingReturned res)"
proof -
  have "call_measure (call_start C message_id action request_value c) \<le> 4"
    by (simp add: call_start_def split: result.split)
  moreover have "ping_measure (ping_start c) \<le> 4" by (simp add: ping_start_def)
  ultimately show ?thesis using assms call_drive_returns ping_drive_returns by (meson order_trans)
qed

theorem calls_and_pings_return_witness:
  "\<exists>res. ping_drive (Ok ()) (replicate 4 (new_client (client_config_new 0)))
     (ping_start (new_client (client_config_new 0) :: OCPP1_6Error client)) = PingReturned res"
  using calls_and_pings_return [of "replicate 4 (new_client (client_config_new 0) :: OCPP1_6Error client)"]
  by auto

end
