(* ===== verification/Dispatch.thy ===== *)
theory Dispatch
  imports Client_Tasks
begin

text \<open>
  Inbound frames: \<open>handle_frame\<close> of \<^verbatim>\<open>src/client.rs\<close>. The function is split at its await: \<open>route_frame\<close>
  classifies the frame, decodes its envelope and looks its recipient up (resolving a pending call on
  the spot, under the table's lock), \<open>deliver\<close> hands it over. Between the two another task may run.
\<close>

datatype dispatch =
    Nothing
  | ToHandler nat "string \<times> json"
  | ToNotification nat json
  | ReplyWith string

text \<open>The message the dispatcher hands to \<open>E::not_implemented\<close>.\<close>

definition unhandled_message :: "string \<Rightarrow> string" where
  "unhandled_message action = ''Action '' @ [quote_char] @ action @ [quote_char] @ '' is not implemented''"

definition unhandled_reply :: "'e protocol_error \<Rightarrow> string \<Rightarrow> string \<Rightarrow> raw_error" where
  "unhandled_reply P message_id action =
     error_frame P message_id (pe_not_implemented P (unhandled_message action))"

fun route_call :: "'e protocol_error \<Rightarrow> codec \<Rightarrow> raw_call \<Rightarrow> 'e client \<Rightarrow> dispatch" where
  "route_call P C (RawCall _ message_id action payload) c =
     (case request_senders c action of
        Some chan \<Rightarrow> ToHandler chan (message_id, payload)
      | None \<Rightarrow>
          (case to_string C (error_value (unhandled_reply P message_id action)) of
             Ok frame \<Rightarrow> ReplyWith frame
           | Err _ \<Rightarrow> Nothing))"

fun route_result :: "codec \<Rightarrow> raw_result \<Rightarrow> 'e client \<Rightarrow> 'e client" where
  "route_result C (RawResult _ message_id payload) c =
     (case parse_uuid C message_id of
        None \<Rightarrow> c
      | Some uuid \<Rightarrow> resolve_pending uuid (Ok payload) c)"

fun route_error :: "'e protocol_error \<Rightarrow> codec \<Rightarrow> raw_error \<Rightarrow> 'e client \<Rightarrow> 'e client" where
  "route_error P C (RawError _ message_id code description details) c =
     (case parse_uuid C message_id of
        None \<Rightarrow> c
      | Some uuid \<Rightarrow> resolve_pending uuid (Err (pe_from_wire P code description details)) c)"

fun route_send :: "raw_send \<Rightarrow> 'e client \<Rightarrow> dispatch" where
  "route_send (RawSend _ _ action payload) c =
     (case notification_senders c action of
        Some chan \<Rightarrow> ToNotification chan payload
      | None \<Rightarrow> Nothing)"

definition route_typed :: "'e protocol_error \<Rightarrow> codec \<Rightarrow> u64 \<Rightarrow> json \<Rightarrow> 'e client \<Rightarrow> 'e client \<times> dispatch" where
  "route_typed P C message_type value c =
     (if message_type = MESSAGE_TYPE_CALL then
        (case decode_call value of Some call \<Rightarrow> (c, route_call P C call c) | None \<Rightarrow> (c, Nothing))
      else if message_type = MESSAGE_TYPE_RESULT then
        (case decode_result value of Some r \<Rightarrow> (route_result C r c, Nothing) | None \<Rightarrow> (c, Nothing))
      else if message_type = MESSAGE_TYPE_ERROR then
        (case decode_error value of Some e \<Rightarrow> (route_error P C e c, Nothing) | None \<Rightarrow> (c, Nothing))
      else if message_type = MESSAGE_TYPE_SEND then
        (case decode_send value of Some s \<Rightarrow> (c, route_send s c) | None \<Rightarrow> (c, Nothing))
      else (c, Nothing))"

definition route_frame :: "'e protocol_error \<Rightarrow> codec \<Rightarrow> string \<Rightarrow> 'e client \<Rightarrow> 'e client \<times> dispatch" where
  "route_frame P C frame c =
     (case classify C frame of
        Typed message_type value \<Rightarrow> route_typed P C message_type value c
      | _ \<Rightarrow> (c, Nothing))"

fun deliver :: "dispatch \<Rightarrow> sink_outcome \<Rightarrow> 'e client \<Rightarrow> 'e client" where
  "deliver Nothing r c = c"
| "deliver (ToHandler chan m) r c =
     c\<lparr>call_chans := (call_chans c)(chan := chan_send m (call_chans c chan))\<rparr>"
| "deliver (ToNotification chan v) r c =
     c\<lparr>send_chans := (send_chans c)(chan := chan_send v (send_chans c chan))\<rparr>"
| "deliver (ReplyWith frame) r c = sink_write (SendOp frame) r c"

definition handle_frame :: "'e protocol_error \<Rightarrow> codec \<Rightarrow> string \<Rightarrow> sink_outcome \<Rightarrow> 'e client \<Rightarrow> 'e client" where
  "handle_frame P C frame r c = (case route_frame P C frame c of (c', d) \<Rightarrow> deliver d r c')"

subsection \<open>Frames by kind\<close>

lemma route_frame_call:
  "from_str C frame = Some (call_value (RawCall MESSAGE_TYPE_CALL mid action payload)) \<Longrightarrow>
   route_frame P C frame c = (c, route_call P C (RawCall MESSAGE_TYPE_CALL mid action payload) c)"
  by (simp add: route_frame_def classify_array route_typed_def message_type_defs del: route_call.simps)

lemma route_frame_result:
  "from_str C frame = Some (result_value (RawResult MESSAGE_TYPE_RESULT mid payload)) \<Longrightarrow>
   route_frame P C frame c = (route_result C (RawResult MESSAGE_TYPE_RESULT mid payload) c, Nothing)"
  by (simp add: route_frame_def classify_array route_typed_def message_type_defs del: route_result.simps)

lemma route_frame_error:
  "from_str C frame = Some (error_value (RawError MESSAGE_TYPE_ERROR mid code d v)) \<Longrightarrow>
   route_frame P C frame c = (route_error P C (RawError MESSAGE_TYPE_ERROR mid code d v) c, Nothing)"
  by (simp add: route_frame_def classify_array route_typed_def message_type_defs del: route_error.simps)

lemma route_frame_send:
  "from_str C frame = Some (send_value (RawSend MESSAGE_TYPE_SEND mid action payload)) \<Longrightarrow>
   route_frame P C frame c = (c, route_send (RawSend MESSAGE_TYPE_SEND mid action payload) c)"
  by (simp add: route_frame_def classify_array route_typed_def message_type_defs del: route_send.simps)

lemmas route_frames = route_frame_call route_frame_result route_frame_error route_frame_send

lemma wire_resolve_pending [simp]: "wire (resolve_pending k v c) = wire c"
  by (simp add: resolve_pending_def split: option.split)

lemma wire_route_result [simp]: "wire (route_result C r c) = wire c"
  by (cases r) (simp split: option.split)

lemma wire_route_error [simp]: "wire (route_error P C e c) = wire c"
  by (cases e) (simp split: option.split)

lemma wire_route_frame [simp]: "wire (fst (route_frame P C frame c)) = wire c"
  by (simp add: route_frame_def route_typed_def split: classified.split option.split)

lemma route_frame_reply:
  assumes "snd (route_frame P C frame c) = ReplyWith f"
  obtains mid action payload
  where "from_str C frame = Some (call_value (RawCall MESSAGE_TYPE_CALL mid action payload))"
    and "request_senders c action = None"
    and "to_string C (error_value (unhandled_reply P mid action)) = Ok f"
    and "fst (route_frame P C frame c) = c"
proof -
  obtain t v where typed: "classify C frame = Typed t v"
    using assms by (cases "classify C frame") (auto simp: route_frame_def)
  have "t = MESSAGE_TYPE_CALL"
  proof (rule ccontr)
    assume "t \<noteq> MESSAGE_TYPE_CALL"
    with assms typed have "\<exists>s. route_send s c = ReplyWith f"
      by (auto simp: route_frame_def route_typed_def split: option.splits if_splits)
    then obtain s where "route_send s c = ReplyWith f" ..
    then show False by (cases s) (auto split: option.splits)
  qed
  with assms typed obtain call where call: "decode_call v = Some call" "route_call P C call c = ReplyWith f"
    by (auto simp: route_frame_def route_typed_def split: option.splits)
  obtain t' mid action payload where rc: "call = RawCall t' mid action payload" by (cases call)
  have shape: "from_str C frame = Some (call_value (RawCall t' mid action payload))"
    "t' = MESSAGE_TYPE_CALL"
    using typed call(1) rc \<open>t = MESSAGE_TYPE_CALL\<close> by (auto simp: classify_Typed decode_call_Some)
  show thesis
  proof (rule that)
    show "from_str C frame = Some (call_value (RawCall MESSAGE_TYPE_CALL mid action payload))"
      using shape by simp
    show "request_senders c action = None" "to_string C (error_value (unhandled_reply P mid action)) = Ok f"
      using call(2) rc by (auto split: option.splits result.splits)
    show "fst (route_frame P C frame c) = c"
      using typed \<open>t = MESSAGE_TYPE_CALL\<close> call(1) by (simp add: route_frame_def route_typed_def)
  qed
qed

subsection \<open>Properties\<close>

text \<open>
  A response reaches exactly the call that is waiting for it: the CALLRESULT, or the CALLERROR of a
  peer of the same version, printed for a message id fills that call's cell with the payload or the
  error, removes its table entry, and changes nothing else in the client.
\<close>

definition handler_says :: "'e reply \<Rightarrow> 'e handler_outcome" where
  "handler_says reply = (case reply of Ok v \<Rightarrow> Ok (Ok v) | Err e \<Rightarrow> Err e)"

definition reply_readable :: "'e protocol_error \<Rightarrow> 'e reply \<Rightarrow> bool" where
  "reply_readable P reply = readable 127 (case reply of Ok v \<Rightarrow> v | Err e \<Rightarrow> pe_details P e)"

lemma response_resolves_its_call:
  assumes "codec_ok C" and "protocol_error_laws P" and "reply_readable P reply"
    and "response_frame P C (handler_says reply) (uuid_string C u) = Some f" and "pending_responses c u = Some slot"
  shows "handle_frame P C f r c =
    c\<lparr>pending_responses := (pending_responses c)(u := None), replies := (replies c)(slot := Some reply)\<rparr>"
proof (cases reply)
  case (Ok v)
  then have "to_string C (result_value (RawResult MESSAGE_TYPE_RESULT (uuid_string C u) v)) = Ok f"
    using assms(4) by (simp add: response_frame_def handler_says_def split: result.splits)
  from route_frame_result [OF codec_ok_json [OF assms(1) this], of P c] readable_envelopes(2) assms(3,5) Ok
  show ?thesis
    by (simp add: handle_frame_def codec_ok_uuid [OF assms(1)] resolve_pending_def oneshot_send_def
        signal_put_def reply_readable_def)
next
  case (Err e)
  then have "to_string C (error_value (error_frame P (uuid_string C u) e)) = Ok f"
    using assms(4) by (simp add: response_frame_def handler_says_def split: result.splits)
  from route_frame_error [OF codec_ok_json [OF assms(1) this [unfolded error_frame_def]], of P c]
    readable_envelopes(3) assms(3,5) Err
  show ?thesis
    by (simp add: handle_frame_def codec_ok_uuid [OF assms(1)] resolve_pending_def reply_readable_def
        oneshot_send_def signal_put_def protocol_error_laws.from_wire_id [OF assms(2)])
qed

text \<open>What a caller prints, as its peer reads it.\<close>

lemma call_start_frame:
  assumes "codec_ok C" and "readable 127 v" and "call_start C m action (Ok v) c = CallPrepared m action f"
  shows "from_str C f = Some (call_value (RawCall MESSAGE_TYPE_CALL (uuid_string C m) action v))"
  using assms(3) codec_ok_json [OF assms(1) _ readable_envelopes(1) [OF assms(2)]]
  by (simp add: call_start_def split: if_splits result.splits)

lemma send_start_frame:
  assumes "codec_ok C" and "readable 127 v" and "send_start C m action (Ok v) c = SendPrepared f"
  shows "from_str C f = Some (send_value (RawSend MESSAGE_TYPE_SEND (uuid_string C m) action v))"
  using assms(3) codec_ok_json [OF assms(1) _ readable_envelopes(4) [OF assms(2)]]
  by (simp add: send_start_def send_notification_frame_def split: if_splits result.splits)

text \<open>
  C33. A call goes to its peer and back: the frame \<open>call\<close> prints, handled by a peer with a handler for the
  action, queues the message id and the request there and nothing else; the frame the peer prints for
  its handler's outcome, be it a response or a protocol error, handled by the caller, removes the
  call's table entry and makes the waiting call return that outcome. A SEND reaches the peer's
  notification channel in the same way and nothing comes back. Requests, responses and error details are
  values \<open>serde_json\<close> reads back exactly.
\<close>

theorem call_round_trip:
  assumes "codec_ok C" and "protocol_error_laws P" and "readable 127 v" and "reply_readable P reply"
    and "call_start C m action (Ok v) caller = CallPrepared m action f" and "request_senders peer action = Some chan"
    and "response_frame P C (handler_says reply) (uuid_string C m) = Some g"
    and "pending_responses waiting m = Some slot"
    and "send_start C n notice (Ok w) caller = SendPrepared h" and "readable 127 w"
    and "notification_senders peer notice = Some chan'"
  shows "handle_frame P C f r peer =
      peer\<lparr>call_chans := (call_chans peer)(chan := chan_send (uuid_string C m, v) (call_chans peer chan))\<rparr>
    \<and> pending_responses (handle_frame P C g r waiting) = (pending_responses waiting)(m := None)
    \<and> map_option snd (call_step T Proceed (handle_frame P C g r waiting) (CallWaiting m slot action))
        = Some (CallReturned (call_result T action reply))
    \<and> wire (handle_frame P C g r waiting) = wire waiting
    \<and> handle_frame P C h r peer =
      peer\<lparr>send_chans := (send_chans peer)(chan' := chan_send w (send_chans peer chan'))\<rparr>"
proof -
  note answer = response_resolves_its_call [OF assms(1,2,4,7,8), of r]
  show ?thesis
    using route_frame_call [OF call_start_frame [OF assms(1,3,5)], of P peer]
      route_frame_send [OF send_start_frame [OF assms(1,10,9)], of P peer] assms(6,11)
    unfolding answer by (simp add: handle_frame_def call_wait_cases)
qed

text \<open>A call that is answered with an error, and a notification, over a table of their four frames.\<close>

definition trip_error :: OCPP2_1Error where
  "trip_error = pe_not_implemented protocol_error_2_1 ''Reset''"

definition trip_codec :: codec where
  "trip_codec = table_codec
     [(''[2]'', call_value (RawCall MESSAGE_TYPE_CALL ''x'' ''Reset'' JNull)),
      (''[4]'', error_value (error_frame protocol_error_2_1 ''x'' trip_error)),
      (''[6]'', send_value (RawSend MESSAGE_TYPE_SEND ''x'' ''NotifyPeriodicEventStream'' JNull))]"

definition trip_peer :: "OCPP2_1Error client" where
  "trip_peer = (new_client (client_config_new 0))
     \<lparr>request_senders := [''Reset'' \<mapsto> 0], notification_senders := [''NotifyPeriodicEventStream'' \<mapsto> 0]\<rparr>"

theorem call_round_trip_witness:
  "let caller = snd (register_pending 1 (new_client (client_config_new 0))) :: OCPP2_1Error client
   in queue (call_chans (handle_frame protocol_error_2_1 trip_codec ''[2]'' (Ok ()) trip_peer) 0) = [(''x'', JNull)]
    \<and> map_option snd (call_step \<lparr>response_check = \<lambda>_ _. Ok (), request_check = \<lambda>_ _. Ok (), payload_check = \<lambda>_ _. Ok ()\<rparr>
        Proceed (handle_frame protocol_error_2_1 trip_codec ''[4]'' (Ok ()) caller) (CallWaiting 1 0 ''Reset''))
      = Some (CallReturned (Err (Protocol trip_error)))
    \<and> queue (send_chans (handle_frame protocol_error_2_1 trip_codec ''[6]'' (Ok ()) trip_peer) 0) = [JNull]"
proof -
  let ?caller = "snd (register_pending 1 (new_client (client_config_new 0))) :: OCPP2_1Error client"
  let ?types = "\<lparr>response_check = \<lambda>_ _. Ok (), request_check = \<lambda>_ _. Ok (), payload_check = \<lambda>_ _. Ok ()\<rparr> :: payload_types"
  have ok: "codec_ok trip_codec" unfolding trip_codec_def by (rule table_codec_ok) simp
  have "reply_readable protocol_error_2_1 (Err trip_error)"
    by (simp add: reply_readable_def trip_error_def protocol_error_laws.not_implemented_details [OF v2_1.protocol_error_laws_axioms])
  moreover have "call_start trip_codec 1 ''Reset'' (Ok JNull) ?caller = CallPrepared 1 ''Reset'' ''[2]''"
    "send_start trip_codec 1 ''NotifyPeriodicEventStream'' (Ok JNull) ?caller = SendPrepared ''[6]''"
    "response_frame protocol_error_2_1 trip_codec (handler_says (Err trip_error)) (uuid_string trip_codec 1) = Some ''[4]''"
    by (simp_all add: trip_codec_def table_codec_def call_start_def send_start_def send_notification_frame_def
        response_frame_def handler_says_def error_frame_def message_type_defs register_pending_def new_client_def Let_def)
  moreover have "request_senders trip_peer ''Reset'' = Some 0"
    "notification_senders trip_peer ''NotifyPeriodicEventStream'' = Some 0" "pending_responses ?caller 1 = Some 0"
    "uuid_string trip_codec 1 = ''x''" "queue (call_chans trip_peer 0) = []" "queue (send_chans trip_peer 0) = []"
    by (simp_all add: trip_peer_def register_pending_def new_client_def Let_def trip_codec_def table_codec_def chan_new_def)
  ultimately show ?thesis
    using call_round_trip [OF ok v2_1.protocol_error_laws_axioms, of JNull "Err trip_error" 1 "''Reset''" ?caller "''[2]''"
        trip_peer 0 "''[4]''" ?caller 0 1 "''NotifyPeriodicEventStream''" JNull "''[6]''" 0 "Ok ()" ?types]
    by (simp add: call_result_def)
qed

lemma unhandled_reply_readable:
  "protocol_error_laws P \<Longrightarrow> readable 128 (error_value (unhandled_reply P mid action))"
  by (simp add: unhandled_reply_def error_frame_def protocol_error_laws.not_implemented_details readable_envelopes
      del: error_value.simps)

text \<open>
  C30. A CALL for an action nobody handles is answered at once, and the answer is a CALLERROR carrying
  the peer's own message id and the code \<open>NotImplemented\<close>; no table, cell or channel changes.
\<close>

theorem unhandled_call_is_answered:
  assumes "codec_ok C" and "protocol_error_laws P"
    and "from_str C frame = Some (call_value (RawCall MESSAGE_TYPE_CALL mid action payload))"
    and "request_senders c action = None"
    and "to_string C (error_value (unhandled_reply P mid action)) = Ok f"
  shows "handle_frame P C frame r c = sink_write (SendOp f) r c
    \<and> classify C f = Typed MESSAGE_TYPE_ERROR (error_value (unhandled_reply P mid action))
    \<and> (\<exists>d. unhandled_reply P mid action = RawError MESSAGE_TYPE_ERROR mid ''NotImplemented'' d (JObject []))"
  using assms codec_ok_json [OF assms(1,5)] unhandled_reply_readable [OF assms(2)]
  by (simp add: handle_frame_def route_frame_call classify_Typed unhandled_reply_def error_frame_def
      protocol_error_laws.not_implemented_code [OF assms(2)]
      protocol_error_laws.not_implemented_details [OF assms(2)])

theorem unhandled_call_is_answered_witness:
  "wire (handle_frame protocol_error_2_1
     (table_codec
       [(''[2,m,Reset,null]'', call_value (RawCall MESSAGE_TYPE_CALL ''m'' ''Reset'' JNull)),
        (''[4,m]'', error_value (unhandled_reply protocol_error_2_1 ''m'' ''Reset''))])
     ''[2,m,Reset,null]'' (Ok ()) (new_client (client_config_new 0)))
   = [(0, SendOp ''[4,m]'', True)]"
proof -
  let ?C = "table_codec
       [(''[2,m,Reset,null]'', call_value (RawCall MESSAGE_TYPE_CALL ''m'' ''Reset'' JNull)),
        (''[4,m]'', error_value (unhandled_reply protocol_error_2_1 ''m'' ''Reset''))]"
  let ?c = "new_client (client_config_new 0) :: OCPP2_1Error client"
  have ok: "codec_ok ?C" by (rule table_codec_ok) simp
  have frame: "from_str ?C ''[2,m,Reset,null]''
      = Some (call_value (RawCall MESSAGE_TYPE_CALL ''m'' ''Reset'' JNull))"
    by (simp add: table_codec_def)
  have fresh: "request_senders ?c ''Reset'' = None" by (simp add: new_client_def)
  have printed: "to_string ?C (error_value (unhandled_reply protocol_error_2_1 ''m'' ''Reset'')) = Ok ''[4,m]''"
    by (simp add: table_codec_def unhandled_reply_def error_frame_def)
  show ?thesis
    using unhandled_call_is_answered [OF ok v2_1.protocol_error_laws_axioms frame fresh printed, of "Ok ()"]
    by (simp add: sink_write_def new_client_def)
qed

text \<open>
  C29. The dispatcher never answers anything but an unhandled CALL: whenever handling a frame writes to
  the sink, the frame is a CALL without a registered handler and exactly one frame is written. In
  particular a SEND is never replied to, as OCPP-J 2.1 demands, and neither are responses.
\<close>

theorem only_unhandled_calls_are_answered:
  assumes "wire (handle_frame P C frame r c) \<noteq> wire c"
  shows "\<exists>mid action payload f.
    from_str C frame = Some (call_value (RawCall MESSAGE_TYPE_CALL mid action payload))
    \<and> request_senders c action = None
    \<and> handle_frame P C frame r c = sink_write (SendOp f) r c"
proof -
  obtain f where reply: "snd (route_frame P C frame c) = ReplyWith f"
    using assms by (cases "snd (route_frame P C frame c)")
      (auto simp: handle_frame_def split_beta wire_route_frame)
  then show ?thesis
    by (rule route_frame_reply) (use reply in \<open>auto simp: handle_frame_def split_beta\<close>)
qed

theorem only_unhandled_calls_are_answered_witness:
  "\<exists>mid action payload f.
     from_str (table_codec
       [(''[2,m,Reset,null]'', call_value (RawCall MESSAGE_TYPE_CALL ''m'' ''Reset'' JNull)),
        (''[4,m]'', error_value (unhandled_reply protocol_error_2_1 ''m'' ''Reset''))]) ''[2,m,Reset,null]''
       = Some (call_value (RawCall MESSAGE_TYPE_CALL mid action payload))
     \<and> request_senders (new_client (client_config_new 0) :: OCPP2_1Error client) action = None
     \<and> handle_frame protocol_error_2_1 (table_codec
       [(''[2,m,Reset,null]'', call_value (RawCall MESSAGE_TYPE_CALL ''m'' ''Reset'' JNull)),
        (''[4,m]'', error_value (unhandled_reply protocol_error_2_1 ''m'' ''Reset''))]) ''[2,m,Reset,null]''
         (Ok ()) (new_client (client_config_new 0))
       = sink_write (SendOp f) (Ok ()) (new_client (client_config_new 0))"
  by (rule only_unhandled_calls_are_answered)
    (simp add: handle_frame_def route_frame_def classify_def table_codec_def route_typed_def
      message_type_defs new_client_def unhandled_reply_def error_frame_def sink_write_def)

text \<open>
  A CALL for a registered action is queued once, verbatim, on that action's channel and nowhere
  else; a SEND likewise on its notification channel; neither touches the sink or the waiter tables.
\<close>

lemma handled_frames_are_queued:
  assumes "request_senders c action = Some chan" and "notification_senders c action' = Some chan'"
  shows "(from_str C frame = Some (call_value (RawCall MESSAGE_TYPE_CALL mid action payload)) \<longrightarrow>
      handle_frame P C frame r c =
        c\<lparr>call_chans := (call_chans c)(chan := chan_send (mid, payload) (call_chans c chan))\<rparr>)
    \<and> (from_str C frame = Some (send_value (RawSend MESSAGE_TYPE_SEND mid action' payload)) \<longrightarrow>
      handle_frame P C frame r c =
        c\<lparr>send_chans := (send_chans c)(chan' := chan_send payload (send_chans c chan'))\<rparr>)"
  using assms by (simp add: handle_frame_def route_frame_call route_frame_send del: call_value.simps send_value.simps)

lemma handled_frames_are_queued_example:
  "\<exists>c :: OCPP2_1Error client.
     queue (call_chans (handle_frame protocol_error_2_1
       (table_codec [(''[2,m,Reset,null]'', call_value (RawCall MESSAGE_TYPE_CALL ''m'' ''Reset'' JNull))])
       ''[2,m,Reset,null]'' (Ok ()) c) 0) = [(''m'', JNull)]"
proof -
  let ?C = "table_codec [(''[2,m,Reset,null]'', call_value (RawCall MESSAGE_TYPE_CALL ''m'' ''Reset'' JNull))]"
  let ?c = "(new_client (client_config_new 0) :: OCPP2_1Error client)
    \<lparr>request_senders := [''Reset'' \<mapsto> 0], notification_senders := [''Reset'' \<mapsto> 0]\<rparr>"
  have "from_str ?C ''[2,m,Reset,null]'' = Some (call_value (RawCall MESSAGE_TYPE_CALL ''m'' ''Reset'' JNull))"
    by (simp add: table_codec_def)
  then have "handle_frame protocol_error_2_1 ?C ''[2,m,Reset,null]'' (Ok ()) ?c =
      ?c\<lparr>call_chans := (call_chans ?c)(0 := chan_send (''m'', JNull) (call_chans ?c 0))\<rparr>"
    using handled_frames_are_queued [of ?c "''Reset''" 0 "''Reset''" 0 ?C "''[2,m,Reset,null]''" "''m''" JNull
        protocol_error_2_1 "Ok ()"] by simp
  then have "queue (call_chans (handle_frame protocol_error_2_1 ?C ''[2,m,Reset,null]'' (Ok ()) ?c) 0)
      = [(''m'', JNull)]"
    by (simp add: new_client_def chan_new_def)
  then show ?thesis by blast
qed

text \<open>
  The text of the CALLERROR for an unhandled action wraps its sentence twice: the dispatcher passes
  the finished sentence to \<open>not_implemented\<close>, which expects the bare action name, in every version.
\<close>

lemma unhandled_description_is_nested:
  assumes "protocol_error_laws P"
  shows "unhandled_reply P mid action =
    RawError MESSAGE_TYPE_ERROR mid ''NotImplemented''
      (unhandled_message (unhandled_message action)) (JObject [])
    \<and> unhandled_message (unhandled_message action) \<noteq> unhandled_message action"
  by (simp add: unhandled_reply_def error_frame_def unhandled_message_def
      protocol_error_laws.not_implemented_code [OF assms]
      protocol_error_laws.not_implemented_details [OF assms]
      protocol_error_laws.not_implemented_description [OF assms])

lemma unhandled_description_is_nested_example:
  "unhandled_reply protocol_error_1_6 ''m'' ''Reset'' =
    RawError MESSAGE_TYPE_ERROR ''m'' ''NotImplemented''
      (unhandled_message (unhandled_message ''Reset'')) (JObject [])"
  using unhandled_description_is_nested [OF v1_6.protocol_error_laws_axioms, of "''m''" "''Reset''"]
  by blast

end
