(* ===== verification/Handlers.thy ===== *)
theory Handlers
  imports Dispatch
begin

text \<open>
  Registered handlers (\<^verbatim>\<open>src/client.rs\<close>): \<open>on\<close> and \<open>on_notification\<close> with the tasks they spawn, and the
  test-only \<open>wait_for\<close>. A handler task is suspended at its channel's lock, at its channel's signal, in
  the user's callback or at the sink; what the callback returns and what the sink answers are inputs.
\<close>

subsection \<open>Registration\<close>

definition client_on :: "string \<Rightarrow> 'e client \<Rightarrow> nat \<times> 'e client" where
  "client_on action c =
     (let chan = next_call_chan c;
          c1 = c\<lparr>call_chans := (call_chans c)(chan := chan_new), next_call_chan := Suc chan,
                 request_senders := (request_senders c)(action \<mapsto> chan)\<rparr>
      in (chan,
          case request_senders c action of
            Some previous \<Rightarrow>
              c1\<lparr>call_chans := (call_chans c1)(previous := chan_close (call_chans c1 previous))\<rparr>
          | None \<Rightarrow> c1))"

definition client_on_notification :: "string \<Rightarrow> 'e client \<Rightarrow> nat \<times> 'e client" where
  "client_on_notification action c =
     (let chan = next_send_chan c;
          c1 = c\<lparr>send_chans := (send_chans c)(chan := chan_new), next_send_chan := Suc chan,
                 notification_senders := (notification_senders c)(action \<mapsto> chan)\<rparr>
      in (chan,
          case notification_senders c action of
            Some previous \<Rightarrow>
              c1\<lparr>send_chans := (send_chans c1)(previous := chan_close (send_chans c1 previous))\<rparr>
          | None \<Rightarrow> c1))"

text \<open>\<open>wait_for\<close> removes its own registration on the way out, and only its own.\<close>

definition unregister_own :: "string \<Rightarrow> nat \<Rightarrow> 'e client \<Rightarrow> 'e client" where
  "unregister_own action chan c =
     (if request_senders c action = Some chan
      then c\<lparr>request_senders := (request_senders c)(action := None)\<rparr> else c)"

subsection \<open>Handler tasks\<close>

datatype 'e handler_pc =
    HChecking
  | HParked
  | HCalling string json
  | HReplying string "'e handler_outcome"
  | HEnded

datatype 'e handler_input = HProceed | HCallback "'e handler_outcome" | HSink sink_outcome

definition parse_failure :: "'e protocol_error \<Rightarrow> string \<Rightarrow> 'e" where
  "parse_failure P action = pe_not_implemented P (''Failed to parse payload for '' @ action)"

fun handler_step ::
  "'e protocol_error \<Rightarrow> codec \<Rightarrow> payload_types \<Rightarrow> string \<Rightarrow> nat \<Rightarrow> 'e handler_input \<Rightarrow>
   'e client \<Rightarrow> 'e handler_pc \<Rightarrow> ('e client \<times> 'e handler_pc) option" where
  "handler_step P C T action chan HProceed c HChecking =
     (case chan_check (call_chans c chan) of
        (Ready (Some (message_id, payload)), ch) \<Rightarrow>
          Some (c\<lparr>call_chans := (call_chans c)(chan := ch)\<rparr>,
            case request_check T action payload of
              Ok _ \<Rightarrow> HCalling message_id payload
            | Err _ \<Rightarrow> HReplying message_id (Err (parse_failure P action)))
      | (Ready None, ch) \<Rightarrow> Some (c\<lparr>call_chans := (call_chans c)(chan := ch)\<rparr>, HEnded)
      | (Park, ch) \<Rightarrow> Some (c\<lparr>call_chans := (call_chans c)(chan := ch)\<rparr>, HParked))"
| "handler_step P C T action chan HProceed c HParked =
     (case signal_poll (wakeup (call_chans c chan)) of
        (Some _, w) \<Rightarrow>
          Some (c\<lparr>call_chans := (call_chans c)(chan := (call_chans c chan)\<lparr>wakeup := w\<rparr>)\<rparr>, HChecking)
      | (None, _) \<Rightarrow> None)"
| "handler_step P C T action chan (HCallback response) c (HCalling message_id payload) =
     Some (c, HReplying message_id response)"
| "handler_step P C T action chan (HSink r) c (HReplying message_id response) =
     Some (do_send_response P C response message_id r c, HChecking)"
| "handler_step P C T action chan _ c _ = None"

datatype notification_pc = NChecking | NParked | NCalling json | NEnded

text \<open>A SEND handler's callback returns nothing; a payload that does not parse is only logged.\<close>

fun notification_step ::
  "payload_types \<Rightarrow> string \<Rightarrow> nat \<Rightarrow> 'e client \<Rightarrow> notification_pc \<Rightarrow> ('e client \<times> notification_pc) option" where
  "notification_step T action chan c NChecking =
     (case chan_check (send_chans c chan) of
        (Ready (Some payload), ch) \<Rightarrow>
          Some (c\<lparr>send_chans := (send_chans c)(chan := ch)\<rparr>,
            case payload_check T action payload of Ok _ \<Rightarrow> NCalling payload | Err _ \<Rightarrow> NChecking)
      | (Ready None, ch) \<Rightarrow> Some (c\<lparr>send_chans := (send_chans c)(chan := ch)\<rparr>, NEnded)
      | (Park, ch) \<Rightarrow> Some (c\<lparr>send_chans := (send_chans c)(chan := ch)\<rparr>, NParked))"
| "notification_step T action chan c NParked =
     (case signal_poll (wakeup (send_chans c chan)) of
        (Some _, w) \<Rightarrow>
          Some (c\<lparr>send_chans := (send_chans c)(chan := (send_chans c chan)\<lparr>wakeup := w\<rparr>)\<rparr>, NChecking)
      | (None, _) \<Rightarrow> None)"
| "notification_step T action chan c (NCalling payload) = Some (c, NChecking)"
| "notification_step T action chan c NEnded = None"

subsection \<open>wait_for\<close>

text \<open>
  \<open>wait_for\<close> after its registration, by what its bounded receive produced: the CALL, the end of the
  channel, or the timeout. The callback's outcome and the sink's answer are inputs; the value returned
  is the request that parsed.
\<close>

datatype wait_outcome = Received string json | Superseded | Expired

fun wait_for_finish ::
  "'e protocol_error \<Rightarrow> codec \<Rightarrow> payload_types \<Rightarrow> string \<Rightarrow> nat \<Rightarrow> wait_outcome \<Rightarrow> 'e handler_outcome \<Rightarrow>
   sink_outcome \<Rightarrow> 'e client \<Rightarrow> (json, 'e cerror) result \<times> 'e client" where
  "wait_for_finish P C T action chan (Received message_id payload) response r c =
     (case request_check T action payload of
        Ok _ \<Rightarrow> (Ok payload, unregister_own action chan (do_send_response P C response message_id r c))
      | Err e \<Rightarrow> (Err (Decode e), unregister_own action chan c))"
| "wait_for_finish P C T action chan Superseded response r c =
     (Err Closed, unregister_own action chan c)"
| "wait_for_finish P C T action chan Expired response r c =
     (Err Timeout, unregister_own action chan c)"

subsection \<open>The registration contract\<close>

text \<open>Every registered channel was allocated, and no two actions share one.\<close>

definition well_registered :: "(string \<rightharpoonup> nat) \<Rightarrow> nat \<Rightarrow> bool" where
  "well_registered m n \<longleftrightarrow> (\<forall>a p. m a = Some p \<longrightarrow> p < n) \<and> inj_on m (dom m)"

locale handler_registry =
  fixes senders :: "'c \<Rightarrow> string \<rightharpoonup> nat" and chans :: "'c \<Rightarrow> nat \<Rightarrow> 'm chan"
    and fresh :: "'c \<Rightarrow> nat" and register :: "string \<Rightarrow> 'c \<Rightarrow> nat \<times> 'c"
  assumes register_handle: "fst (register a c) = fresh c"
    and register_senders: "senders (snd (register a c)) = (senders c)(a \<mapsto> fresh c)"
    and register_fresh: "fresh (snd (register a c)) = Suc (fresh c)"
    and register_chans: "chans (snd (register a c)) =
      (let m = (chans c)(fresh c := chan_new) in
       case senders c a of None \<Rightarrow> m | Some p \<Rightarrow> m(p := chan_close (m p)))"
begin

lemma register_well:
  assumes "well_registered (senders c) (fresh c)"
  shows "well_registered (senders (snd (register a c))) (fresh (snd (register a c)))"
proof -
  have bound: "senders c b = Some p \<Longrightarrow> p < fresh c" for b p
    using assms by (auto simp: well_registered_def)
  have inj: "senders c x = senders c y \<Longrightarrow> senders c x = Some p \<Longrightarrow> x = y" for x y p
    by (metis assms domI inj_on_eq_iff well_registered_def)
  have "inj_on ((senders c)(a \<mapsto> fresh c)) (insert a (dom (senders c)))"
  proof (rule inj_onI)
    fix x y
    assume "x \<in> insert a (dom (senders c))" "y \<in> insert a (dom (senders c))"
      and "((senders c)(a \<mapsto> fresh c)) x = ((senders c)(a \<mapsto> fresh c)) y"
    moreover have "senders c z \<noteq> Some (fresh c)" for z
      using bound by blast
    ultimately show "x = y" using inj by (fastforce split: if_splits)
  qed
  moreover have "((senders c)(a \<mapsto> fresh c)) b = Some p \<Longrightarrow> p < Suc (fresh c)" for b p
    using bound [of b p] by (auto split: if_splits)
  ultimately show ?thesis by (simp add: well_registered_def register_senders register_fresh)
qed

lemma registered_is_fresh:
  assumes "well_registered (senders c) (fresh c)"
  shows "chans (snd (register a c)) (fresh c) = chan_new"
  using assms by (auto simp: register_chans Let_def well_registered_def split: option.split)

lemma replaced_is_closed:
  assumes "well_registered (senders c) (fresh c)" and "senders c a = Some p"
  shows "chans (snd (register a c)) p = chan_close (chans c p)"
  using assms by (auto simp: register_chans Let_def well_registered_def)

lemma others_untouched:
  assumes "well_registered (senders c) (fresh c)" and "senders c b = Some p" and "a \<noteq> b"
  shows "senders (snd (register a c)) b = Some p \<and> chans (snd (register a c)) p = chans c p"
proof -
  have "p \<noteq> fresh c" using assms by (auto simp: well_registered_def)
  moreover have "senders c a \<noteq> Some p"
    using assms by (auto simp: well_registered_def inj_on_def dom_def)
  ultimately show ?thesis
    using assms by (auto simp: register_senders register_chans Let_def split: option.split)
qed

end

interpretation requests: handler_registry request_senders call_chans next_call_chan client_on
  by unfold_locales (auto simp: client_on_def Let_def split: option.split)

interpretation notifications: handler_registry notification_senders send_chans next_send_chan
  client_on_notification
  by unfold_locales (auto simp: client_on_notification_def Let_def split: option.split)

subsection \<open>Running a handler\<close>

text \<open>The abstract service: what a handler answers to each queued CALL, in order.\<close>

definition handler_answer ::
  "'e protocol_error \<Rightarrow> payload_types \<Rightarrow> string \<Rightarrow> (json \<Rightarrow> 'e handler_outcome) \<Rightarrow> json \<Rightarrow> 'e handler_outcome" where
  "handler_answer P T action callback payload =
     (case request_check T action payload of
        Ok _ \<Rightarrow> callback payload
      | Err _ \<Rightarrow> Err (parse_failure P action))"

definition served :: "'e protocol_error \<Rightarrow> codec \<Rightarrow> payload_types \<Rightarrow> string \<Rightarrow> (json \<Rightarrow> 'e handler_outcome) \<Rightarrow>
   (string \<Rightarrow> sink_outcome) \<Rightarrow> nat \<Rightarrow> (string \<times> json) list \<Rightarrow> (nat \<times> sink_op \<times> bool) list" where
  "served P C T action callback sink conn msgs =
     concat (map (\<lambda>(message_id, payload).
       case response_frame P C (handler_answer P T action callback payload) message_id of
         Some frame \<Rightarrow> [(conn, SendOp frame, accepted (sink message_id))]
       | None \<Rightarrow> []) msgs)"

text \<open>The task run on its own: its callback and its sink answer whenever it waits for them.\<close>

fun handler_feed :: "(json \<Rightarrow> 'e handler_outcome) \<Rightarrow> (string \<Rightarrow> sink_outcome) \<Rightarrow> 'e handler_pc \<Rightarrow> 'e handler_input" where
  "handler_feed callback sink (HCalling message_id payload) = HCallback (callback payload)"
| "handler_feed callback sink (HReplying message_id response) = HSink (sink message_id)"
| "handler_feed callback sink _ = HProceed"

inductive handler_runs ::
  "'e protocol_error \<Rightarrow> codec \<Rightarrow> payload_types \<Rightarrow> string \<Rightarrow> nat \<Rightarrow> (json \<Rightarrow> 'e handler_outcome) \<Rightarrow>
   (string \<Rightarrow> sink_outcome) \<Rightarrow> 'e client \<times> 'e handler_pc \<Rightarrow> 'e client \<times> 'e handler_pc \<Rightarrow> bool"
  for P C T action chan callback sink where
  stay: "handler_runs P C T action chan callback sink s s"
| go: "handler_step P C T action chan (handler_feed callback sink pc) c pc = Some t \<Longrightarrow>
    handler_runs P C T action chan callback sink t u \<Longrightarrow>
    handler_runs P C T action chan callback sink (c, pc) u"

lemma do_send_response_wire:
  "do_send_response P C response mid r c =
     c\<lparr>wire := wire c @ (case response_frame P C response mid of
        Some frame \<Rightarrow> [(sink_conn c, SendOp frame, accepted r)] | None \<Rightarrow> [])\<rparr>"
  by (simp add: do_send_response_def sink_write_def split: option.split)

text \<open>The client with a channel's queue replaced and lines added to the wire.\<close>

definition settle :: "nat \<Rightarrow> (string \<times> json) list \<Rightarrow> (nat \<times> sink_op \<times> bool) list \<Rightarrow> 'e client \<Rightarrow> 'e client" where
  "settle chan rest log c =
     c\<lparr>call_chans := (call_chans c)(chan := (call_chans c chan)\<lparr>queue := rest\<rparr>), wire := wire c @ log\<rparr>"

lemma settle_simps [simp]:
  "queue (call_chans (settle chan rest log c) chan) = rest"
  "is_closed_chan (call_chans (settle chan rest log c) chan) = is_closed_chan (call_chans c chan)"
  "sink_conn (settle chan rest log c) = sink_conn c"
  "wire (settle chan rest log c) = wire c @ log"
  by (simp_all add: settle_def)

lemma settle_settle: "settle chan rest' log' (settle chan rest log c) = settle chan rest' (log @ log') c"
proof -
  have "(call_chans (settle chan rest log c))(chan := (call_chans (settle chan rest log c) chan)\<lparr>queue := rest'\<rparr>)
      = (call_chans c)(chan := (call_chans c chan)\<lparr>queue := rest'\<rparr>)"
    by (rule ext) (simp add: settle_def)
  then show ?thesis
    unfolding settle_def [of chan rest' log' "settle chan rest log c"] settle_def [of chan rest' "log @ log'" c]
    by (simp add: settle_def)
qed

lemma handler_serves_one:
  assumes "queue (call_chans c chan) = (mid, payload) # rest"
    and "handler_runs P C T action chan callback sink
      (settle chan rest (served P C T action callback sink (sink_conn c) [(mid, payload)]) c, HChecking) u"
  shows "handler_runs P C T action chan callback sink (c, HChecking) u"
proof -
  let ?c = "c\<lparr>call_chans := (call_chans c)(chan := (call_chans c chan)\<lparr>queue := rest\<rparr>)\<rparr>"
  let ?answer = "handler_answer P T action callback payload"
  have "do_send_response P C ?answer mid (sink mid) ?c =
      settle chan rest (served P C T action callback sink (sink_conn c) [(mid, payload)]) c"
    by (simp add: do_send_response_wire served_def settle_def split: option.split)
  with assms(2) have replying: "handler_runs P C T action chan callback sink (?c, HReplying mid ?answer) u"
    by (intro handler_runs.go) auto
  have took: "chan_check (call_chans c chan) =
      (Ready (Some (mid, payload)), (call_chans c chan)\<lparr>queue := rest\<rparr>)"
    using assms(1) by (simp add: chan_check_def)
  show ?thesis
  proof (cases "request_check T action payload")
    case (Ok _)
    then have "handler_runs P C T action chan callback sink (?c, HCalling mid payload) u"
      using replying by (intro handler_runs.go) (auto simp: handler_answer_def)
    with Ok took show ?thesis by (intro handler_runs.go) auto
  next
    case (Err _)
    with replying took show ?thesis by (intro handler_runs.go) (auto simp: handler_answer_def)
  qed
qed

lemma served_Cons:
  "served P C T action callback sink conn (m # ms) =
     served P C T action callback sink conn [m] @ served P C T action callback sink conn ms"
  by (simp add: served_def)

lemma handler_serves_all:
  assumes "queue (call_chans c chan) = msgs"
  shows "handler_runs P C T action chan callback sink (c, HChecking)
    (settle chan [] (served P C T action callback sink (sink_conn c) msgs) c,
     if is_closed_chan (call_chans c chan) then HEnded else HParked)"
  using assms
proof (induction msgs arbitrary: c)
  case Nil
  have "(call_chans c)(chan := (call_chans c chan)\<lparr>queue := []\<rparr>) = call_chans c"
    using Nil by (metis (no_types) chan.surjective chan.update_convs(1) fun_upd_triv)
  then have "settle chan [] [] c = c" by (simp add: settle_def)
  with Nil show ?case
    by (intro handler_runs.go [OF _ handler_runs.stay]) (auto simp: chan_check_def served_def)
next
  case (Cons m ms)
  obtain mid payload where m: "m = (mid, payload)" by (cases m)
  let ?c = "settle chan ms (served P C T action callback sink (sink_conn c) [(mid, payload)]) c"
  have "handler_runs P C T action chan callback sink (?c, HChecking)
    (settle chan [] (served P C T action callback sink (sink_conn c) (m # ms)) c,
     if is_closed_chan (call_chans c chan) then HEnded else HParked)"
    using Cons.IH [of ?c] served_Cons [of P C T action callback sink "sink_conn c" "(mid, payload)" ms]
    by (simp add: m settle_settle)
  with Cons.prems m show ?case by (blast intro: handler_serves_one)
qed

subsection \<open>Properties\<close>

text \<open>
  A handler task implements the abstract service: run on its own it takes every queued CALL in
  order and writes, for each, the frame answering its message id (the callback's result, its protocol
  error, or the parse failure), then parks, or ends if its channel was closed by a replacement.
\<close>

lemma handler_answers_queue_in_order:
  assumes "queue (call_chans c chan) = msgs"
  shows "handler_runs P C T action chan callback sink (c, HChecking)
    (settle chan [] (served P C T action callback sink (sink_conn c) msgs) c,
     if is_closed_chan (call_chans c chan) then HEnded else HParked)"
  using assms by (rule handler_serves_all)

lemma handler_answers_queue_in_order_example:
  "let c = (new_client (client_config_new 0) :: OCPP1_6Error client)
         \<lparr>call_chans := (\<lambda>_. chan_send (''m'', JNull) chan_new)\<rparr>;
       C = table_codec [(''[3,m,null]'', result_value (RawResult MESSAGE_TYPE_RESULT ''m'' JNull))];
       T = \<lparr>response_check = (\<lambda>_ _. Ok ()), request_check = (\<lambda>_ _. Ok ()), payload_check = (\<lambda>_ _. Ok ())\<rparr>
   in handler_runs protocol_error_1_6 C T ''Reset'' 0 (\<lambda>v. Ok (Ok v)) (\<lambda>_. Ok ())
        (c, HChecking) (settle 0 [] [(0, SendOp ''[3,m,null]'', True)] c, HParked)"
proof -
  let ?c = "(new_client (client_config_new 0) :: OCPP1_6Error client)
    \<lparr>call_chans := (\<lambda>_. chan_send (''m'', JNull) chan_new)\<rparr>"
  let ?C = "table_codec [(''[3,m,null]'', result_value (RawResult MESSAGE_TYPE_RESULT ''m'' JNull))]"
  let ?T = "\<lparr>response_check = (\<lambda>_ _. Ok ()), request_check = (\<lambda>_ _. Ok ()), payload_check = (\<lambda>_ _. Ok ())\<rparr>"
  have q: "queue (call_chans ?c 0) = [(''m'', JNull)]" by (simp add: chan_new_def)
  have log: "served protocol_error_1_6 ?C ?T ''Reset'' (\<lambda>v. Ok (Ok v)) (\<lambda>_. Ok ())
      (sink_conn ?c) [(''m'', JNull)] = [(0, SendOp ''[3,m,null]'', True)]"
    by (simp add: new_client_def served_def handler_answer_def response_frame_def table_codec_def)
  have live: "\<not> is_closed_chan (call_chans ?c 0)" by (simp add: chan_new_def)
  show ?thesis
    using handler_answers_queue_in_order [OF q, of protocol_error_1_6 ?C ?T "''Reset''"
        "\<lambda>v. Ok (Ok v)" "\<lambda>_. Ok ()", unfolded log] live
    by (simp add: Let_def)
qed

text \<open>
  Registering a handler replaces the previous one and disturbs no other action: the action is
  bound to a fresh, empty, open channel; a replaced channel is closed with its queue kept, so its task
  drains and ends; every other action keeps its binding and its channel.
\<close>

lemma registration_replaces_only_its_action:
  assumes "well_registered (request_senders c) (next_call_chan c)"
  shows "request_senders (snd (client_on action c)) action = Some (next_call_chan c)
    \<and> call_chans (snd (client_on action c)) (next_call_chan c) = chan_new
    \<and> well_registered (request_senders (snd (client_on action c))) (next_call_chan (snd (client_on action c)))
    \<and> (\<forall>p. request_senders c action = Some p \<longrightarrow>
         call_chans (snd (client_on action c)) p = chan_close (call_chans c p))
    \<and> (\<forall>b p. b \<noteq> action \<and> request_senders c b = Some p \<longrightarrow>
         request_senders (snd (client_on action c)) b = Some p
         \<and> call_chans (snd (client_on action c)) p = call_chans c p)"
  using requests.registered_is_fresh [OF assms, of action] requests.register_well [OF assms, of action]
    requests.replaced_is_closed [OF assms, of action] requests.others_untouched [OF assms, where a = action]
  by (simp add: requests.register_senders) metis

lemma registration_replaces_only_its_action_example:
  "request_senders (snd (client_on ''Reset'' (new_client (client_config_new 0) :: OCPP1_6Error client))) ''Reset''
     = Some 0"
proof -
  have "well_registered (request_senders (new_client (client_config_new 0) :: OCPP1_6Error client))
      (next_call_chan (new_client (client_config_new 0) :: OCPP1_6Error client))"
    by (simp add: well_registered_def new_client_def)
  from registration_replaces_only_its_action [OF this, of "''Reset''"] show ?thesis
    by (simp add: new_client_def)
qed

text \<open>
  \<open>wait_for\<close> cleans up on every way out and never tears out a registration that superseded its
  own: afterwards its own channel is bound to the action no more, a later registration still is, and
  other actions are untouched.
\<close>

lemma wait_for_unregisters_only_itself:
  "request_senders (snd (wait_for_finish P C T action chan out response r c)) =
     (if request_senders c action = Some chan then (request_senders c)(action := None)
      else request_senders c)"
  by (cases out)
    (auto simp: unregister_own_def do_send_response_def sink_write_def split: result.split option.split)

end
