(* ===== verification/Read_Loop.thy ===== *)
theory Read_Loop
  imports Handlers
begin

text \<open>
  The background read loop spawned by \<open>from_transport_with_config\<close> (\<^verbatim>\<open>src/client.rs\<close>): reading, the
  three ways out of the inner loop, backoff, redial and the final stop. The program counter names the
  await or the check the task is at; one step runs to the next one. Inputs are what the transport, the
  timer, the reconnector and the random source decide.

  \<open>waits\<close> and \<open>dials\<close> are history since the last inbound event: the delays drawn for its backoffs, which
  a wake may cut short, and the dials begun; no step reads them. How long a backoff lasts is the matter
  of \<open>Redial_Time\<close>. Connections are numbered in the order they are installed, from 0.
\<close>

datatype loop_exit = Eof | Forced | Shutdown

datatype read_pc =
    Reading
  | Dispatching dispatch
  | Ponging "byte list"
  | Exited loop_exit
  | StopClearing
  | CourtesyClose
  | Clearing
  | Delaying
  | BackingOff duration
  | DialCheck
  | Dialing
  | Installing
  | Announcing
  | Stopped

datatype read_input =
    RecvEvent transport_event
  | RecvEnd                    \<comment> \<open>\<open>recv\<close> returned \<open>Ok(None)\<close> or an error\<close>
  | Woken                      \<comment> \<open>the awaited future is pending and the wake signal is ready\<close>
  | RSink sink_outcome
  | Drew u128                  \<comment> \<open>the UUID drawn for the jitter\<close>
  | DelayOver
  | Dialled bool
  | RGo

record read_loop =
  rl_pc :: read_pc
  attempt :: u32
  stream_conn :: nat
  next_conn :: nat
  waits :: "duration list"
  dials :: nat

definition read_loop_start :: read_loop where
  "read_loop_start =
     \<lparr>rl_pc = Reading, attempt = 0, stream_conn = 0, next_conn = 1, waits = [], dials = 0\<rparr>"

text \<open>Polling the wake signal takes it; \<open>None\<close> where it is not latched.\<close>

definition take_wake :: "'e client \<Rightarrow> 'e client option" where
  "take_wake c =
     (case notify_poll (force_reconnect c) of
        (Some _, s) \<Rightarrow> Some (c\<lparr>force_reconnect := s\<rparr>)
      | (None, _) \<Rightarrow> None)"

fun read_event :: "'e protocol_error \<Rightarrow> codec \<Rightarrow> transport_event \<Rightarrow> 'e client \<Rightarrow> 'e client \<times> read_pc" where
  "read_event P C (Frame frame) c =
     (case route_frame P C frame c of (c', d) \<Rightarrow> (c', Dispatching d))"
| "read_event P C (Ping payload) c = (c\<lparr>ping_registry := notify_all (ping_registry c)\<rparr>, Ponging payload)"
| "read_event P C (Pong payload) c = (resolve_pong payload c, Reading)"

definition read_woken :: "client_config \<Rightarrow> 'e client \<Rightarrow> read_pc" where
  "read_woken cfg c =
     (if closed c then Exited Shutdown else if cfg_reconnector cfg then Exited Forced else Reading)"

definition after_exit :: "client_config \<Rightarrow> loop_exit \<Rightarrow> 'e client \<Rightarrow> read_pc" where
  "after_exit cfg reason c =
     (if reason = Shutdown \<or> closed c then StopClearing
      else if \<not> cfg_reconnector cfg then Stopped
      else if reason = Forced then CourtesyClose
      else Clearing)"

text \<open>The inner loop, raced against the wake signal; \<open>recv\<close> is polled first.\<close>

definition at_reading ::
  "client_config \<Rightarrow> 'e protocol_error \<Rightarrow> codec \<Rightarrow> read_input \<Rightarrow> 'e client \<Rightarrow> read_loop \<Rightarrow> ('e client \<times> read_loop) option" where
  "at_reading cfg P C inp c l =
     (case inp of
        RecvEvent event \<Rightarrow>
          (case read_event P C event c of
             (c', pc) \<Rightarrow> Some (c', l\<lparr>rl_pc := pc, attempt := 0, waits := [], dials := 0\<rparr>))
      | RecvEnd \<Rightarrow> Some (c, l\<lparr>rl_pc := Exited Eof\<rparr>)
      | Woken \<Rightarrow>
          (case take_wake c of
             Some c' \<Rightarrow> Some (c', l\<lparr>rl_pc := read_woken cfg c'\<rparr>)
           | None \<Rightarrow> None)
      | _ \<Rightarrow> None)"

text \<open>The redial loop: wait first, interruptibly, then check for a shutdown, then dial.\<close>

definition at_delaying :: "client_config \<Rightarrow> read_input \<Rightarrow> 'e client \<Rightarrow> read_loop \<Rightarrow> ('e client \<times> read_loop) option" where
  "at_delaying cfg inp c l =
     (case inp of
        Drew uuid \<Rightarrow>
          (let delay = jittered_delay_for (cfg_reconnect_policy cfg) (attempt l) uuid in
           Some (c, l\<lparr>rl_pc := BackingOff delay, attempt := saturating_add (attempt l) 1,
                      waits := waits l @ [delay]\<rparr>))
      | _ \<Rightarrow> None)"

definition at_backing_off :: "read_input \<Rightarrow> 'e client \<Rightarrow> read_loop \<Rightarrow> ('e client \<times> read_loop) option" where
  "at_backing_off inp c l =
     (case inp of
        DelayOver \<Rightarrow> Some (c, l\<lparr>rl_pc := DialCheck\<rparr>)
      | Woken \<Rightarrow>
          (case take_wake c of
             Some c' \<Rightarrow> Some (c', l\<lparr>rl_pc := if closed c' then Stopped else DialCheck\<rparr>)
           | None \<Rightarrow> None)
      | _ \<Rightarrow> None)"

text \<open>The places that only wait for the sink.\<close>

definition at_sink :: "(sink_outcome \<Rightarrow> 'e client \<times> read_pc) \<Rightarrow> read_input \<Rightarrow> read_loop \<Rightarrow> ('e client \<times> read_loop) option" where
  "at_sink f inp l =
     (case inp of RSink r \<Rightarrow> Some (fst (f r), l\<lparr>rl_pc := snd (f r)\<rparr>) | _ \<Rightarrow> None)"

definition at_go :: "'e client \<times> read_loop \<Rightarrow> read_input \<Rightarrow> ('e client \<times> read_loop) option" where
  "at_go s inp = (if inp = RGo then Some s else None)"

definition at_dialing :: "read_input \<Rightarrow> 'e client \<Rightarrow> read_loop \<Rightarrow> ('e client \<times> read_loop) option" where
  "at_dialing inp c l =
     (case inp of Dialled ok \<Rightarrow> Some (c, l\<lparr>rl_pc := if ok then Installing else Delaying\<rparr>) | _ \<Rightarrow> None)"

definition read_task ::
  "client_config \<Rightarrow> 'e protocol_error \<Rightarrow> codec \<Rightarrow> read_input \<Rightarrow> 'e client \<Rightarrow> read_loop \<Rightarrow> ('e client \<times> read_loop) option" where
  "read_task cfg P C inp c l =
     (case rl_pc l of
        Reading \<Rightarrow> at_reading cfg P C inp c l
      | Dispatching d \<Rightarrow> at_sink (\<lambda>r. (deliver d r c, Reading)) inp l
      | Ponging payload \<Rightarrow> at_sink (\<lambda>r. (sink_write (PongOp payload) r c, Reading)) inp l
      | Exited reason \<Rightarrow> at_go (c, l\<lparr>rl_pc := after_exit cfg reason c\<rparr>) inp
      | StopClearing \<Rightarrow> at_go (clear_pong_waiters c, l\<lparr>rl_pc := Stopped\<rparr>) inp
      | CourtesyClose \<Rightarrow> at_sink (\<lambda>r. (sink_write CloseOp r c, Clearing)) inp l
      | Clearing \<Rightarrow> at_go (clear_pong_waiters c, l\<lparr>rl_pc := Delaying\<rparr>) inp
      | Delaying \<Rightarrow> at_delaying cfg inp c l
      | BackingOff _ \<Rightarrow> at_backing_off inp c l
      | DialCheck \<Rightarrow>
          at_go (if closed c then (c, l\<lparr>rl_pc := Stopped\<rparr>)
                 else (c, l\<lparr>rl_pc := Dialing, dials := Suc (dials l)\<rparr>)) inp
      | Dialing \<Rightarrow> at_dialing inp c l
      | Installing \<Rightarrow>
          at_go (c\<lparr>sink_conn := next_conn l\<rparr>,
                 l\<lparr>rl_pc := Announcing, stream_conn := next_conn l, next_conn := Suc (next_conn l)\<rparr>) inp
      | Announcing \<Rightarrow>
          at_go (c\<lparr>reconnect_registry := notify_all (reconnect_registry c)\<rparr>, l\<lparr>rl_pc := Reading\<rparr>) inp
      | Stopped \<Rightarrow> None)"

lemmas read_defs = read_task_def at_reading_def at_delaying_def at_backing_off_def at_sink_def
  at_go_def at_dialing_def

fun read_run ::
  "client_config \<Rightarrow> 'e protocol_error \<Rightarrow> codec \<Rightarrow> read_input list \<Rightarrow> 'e client \<times> read_loop \<Rightarrow> ('e client \<times> read_loop) option" where
  "read_run cfg P C [] s = Some s"
| "read_run cfg P C (i # is) (c, l) =
     (case read_task cfg P C i c l of Some s \<Rightarrow> read_run cfg P C is s | None \<Rightarrow> None)"

lemma take_wake_cases:
  "take_wake c = (case force_reconnect c of Some _ \<Rightarrow> Some (c\<lparr>force_reconnect := None\<rparr>) | None \<Rightarrow> None)"
  by (simp add: take_wake_def notify_poll_def signal_poll_def split: option.split)

lemma closed_resolve [simp]:
  "closed (resolve_pending k v c) = closed c" "closed (resolve_pong b c) = closed c"
  by (simp_all add: resolve_pending_def resolve_pong_def split: option.split)

lemma force_resolve [simp]:
  "force_reconnect (resolve_pending k v c) = force_reconnect c"
  "force_reconnect (resolve_pong b c) = force_reconnect c"
  by (simp_all add: resolve_pending_def resolve_pong_def split: option.split)

lemma route_frame_frame [simp]:
  "closed (fst (route_frame P C f c)) = closed c"
  "force_reconnect (fst (route_frame P C f c)) = force_reconnect c"
proof -
  have "closed (route_result C r c) = closed c \<and> force_reconnect (route_result C r c) = force_reconnect c" for r
    by (cases r) (simp split: option.split)
  moreover have "closed (route_error P C e c) = closed c \<and> force_reconnect (route_error P C e c) = force_reconnect c" for e
    by (cases e) (simp split: option.split)
  ultimately show "closed (fst (route_frame P C f c)) = closed c"
    "force_reconnect (fst (route_frame P C f c)) = force_reconnect c"
    by (simp_all add: route_frame_def route_typed_def split: classified.split option.split)
qed

lemma deliver_frame [simp]:
  "closed (deliver d r c) = closed c" "force_reconnect (deliver d r c) = force_reconnect c"
  by (cases d; simp add: sink_write_def)+

lemma read_event_frame:
  assumes "read_event P C ev c = (c', pc)"
  shows "closed c' = closed c" and "force_reconnect c' = force_reconnect c"
  using assms route_frame_frame [of P C _ c] by (cases ev; auto simp: split_beta)+

lemma closed_sink_write [simp]: "closed (sink_write op r c) = closed c"
  by (simp add: sink_write_def)

lemma closed_clear [simp]: "closed (clear_pong_waiters c) = closed c"
  by (simp add: clear_pong_waiters_def)

lemma force_sink_write [simp]: "force_reconnect (sink_write op r c) = force_reconnect c"
  by (simp add: sink_write_def)

lemma force_clear [simp]: "force_reconnect (clear_pong_waiters c) = force_reconnect c"
  by (simp add: clear_pong_waiters_def)

lemmas read_splits = read_pc.splits read_input.splits option.splits prod.splits if_splits

lemma read_task_closed: "read_task cfg P C inp c l = Some (c', l') \<Longrightarrow> closed c' = closed c"
  by (auto simp: read_defs take_wake_cases Let_def dest: read_event_frame split: read_splits)

subsection \<open>Shutdown\<close>

text \<open>
  After \<open>disconnect\<close> the wake signal stays latched until the loop has seen the shutdown.
\<close>

definition wake_inv :: "'e client \<Rightarrow> read_loop \<Rightarrow> bool" where
  "wake_inv c l \<longleftrightarrow>
     (closed c \<longrightarrow> force_reconnect c = Some () \<or> rl_pc l \<in> {Exited Shutdown, StopClearing, Stopped})"

fun stop_measure :: "read_pc \<Rightarrow> nat" where
  "stop_measure Dialing = 6"
| "stop_measure Installing = 5"
| "stop_measure CourtesyClose = 5"
| "stop_measure (Dispatching _) = 4"
| "stop_measure (Ponging _) = 4"
| "stop_measure Announcing = 4"
| "stop_measure Clearing = 4"
| "stop_measure Reading = 3"
| "stop_measure Delaying = 3"
| "stop_measure (Exited _) = 2"
| "stop_measure (BackingOff _) = 2"
| "stop_measure StopClearing = 1"
| "stop_measure DialCheck = 1"
| "stop_measure Stopped = 0"

fun inbound :: "read_input \<Rightarrow> bool" where
  "inbound (RecvEvent _) = True"
| "inbound _ = False"

lemma read_task_wake_inv:
  assumes "read_task cfg P C inp c l = Some (c', l')" and "wake_inv c l"
  shows "wake_inv c' l'"
  using assms
  by (cases "rl_pc l"; cases inp)
    (auto simp: read_defs wake_inv_def take_wake_cases read_woken_def after_exit_def Let_def
      dest: read_event_frame split: option.splits prod.splits if_splits)

lemma read_event_pc: "read_event P C ev c = (c', pc) \<Longrightarrow> pc \<noteq> Dialing"
  by (cases ev) (auto split: prod.splits)

lemma read_task_no_dial:
  assumes "read_task cfg P C inp c l = Some (c', l')" and "closed c"
  shows "rl_pc l' \<noteq> Dialing \<and> dials l' \<le> dials l"
  using assms
  by (cases "rl_pc l"; cases inp)
    (auto simp: read_defs take_wake_cases read_woken_def after_exit_def Let_def
      dest: read_event_pc split: option.splits prod.splits if_splits)

lemma read_task_measure:
  assumes "read_task cfg P C inp c l = Some (c', l')" and "closed c" and "\<not> inbound inp"
  shows "stop_measure (rl_pc l') < stop_measure (rl_pc l)"
  using assms
  by (cases "rl_pc l"; cases inp)
    (auto simp: read_defs take_wake_cases read_woken_def after_exit_def Let_def
      split: option.splits prod.splits)

fun stop_input :: "read_pc \<Rightarrow> read_input" where
  "stop_input Reading = Woken"
| "stop_input (Dispatching _) = RSink (Ok ())"
| "stop_input (Ponging _) = RSink (Ok ())"
| "stop_input CourtesyClose = RSink (Ok ())"
| "stop_input Delaying = Drew 0"
| "stop_input (BackingOff _) = DelayOver"
| "stop_input Dialing = Dialled False"
| "stop_input _ = RGo"

lemma not_inbound_stop_input [simp]: "\<not> inbound (stop_input pc)"
  by (cases pc) simp_all

lemma read_task_enabled:
  assumes "closed c" and "wake_inv c l" and "rl_pc l \<noteq> Stopped"
  shows "\<exists>c' l'. read_task cfg P C (stop_input (rl_pc l)) c l = Some (c', l')"
  using assms by (cases "rl_pc l") (auto simp: read_defs wake_inv_def take_wake_cases Let_def)

lemma read_run_stops:
  assumes "closed c" and "wake_inv c l" and "stop_measure (rl_pc l) \<le> n"
  shows "\<exists>is c' l'. list_all (\<lambda>i. \<not> inbound i) is \<and> length is \<le> n
    \<and> read_run cfg P C is (c, l) = Some (c', l') \<and> rl_pc l' = Stopped"
  using assms
proof (induction n arbitrary: c l)
  case 0
  then have "rl_pc l = Stopped" by (cases "rl_pc l") auto
  then show ?case by (intro exI [of _ "[]"]) simp
next
  case (Suc n)
  show ?case
  proof (cases "rl_pc l = Stopped")
    case True
    then show ?thesis by (intro exI [of _ "[]"]) simp
  next
    case False
    with Suc.prems obtain c1 l1 where step: "read_task cfg P C (stop_input (rl_pc l)) c l = Some (c1, l1)"
      using read_task_enabled by blast
    have "closed c1" "wake_inv c1 l1"
      using step Suc.prems read_task_closed read_task_wake_inv by blast+
    moreover have "stop_measure (rl_pc l1) \<le> n"
      using read_task_measure [OF step Suc.prems(1)] Suc.prems(3) by simp
    ultimately obtain "is" c' l' where "list_all (\<lambda>i. \<not> inbound i) is" "length is \<le> n"
      "read_run cfg P C is (c1, l1) = Some (c', l')" "rl_pc l' = Stopped"
      using Suc.IH by blast
    with step show ?thesis
      by (intro exI [of _ "stop_input (rl_pc l) # is"] exI [of _ c'] exI [of _ l']) simp
  qed
qed

subsection \<open>Backoff\<close>

definition attempt_at :: "nat \<Rightarrow> u32" where
  "attempt_at i = word_of_nat (min i (2 ^ 32 - 1))"

fun wait_credit :: "read_pc \<Rightarrow> nat" where
  "wait_credit (BackingOff _) = 1"
| "wait_credit DialCheck = 1"
| "wait_credit _ = 0"

text \<open>Since the last inbound event: one wait per attempt, each in its window, and a wait before every dial.\<close>

definition backoff_inv :: "client_config \<Rightarrow> read_loop \<Rightarrow> bool" where
  "backoff_inv cfg l \<longleftrightarrow>
     attempt l = attempt_at (length (waits l))
     \<and> (\<forall>i < length (waits l).
          delay_for (cfg_reconnect_policy cfg) (attempt_at i) div 2 \<le> waits l ! i
          \<and> waits l ! i \<le> delay_for (cfg_reconnect_policy cfg) (attempt_at i))
     \<and> dials l + wait_credit (rl_pc l) \<le> length (waits l)"

lemma attempt_at_0 [simp]: "attempt_at 0 = 0"
  by (simp add: attempt_at_def)

lemma attempt_at_Suc: "saturating_add (attempt_at n) 1 = attempt_at (Suc n)"
proof (rule word_unat_eq_iff [THEN iffD2])
  have unat: "unat (attempt_at k) = min k (2 ^ 32 - 1)" for k
    by (simp add: attempt_at_def unat_of_nat)
  show "unat (saturating_add (attempt_at n) 1) = unat (attempt_at (Suc n))"
    by (simp add: unat_saturating_Suc unat)
qed

lemma backoff_inv_start: "backoff_inv cfg read_loop_start"
  by (simp add: backoff_inv_def read_loop_start_def)

lemma backoff_inv_wait:
  assumes "backoff_inv cfg l" and "rl_pc l = Delaying"
    and "delay = jittered_delay_for (cfg_reconnect_policy cfg) (attempt l) u"
  shows "backoff_inv cfg (l\<lparr>rl_pc := BackingOff delay, attempt := saturating_add (attempt l) 1,
    waits := waits l @ [delay]\<rparr>)"
  using assms jittered_in_window [of "cfg_reconnect_policy cfg" "attempt l" u]
  by (auto simp: backoff_inv_def attempt_at_Suc nth_append less_Suc_eq)

lemma wait_credit_exits [simp]:
  "wait_credit (read_woken cfg c) = 0" "wait_credit (after_exit cfg reason c) = 0"
  by (simp_all add: read_woken_def after_exit_def)

lemma wait_credit_event: "read_event P C ev c = (c', pc) \<Longrightarrow> wait_credit pc = 0"
  by (cases ev) (auto split: prod.splits)

lemma read_task_counters:
  assumes "read_task cfg P C inp c l = Some (c', l')" and "rl_pc l \<noteq> Delaying"
  shows "(attempt l' = 0 \<and> waits l' = [] \<and> dials l' = 0 \<and> wait_credit (rl_pc l') = 0)
    \<or> (attempt l' = attempt l \<and> waits l' = waits l
       \<and> dials l' + wait_credit (rl_pc l') \<le> dials l + wait_credit (rl_pc l))"
  using assms
  by (cases "rl_pc l"; cases inp)
    (auto simp: read_defs take_wake_cases dest: wait_credit_event split: option.splits prod.splits if_splits)

lemma read_task_backoff:
  assumes "read_task cfg P C inp c l = Some (c', l')" and "backoff_inv cfg l"
  shows "backoff_inv cfg l'"
proof (cases "rl_pc l = Delaying")
  case True
  with assms backoff_inv_wait [OF assms(2) True] show ?thesis
    by (auto simp: read_defs Let_def split: read_input.splits)
next
  case False
  show ?thesis
    using read_task_counters [OF assms(1) False] assms(2) unfolding backoff_inv_def
    by (elim disjE) auto
qed

end
