(* ===== verification/Keepalive_Loop.thy ===== *)
theory Keepalive_Loop
  imports Client_Tasks
begin

text \<open>
  The scheduled-ping task \<open>keepalive_loop\<close> of \<^verbatim>\<open>src/client.rs\<close>. It sleeps out the interval unless it is
  reconfigured, pings, counts consecutive misses and escalates to \<open>force_reconnect\<close>. \<open>with_timeout\<close>
  polls \<open>changed\<close> before the timer, so a sleep only elapses while no reconfiguration is latched.
\<close>

datatype 'e ka_pc =
    KaTop
  | KaParked
  | KaSleeping duration
  | KaAwake
  | KaPinging "'e ping_pc"
  | KaStopped

datatype ka_input = KGo | KWoken | KElapsed | KPing task_input

record 'e ka_task =
  ka_pc :: "'e ka_pc"
  missed :: u32

definition ka_start :: "'e ka_task" where
  "ka_start = \<lparr>ka_pc = KaTop, missed = 0\<rparr>"

definition take_changed :: "'e client \<Rightarrow> 'e client option" where
  "take_changed c =
     (case notify_poll (changed (keepalive c)) of
        (Some _, s) \<Rightarrow> Some (c\<lparr>keepalive := (keepalive c)\<lparr>changed := s\<rparr>\<rparr>)
      | (None, _) \<Rightarrow> None)"

definition ka_reconfigured :: "'e client \<Rightarrow> 'e ka_task \<Rightarrow> ('e client \<times> 'e ka_task) option" where
  "ka_reconfigured c k =
     (case take_changed c of
        Some c' \<Rightarrow> Some (c', k\<lparr>ka_pc := KaTop, missed := 0\<rparr>)
      | None \<Rightarrow> None)"

text \<open>What one finished ping does to the miss counter, and whether it escalates.\<close>

fun count_miss :: "u32 \<Rightarrow> u32 \<Rightarrow> (unit, 'e cerror) result \<Rightarrow> u32 \<times> bool" where
  "count_miss allowed m (Ok _) = (0, False)"
| "count_miss allowed m (Err _) =
     (let m' = saturating_add m 1 in if allowed \<le> m' then (0, True) else (m', False))"

definition ka_finish :: "(unit, 'e cerror) result \<Rightarrow> 'e client \<Rightarrow> 'e ka_task \<Rightarrow> 'e client \<times> 'e ka_task" where
  "ka_finish r c k =
     (case count_miss (misses_allowed (policy (keepalive c))) (missed k) r of
        (m, escalate) \<Rightarrow>
          (if escalate then client_force_reconnect c else c, k\<lparr>ka_pc := KaTop, missed := m\<rparr>))"

definition ka_at_top :: "'e client \<Rightarrow> 'e ka_pc" where
  "ka_at_top c =
     (if closed c then KaStopped
      else case read_interval (keepalive c) of None \<Rightarrow> KaParked | Some i \<Rightarrow> KaSleeping i)"

definition ka_at_awake :: "'e client \<Rightarrow> 'e ka_pc" where
  "ka_at_awake c =
     (if closed c then KaStopped
      else if read_interval (keepalive c) = None then KaTop
      else KaPinging (ping_start c))"

definition ka_at_ping :: "ka_input \<Rightarrow> 'e client \<Rightarrow> 'e ka_task \<Rightarrow> 'e ping_pc \<Rightarrow> ('e client \<times> 'e ka_task) option" where
  "ka_at_ping inp c k pc =
     (case pc of
        PingReturned r \<Rightarrow> if inp = KGo then Some (ka_finish r c k) else None
      | _ \<Rightarrow>
        (case inp of
           KPing ti \<Rightarrow>
             (case ping_step ti c pc of
                Some (c', pc') \<Rightarrow> Some (c', k\<lparr>ka_pc := KaPinging pc'\<rparr>)
              | None \<Rightarrow> None)
         | _ \<Rightarrow> None))"

definition ka_step :: "ka_input \<Rightarrow> 'e client \<Rightarrow> 'e ka_task \<Rightarrow> ('e client \<times> 'e ka_task) option" where
  "ka_step inp c k =
     (case ka_pc k of
        KaTop \<Rightarrow> if inp = KGo then Some (c, k\<lparr>ka_pc := ka_at_top c\<rparr>) else None
      | KaParked \<Rightarrow> if inp = KWoken then ka_reconfigured c k else None
      | KaSleeping _ \<Rightarrow>
          (case inp of
             KWoken \<Rightarrow> ka_reconfigured c k
           | KElapsed \<Rightarrow> if changed (keepalive c) = None then Some (c, k\<lparr>ka_pc := KaAwake\<rparr>) else None
           | _ \<Rightarrow> None)
      | KaAwake \<Rightarrow> if inp = KGo then Some (c, k\<lparr>ka_pc := ka_at_awake c\<rparr>) else None
      | KaPinging pc \<Rightarrow> ka_at_ping inp c k pc
      | KaStopped \<Rightarrow> None)"

lemma take_changed_cases:
  "take_changed c =
     (case changed (keepalive c) of
        Some _ \<Rightarrow> Some (c\<lparr>keepalive := (keepalive c)\<lparr>changed := None\<rparr>\<rparr>)
      | None \<Rightarrow> None)"
  by (simp add: take_changed_def notify_poll_def signal_poll_def split: option.split)

lemma ka_step_pinging: "ka_pc k = KaPinging pc \<Longrightarrow> ka_step inp c k = ka_at_ping inp c k pc"
  by (simp add: ka_step_def)

subsection \<open>Counting misses\<close>

fun miss_run :: "u32 \<Rightarrow> u32 \<Rightarrow> (unit, 'e cerror) result list \<Rightarrow> u32 \<times> bool list" where
  "miss_run allowed m [] = (m, [])"
| "miss_run allowed m (r # rs) =
     (let (m', e) = count_miss allowed m r; (m'', es) = miss_run allowed m' rs in (m'', e # es))"

lemma count_miss_below:
  assumes "Suc (unat m) < unat allowed"
  shows "count_miss allowed m (Err e) = (m + 1, False) \<and> unat (m + 1) = Suc (unat m)"
proof -
  have "unat m + 1 < 2 ^ 32"
    using assms unsigned_less [of allowed, where ?'a = nat] by simp
  then have u: "unat (m + 1) = Suc (unat m)" "saturating_add m 1 = m + 1"
    by (simp_all add: saturating_add_def unat_word_ariths)
  then have "\<not> allowed \<le> m + 1" using assms by (simp add: word_le_nat_alt)
  with u show ?thesis by simp
qed

lemma count_miss_last:
  assumes "Suc (unat m) = unat allowed"
  shows "count_miss allowed m (Err e) = (0, True)"
proof -
  have "unat (saturating_add m 1) = unat allowed"
    using assms unsigned_less [of allowed, where ?'a = nat] by (simp add: unat_saturating_Suc)
  then show ?thesis by (simp add: word_le_nat_alt Let_def)
qed

lemma miss_run_errors:
  assumes "unat m + length rs < unat allowed" and "\<forall>r \<in> set rs. \<exists>e. r = Err e"
  shows "\<exists>m'. miss_run allowed m rs = (m', replicate (length rs) False) \<and> unat m' = unat m + length rs"
  using assms
proof (induction rs arbitrary: m)
  case Nil
  then show ?case by simp
next
  case (Cons r rs)
  then obtain e where r: "r = Err e" by auto
  have "count_miss allowed m r = (m + 1, False)" "unat (m + 1) = Suc (unat m)"
    using Cons.prems(1) count_miss_below [of m allowed e] r by auto
  moreover obtain m' where "miss_run allowed (m + 1) rs = (m', replicate (length rs) False)"
    "unat m' = unat (m + 1) + length rs"
    using Cons.IH [of "m + 1"] Cons.prems calculation by auto
  ultimately show ?case by simp
qed

lemma miss_run_append:
  "miss_run allowed m (rs @ [r]) =
     (let (m', es) = miss_run allowed m rs; (m'', e) = count_miss allowed m' r in (m'', es @ [e]))"
  by (induction rs arbitrary: m) (auto simp: split_beta Let_def)

subsection \<open>Stopping\<close>

definition ka_wake_inv :: "'e client \<Rightarrow> 'e ka_task \<Rightarrow> bool" where
  "ka_wake_inv c k \<longleftrightarrow>
     (closed c \<longrightarrow> changed (keepalive c) = Some () \<or> ka_pc k \<notin> {KaParked} \<union> range KaSleeping)"

fun ka_measure :: "'e ka_pc \<Rightarrow> nat" where
  "ka_measure KaStopped = 0"
| "ka_measure KaTop = 1"
| "ka_measure KaParked = 2"
| "ka_measure (KaSleeping _) = 2"
| "ka_measure KaAwake = 2"
| "ka_measure (KaPinging pc) = 2 + ping_measure pc"

lemma ping_step_keepalive:
  "ping_step inp c pc = Some (c', pc') \<Longrightarrow> closed c' = closed c \<and> keepalive c' = keepalive c"
  by (erule ping_step_SomeE)
    (auto simp: ping_wait_cases register_ping_def sink_write_def forget_ping_def Let_def
      split: option.splits if_splits)

lemma ka_step_closed: "ka_step inp c k = Some (c', k') \<Longrightarrow> closed c' = closed c"
  by (auto simp: ka_step_def ka_at_ping_def ka_reconfigured_def take_changed_cases ka_finish_def client_force_reconnect_def
      dest: ping_step_keepalive split: ka_pc.splits ka_input.splits ping_pc.splits option.splits if_splits prod.splits)

lemma ka_step_wake_inv:
  assumes "ka_step inp c k = Some (c', k')" and "ka_wake_inv c k"
  shows "ka_wake_inv c' k'"
  using assms
  by (auto simp: ka_step_def ka_at_ping_def ka_reconfigured_def take_changed_cases ka_finish_def client_force_reconnect_def
      ka_wake_inv_def ka_at_top_def ka_at_awake_def
      dest: ping_step_keepalive split: ka_pc.splits ka_input.splits ping_pc.splits option.splits if_splits prod.splits)

lemma ka_step_measure:
  assumes "ka_step inp c k = Some (c', k')" and "closed c" and "ka_wake_inv c k"
  shows "ka_measure (ka_pc k') < ka_measure (ka_pc k)"
proof (cases "\<exists>pc. ka_pc k = KaPinging pc")
  case True
  then obtain pc where pc: "ka_pc k = KaPinging pc" ..
  with assms(1) show ?thesis
    by (auto simp: ka_step_pinging [OF pc] ka_at_ping_def ka_finish_def
        dest!: ping_step_decreases split: ping_pc.splits ka_input.splits option.splits if_splits prod.splits)
next
  case False
  with assms show ?thesis
    by (auto simp: ka_step_def ka_reconfigured_def take_changed_cases ka_wake_inv_def ka_at_top_def
        ka_at_awake_def split: ka_pc.splits ka_input.splits option.splits if_splits)
qed

lemma ka_step_enabled:
  assumes "closed c" and "ka_wake_inv c k" and "ka_pc k \<noteq> KaStopped"
  shows "\<exists>inp c' k'. ka_step inp c k = Some (c', k')"
proof (cases "\<exists>pc. ka_pc k = KaPinging pc")
  case True
  then obtain pc where pc: "ka_pc k = KaPinging pc" ..
  show ?thesis
  proof (cases "\<exists>r. pc = PingReturned r")
    case True
    with pc show ?thesis by (intro exI [of _ KGo]) (auto simp: ka_step_pinging ka_at_ping_def)
  next
    case False
    then have "ping_measure pc \<noteq> 0" by (cases pc) auto
    then obtain c' pc' where "ping_step (ping_next_input (Ok ()) pc) c pc = Some (c', pc')"
      using ping_step_enabled by blast
    with pc False show ?thesis
      by (intro exI [of _ "KPing (ping_next_input (Ok ()) pc)"]) (auto simp: ka_step_pinging ka_at_ping_def split: ping_pc.split)
  qed
next
  case False
  have "ka_pc k = KaTop \<or> ka_pc k = KaAwake \<or> (ka_pc k \<in> {KaParked} \<union> range KaSleeping)"
    using False assms(3) by (cases "ka_pc k") auto
  then show ?thesis
    using assms(1,2)
    by (auto simp: ka_step_def ka_wake_inv_def ka_reconfigured_def take_changed_cases
        intro: exI [of _ KGo] exI [of _ KWoken])
qed

subsection \<open>Properties\<close>

text \<open>
  A dead peer is detected after exactly the tolerated number of consecutive misses: starting from a
  clear counter, that many failed pings in a row escalate on the last one and on none before it, the
  counter is clear again afterwards, and one answered ping in between restarts the count.
\<close>

lemma dead_peer_escalation:
  assumes "length rs = unat (misses_allowed p)" and "\<forall>r \<in> set rs. \<exists>e :: 'e cerror. r = Err e"
  shows "miss_run (misses_allowed p) 0 rs = (0, replicate (length rs - 1) False @ [True])
    \<and> (\<forall>m r rest. miss_run (misses_allowed p) m (Ok r # rest) =
        (let (m', es) = miss_run (misses_allowed p) 0 rest in (m', False # es)))"
proof
  have "rs \<noteq> []" using assms(1) misses_allowed_pos [of p] by auto
  then obtain rs' r where rs: "rs = rs' @ [r]" by (metis rev_exhaust)
  have "unat (0 :: u32) + length rs' < unat (misses_allowed p)" using assms(1) rs by simp
  then obtain m' where m': "miss_run (misses_allowed p) 0 rs' = (m', replicate (length rs') False)"
    "unat m' = length rs'"
    using miss_run_errors [of 0 rs' "misses_allowed p"] assms(2) rs by auto
  obtain e where "r = Err e" using assms(2) rs by auto
  moreover have "Suc (unat m') = unat (misses_allowed p)" using m'(2) assms(1) rs by simp
  ultimately show "miss_run (misses_allowed p) 0 rs = (0, replicate (length rs - 1) False @ [True])"
    using count_miss_last [of m' "misses_allowed p" e] m'(1) rs by (simp add: miss_run_append Let_def)
qed (simp add: Let_def)

lemma dead_peer_escalation_witness:
  "miss_run (misses_allowed default_keepalive_policy) 0
     [Err Timeout, Err Timeout :: (unit, OCPP1_6Error cerror) result] = (0, [False, True])"
proof -
  have "length [Err Timeout, Err Timeout :: (unit, OCPP1_6Error cerror) result]
      = unat (misses_allowed default_keepalive_policy)"
    by (simp add: misses_allowed_def default_keepalive_policy_def)
  from dead_peer_escalation [OF this] show ?thesis by simp
qed

text \<open>
  Rewriting the ping interval takes effect at once: a task sleeping out an old interval, or parked
  with keepalive off, can no longer elapse it; its next step drops the miss count and re-reads the new
  interval, sleeping that one or parking when it is disabled.
\<close>

lemma reconfigure_takes_effect:
  assumes "ka_pc k = KaSleeping old \<or> ka_pc k = KaParked" and "\<not> closed c"
  shows "ka_step KElapsed (client_set_ping_interval i c) k = None
    \<and> (\<exists>c' k'. ka_step KWoken (client_set_ping_interval i c) k = Some (c', k') \<and> missed k' = 0
        \<and> ka_step KGo c' k' = Some (c', k'\<lparr>ka_pc :=
            (case client_ping_interval (client_set_ping_interval i c) of
               None \<Rightarrow> KaParked | Some d \<Rightarrow> KaSleeping d)\<rparr>))"
proof -
  let ?c = "client_set_ping_interval i c"
  let ?c' = "?c\<lparr>keepalive := (keepalive ?c)\<lparr>changed := None\<rparr>\<rparr>"
  let ?k' = "k\<lparr>ka_pc := KaTop, missed := 0\<rparr>"
  have latched: "changed (keepalive ?c) = Some ()"
    by (simp add: client_set_ping_interval_def set_ping_interval_def set_interval_def)
  have "ka_step KElapsed ?c k = None" using assms(1) latched by (auto simp: ka_step_def)
  moreover have "ka_step KWoken ?c k = Some (?c', ?k')"
    using assms(1) latched by (auto simp: ka_step_def ka_reconfigured_def take_changed_cases)
  moreover have "ka_at_top ?c' = (case client_ping_interval ?c of None \<Rightarrow> KaParked | Some d \<Rightarrow> KaSleeping d)"
    using assms(2) by (simp add: ka_at_top_def client_ping_interval_def ping_interval_def read_interval_def
        client_set_ping_interval_def)
  ultimately show ?thesis by (simp add: ka_step_def)
qed

lemma reconfigure_takes_effect_example:
  "let c = new_client (client_config_new 0) :: OCPP1_6Error client;
       k = \<lparr>ka_pc = KaSleeping (from_secs 3600), missed = 1\<rparr>
   in ka_step KElapsed (client_set_ping_interval (Some (from_secs 5)) c) k = None
      \<and> (\<exists>c' k'. ka_step KWoken (client_set_ping_interval (Some (from_secs 5)) c) k = Some (c', k')
           \<and> missed k' = 0 \<and> (\<exists>k''. ka_step KGo c' k' = Some (c', k'') \<and> ka_pc k'' = KaSleeping (from_secs 5)))"
proof -
  let ?c = "new_client (client_config_new 0) :: OCPP1_6Error client"
  let ?k = "\<lparr>ka_pc = KaSleeping (from_secs 3600), missed = 1\<rparr> :: OCPP1_6Error ka_task"
  have pc: "ka_pc ?k = KaSleeping (from_secs 3600) \<or> ka_pc ?k = KaParked" by simp
  have live: "\<not> closed ?c" by (simp add: new_client_def)
  have "client_ping_interval (client_set_ping_interval (Some (from_secs 5)) ?c) = Some (from_secs 5)"
    by (simp add: client_ping_interval_def client_set_ping_interval_def ping_interval_def
        set_ping_interval_def set_interval_def from_secs_def read_interval_def store_millis_zero
        unat_store_millis as_millis_def from_millis_def)
  with reconfigure_takes_effect [OF pc live, of "Some (from_secs 5)"] show ?thesis
    by (auto simp: Let_def)
qed

text \<open>
  The task only ever starts a ping on an open client with keepalive switched on, after a full
  interval without reconfiguration.
\<close>

lemma pings_only_when_enabled:
  assumes "ka_step inp c k = Some (c', k')" and "ka_pc k' = KaPinging pc"
    and "\<forall>pc. ka_pc k \<noteq> KaPinging pc"
  shows "ka_pc k = KaAwake \<and> \<not> closed c \<and> client_ping_interval c \<noteq> None \<and> pc = PingPrepared \<and> c' = c"
  using assms
  by (auto simp: ka_step_def ka_reconfigured_def ka_at_top_def ka_at_awake_def ping_start_def
      client_ping_interval_def ping_interval_def
      split: ka_pc.splits ka_input.splits option.splits if_splits)

lemma pings_only_when_enabled_example:
  "let c = new_client (with_keepalive (KeepaliveEnabled default_keepalive_policy) (client_config_new 0))
       :: OCPP1_6Error client;
       k = \<lparr>ka_pc = KaAwake, missed = 0\<rparr>
   in ka_step KGo c k = Some (c, k\<lparr>ka_pc := KaPinging PingPrepared\<rparr>) \<and> client_ping_interval c \<noteq> None"
proof -
  let ?c = "new_client (with_keepalive (KeepaliveEnabled default_keepalive_policy) (client_config_new 0))
      :: OCPP1_6Error client"
  let ?k = "\<lparr>ka_pc = KaAwake, missed = 0\<rparr> :: OCPP1_6Error ka_task"
  have step: "ka_step KGo ?c ?k = Some (?c, ?k\<lparr>ka_pc := KaPinging PingPrepared\<rparr>)"
    by (simp add: ka_step_def ka_at_awake_def new_client_def with_keepalive_def new_keepalive_state_def
        default_keepalive_policy_def from_secs_def read_interval_def store_millis_zero as_millis_def
        ping_start_def)
  with pings_only_when_enabled [OF step, of PingPrepared] show ?thesis by (simp add: Let_def)
qed

end
