(* ===== verification/Subscribers.thy ===== *)
theory Subscribers
  imports Client_State
begin

text \<open>
  The tasks behind \<open>on_ping\<close> and \<open>on_reconnect\<close> (\<^verbatim>\<open>src/client.rs\<close>): each subscribes to its registry once
  and then loops, waiting for its own signal and running the callback. The task is suspended at the
  signal or in the callback; it never ends.
\<close>

datatype registry_kind = PingRegistry | ReconnectRegistry

datatype subscriber_pc = SWaiting | SCalling

fun registry_of :: "registry_kind \<Rightarrow> 'e client \<Rightarrow> broadcast_registry" where
  "registry_of PingRegistry c = ping_registry c"
| "registry_of ReconnectRegistry c = reconnect_registry c"

fun with_registry :: "registry_kind \<Rightarrow> broadcast_registry \<Rightarrow> 'e client \<Rightarrow> 'e client" where
  "with_registry PingRegistry r c = c\<lparr>ping_registry := r\<rparr>"
| "with_registry ReconnectRegistry r c = c\<lparr>reconnect_registry := r\<rparr>"

fun client_subscribe :: "registry_kind \<Rightarrow> 'e client \<Rightarrow> nat \<times> 'e client" where
  "client_subscribe PingRegistry c = client_subscribe_ping c"
| "client_subscribe ReconnectRegistry c = client_subscribe_reconnect c"

fun subscriber_step ::
  "registry_kind \<Rightarrow> nat \<Rightarrow> 'e client \<Rightarrow> subscriber_pc \<Rightarrow> ('e client \<times> subscriber_pc) option" where
  "subscriber_step kind slot c SWaiting =
     (case subscriber_poll slot (registry_of kind c) of
        (Some _, r) \<Rightarrow> Some (with_registry kind r c, SCalling)
      | (None, _) \<Rightarrow> None)"
| "subscriber_step kind slot c SCalling = Some (c, SWaiting)"

lemma registry_of_with [simp]:
  "registry_of kind (with_registry kind r c) = r"
  "kind \<noteq> kind' \<Longrightarrow> registry_of kind (with_registry kind' r c) = registry_of kind c"
  by (cases kind; cases kind'; simp)+

lemma client_subscribe_cases:
  "client_subscribe kind c =
     (length (registry_of kind c), with_registry kind (registry_of kind c @ [None]) c)"
  by (cases kind) (simp_all add: client_subscribe_ping_def client_subscribe_reconnect_def subscribe_def signal_new_def)

lemma subscriber_poll_cases:
  "subscriber_poll i r = (if i < length r then (r ! i, r[i := None]) else (None, r))"
  by (simp add: subscriber_poll_def signal_poll_def)

lemma subscriber_step_waiting:
  "subscriber_step kind slot c SWaiting = Some (c', pc') \<longleftrightarrow>
     slot < length (registry_of kind c) \<and> registry_of kind c ! slot = Some () \<and> pc' = SCalling
     \<and> c' = with_registry kind ((registry_of kind c)[slot := None]) c"
  by (auto simp: subscriber_poll_cases split: option.splits)

end
