(* ===== verification/Engine.thy ===== *)
theory Engine
  imports Read_Loop Keepalive_Loop Subscribers
begin

text \<open>
  The running client: the shared state together with every task that works on it (the read loop, the
  keepalive task, any number of calls, pings, notifications, handlers and subscribers, and shutdowns in
  progress), as a step relation that interleaves them at their awaits. The future of a call, a ping, a
  notification or a shutdown can be dropped at any of its awaits, after which it makes no further step. The starting state is what \<open>from_transport_with_config\<close> builds.

  History, which no step reads: \<open>inbox\<close> records the events received so far, and each call and ping how
  many there were when it started (\<open>ct_since\<close>, \<open>pt_since\<close>) and which token it registered; \<open>delivered\<close> and
  \<open>notified\<close> record what the read loop put on the handlers' channels; a handler records the CALL it has
  in hand and every CALL it has answered with its answer, a notification handler what it took from
  its channel, a subscriber how many broadcasts there had been when its callback last started and how
  often that was.
\<close>

record 'e call_task =
  ct_id :: uuid
  ct_action :: string
  ct_since :: nat
  ct_pc :: "'e call_pc"
  ct_dropped :: bool

record 'e ping_task =
  pt_since :: nat
  pt_token :: "u64 option"
  pt_pc :: "'e ping_pc"
  pt_dropped :: bool

record 'e handler_task =
  ht_action :: string
  ht_chan :: nat
  ht_pc :: "'e handler_pc"
  ht_hand :: "(string \<times> json) list"
  ht_log :: "((string \<times> json) \<times> 'e handler_outcome) list"

record 'e send_task =
  sn_pc :: "'e send_pc"
  sn_dropped :: bool

record notifier_task =
  nt_action :: string
  nt_chan :: nat
  nt_pc :: notification_pc
  nt_taken :: "json list"

record subscriber_task =
  st_registry :: registry_kind
  st_slot :: nat
  st_pc :: subscriber_pc
  st_mark :: nat
  st_fired :: nat

record 'e engine =
  cl :: "'e client"
  rl :: read_loop
  ka :: "'e ka_task"
  calls :: "'e call_task list"
  pings :: "'e ping_task list"
  handlers :: "'e handler_task list"
  notifiers :: "notifier_task list"
  sends :: "'e send_task list"
  closing :: nat
  inbox :: "transport_event list"
  delivered :: "(nat \<times> (string \<times> json)) list"
  notified :: "(nat \<times> json) list"
  subscribers :: "subscriber_task list"

definition from_transport_with_config :: "client_config \<Rightarrow> 'e engine" where
  "from_transport_with_config cfg =
     \<lparr>cl = new_client cfg, rl = read_loop_start, ka = ka_start, calls = [], pings = [],
      handlers = [], notifiers = [], sends = [], closing = 0, inbox = [], delivered = [], notified = [], subscribers = []\<rparr>"

definition from_transport :: "duration \<Rightarrow> 'e engine" where
  "from_transport limit = from_transport_with_config (client_config_new limit)"

definition from_transport_with_reconnect :: "duration \<Rightarrow> bool \<Rightarrow> reconnect_policy \<Rightarrow> 'e engine" where
  "from_transport_with_reconnect limit reconnector pol =
     from_transport_with_config
       ((client_config_new limit)\<lparr>cfg_reconnector := reconnector, cfg_reconnect_policy := pol\<rparr>)"

fun received :: "read_input \<Rightarrow> transport_event list" where
  "received (RecvEvent event) = [event]"
| "received _ = []"

text \<open>What a step of the read loop puts on a channel.\<close>

fun handed_over :: "read_pc \<Rightarrow> read_input \<Rightarrow> (nat \<times> (string \<times> json)) list" where
  "handed_over (Dispatching (ToHandler chan m)) (RSink _) = [(chan, m)]"
| "handed_over _ _ = []"

fun sent_over :: "read_pc \<Rightarrow> read_input \<Rightarrow> (nat \<times> json) list" where
  "sent_over (Dispatching (ToNotification chan v)) (RSink _) = [(chan, v)]"
| "sent_over _ _ = []"

definition read_moves :: "read_input \<Rightarrow> 'e client \<Rightarrow> read_loop \<Rightarrow> 'e engine \<Rightarrow> 'e engine" where
  "read_moves inp c' l' s =
     s\<lparr>cl := c', rl := l', inbox := inbox s @ received inp,
       delivered := delivered s @ handed_over (rl_pc (rl s)) inp,
       notified := notified s @ sent_over (rl_pc (rl s)) inp\<rparr>"

definition handler_moved :: "(string \<times> json) list \<Rightarrow> 'e handler_pc \<Rightarrow> 'e handler_task \<Rightarrow> 'e handler_task" where
  "handler_moved queued pc h =
     (case ht_pc h of
        HChecking \<Rightarrow> h\<lparr>ht_pc := pc, ht_hand := ht_hand h @ take 1 queued\<rparr>
      | HReplying _ response \<Rightarrow>
          h\<lparr>ht_pc := pc, ht_hand := [], ht_log := ht_log h @ map (\<lambda>m. (m, response)) (ht_hand h)\<rparr>
      | _ \<Rightarrow> h\<lparr>ht_pc := pc\<rparr>)"

definition notifier_moved :: "json list \<Rightarrow> notification_pc \<Rightarrow> notifier_task \<Rightarrow> notifier_task" where
  "notifier_moved queued pc n =
     n\<lparr>nt_pc := pc, nt_taken := nt_taken n @ (if nt_pc n = NChecking then take 1 queued else [])\<rparr>"

text \<open>The broadcasts a registry has seen: inbound pings, and connections announced after the first.\<close>

fun is_ping :: "transport_event \<Rightarrow> bool" where
  "is_ping (Ping _) = True"
| "is_ping _ = False"

fun broadcasts :: "registry_kind \<Rightarrow> 'e engine \<Rightarrow> nat" where
  "broadcasts PingRegistry s = length (filter is_ping (inbox s))"
| "broadcasts ReconnectRegistry s = next_conn (rl s) - (if rl_pc (rl s) = Announcing then 2 else 1)"

definition subscriber_moved :: "nat \<Rightarrow> subscriber_pc \<Rightarrow> subscriber_task \<Rightarrow> subscriber_task" where
  "subscriber_moved now pc b =
     (if st_pc b = SWaiting then b\<lparr>st_pc := pc, st_mark := now, st_fired := Suc (st_fired b)\<rparr>
      else b\<lparr>st_pc := pc\<rparr>)"

fun token_of :: "'e ping_pc \<Rightarrow> u64 option" where
  "token_of (PingRegistered token _) = Some token"
| "token_of (PingSendFailed token _ _) = Some token"
| "token_of (PingWaiting token _) = Some token"
| "token_of (PingTimedOut token _) = Some token"
| "token_of _ = None"

definition ping_moves :: "'e ping_pc \<Rightarrow> 'e ping_task \<Rightarrow> 'e ping_task" where
  "ping_moves pc p =
     p\<lparr>pt_pc := pc, pt_token := (case token_of pc of Some t \<Rightarrow> Some t | None \<Rightarrow> pt_token p)\<rparr>"

inductive engine_step ::
  "client_config \<Rightarrow> 'e protocol_error \<Rightarrow> codec \<Rightarrow> payload_types \<Rightarrow> 'e engine \<Rightarrow> 'e engine \<Rightarrow> bool"
  for cfg P C T where
  read_loop: "read_task cfg P C inp (cl s) (rl s) = Some (c', l') \<Longrightarrow>
    engine_step cfg P C T s (read_moves inp c' l' s)"
| keepalive_task: "ka_step inp (cl s) (ka s) = Some (c', k') \<Longrightarrow>
    engine_step cfg P C T s (s\<lparr>cl := c', ka := k'\<rparr>)"
| call: "engine_step cfg P C T s (s\<lparr>calls := calls s @
    [\<lparr>ct_id = message_id, ct_action = action, ct_since = length (inbox s),
      ct_pc = call_start C message_id action request_value (cl s), ct_dropped = False\<rparr>]\<rparr>)"
| call_moves: "i < length (calls s) \<Longrightarrow> \<not> ct_dropped (calls s ! i) \<Longrightarrow>
    call_step T inp (cl s) (ct_pc (calls s ! i)) = Some (c', pc') \<Longrightarrow>
    engine_step cfg P C T s (s\<lparr>cl := c', calls := (calls s)[i := (calls s ! i)\<lparr>ct_pc := pc'\<rparr>]\<rparr>)"
| send_ping: "engine_step cfg P C T s (s\<lparr>pings := pings s @
    [\<lparr>pt_since = length (inbox s), pt_token = None, pt_pc = ping_start (cl s), pt_dropped = False\<rparr>]\<rparr>)"
| ping_moves: "i < length (pings s) \<Longrightarrow> \<not> pt_dropped (pings s ! i) \<Longrightarrow>
    ping_step inp (cl s) (pt_pc (pings s ! i)) = Some (c', pc') \<Longrightarrow>
    engine_step cfg P C T s (s\<lparr>cl := c', pings := (pings s)[i := ping_moves pc' (pings s ! i)]\<rparr>)"
| drop_call: "i < length (calls s) \<Longrightarrow>
    engine_step cfg P C T s (s\<lparr>calls := (calls s)[i := (calls s ! i)\<lparr>ct_dropped := True\<rparr>]\<rparr>)"
| drop_ping: "i < length (pings s) \<Longrightarrow>
    engine_step cfg P C T s (s\<lparr>pings := (pings s)[i := (pings s ! i)\<lparr>pt_dropped := True\<rparr>]\<rparr>)"
| on: "client_on action (cl s) = (chan, c') \<Longrightarrow>
    engine_step cfg P C T s (s\<lparr>cl := c', handlers := handlers s @
      [\<lparr>ht_action = action, ht_chan = chan, ht_pc = HChecking, ht_hand = [], ht_log = []\<rparr>]\<rparr>)"
| handler_moves: "i < length (handlers s) \<Longrightarrow>
    handler_step P C T (ht_action (handlers s ! i)) (ht_chan (handlers s ! i)) inp (cl s)
      (ht_pc (handlers s ! i)) = Some (c', pc') \<Longrightarrow>
    engine_step cfg P C T s (s\<lparr>cl := c', handlers := (handlers s)[i :=
      handler_moved (queue (call_chans (cl s) (ht_chan (handlers s ! i)))) pc' (handlers s ! i)]\<rparr>)"
| on_notification: "client_on_notification action (cl s) = (chan, c') \<Longrightarrow>
    engine_step cfg P C T s (s\<lparr>cl := c', notifiers := notifiers s @
      [\<lparr>nt_action = action, nt_chan = chan, nt_pc = NChecking, nt_taken = []\<rparr>]\<rparr>)"
| notifier_moves: "i < length (notifiers s) \<Longrightarrow>
    notification_step T (nt_action (notifiers s ! i)) (nt_chan (notifiers s ! i)) (cl s)
      (nt_pc (notifiers s ! i)) = Some (c', pc') \<Longrightarrow>
    engine_step cfg P C T s (s\<lparr>cl := c', notifiers := (notifiers s)[i :=
      notifier_moved (queue (send_chans (cl s) (nt_chan (notifiers s ! i)))) pc' (notifiers s ! i)]\<rparr>)"
| notify: "engine_step cfg P C T s (s\<lparr>sends := sends s @
    [\<lparr>sn_pc = send_start C message_id action payload_value (cl s), sn_dropped = False\<rparr>]\<rparr>)"
| notify_moves: "i < length (sends s) \<Longrightarrow> \<not> sn_dropped (sends s ! i) \<Longrightarrow>
    send_step inp (cl s) (sn_pc (sends s ! i)) = Some (c', pc') \<Longrightarrow>
    engine_step cfg P C T s (s\<lparr>cl := c', sends := (sends s)[i := (sends s ! i)\<lparr>sn_pc := pc'\<rparr>]\<rparr>)"
| drop_notify: "i < length (sends s) \<Longrightarrow>
    engine_step cfg P C T s (s\<lparr>sends := (sends s)[i := (sends s ! i)\<lparr>sn_dropped := True\<rparr>]\<rparr>)"
| set_interval: "engine_step cfg P C T s (s\<lparr>cl := client_set_ping_interval i (cl s)\<rparr>)"
| force: "engine_step cfg P C T s (s\<lparr>cl := client_force_reconnect (cl s)\<rparr>)"
| subscribe: "client_subscribe kind (cl s) = (slot, c') \<Longrightarrow>
    engine_step cfg P C T s (s\<lparr>cl := c', subscribers := subscribers s @
      [\<lparr>st_registry = kind, st_slot = slot, st_pc = SWaiting, st_mark = broadcasts kind s, st_fired = 0\<rparr>]\<rparr>)"
| subscriber_moves: "i < length (subscribers s) \<Longrightarrow>
    subscriber_step (st_registry (subscribers s ! i)) (st_slot (subscribers s ! i)) (cl s)
      (st_pc (subscribers s ! i)) = Some (c', pc') \<Longrightarrow>
    engine_step cfg P C T s (s\<lparr>cl := c', subscribers := (subscribers s)[i :=
      subscriber_moved (broadcasts (st_registry (subscribers s ! i)) s) pc' (subscribers s ! i)]\<rparr>)"
| disconnect: "disconnect_begin (cl s) = Some c' \<Longrightarrow>
    engine_step cfg P C T s (s\<lparr>cl := c', closing := Suc (closing s)\<rparr>)"
| disconnect_closes: "closing s = Suc n \<Longrightarrow> disconnect_close r (cl s) = (result, c') \<Longrightarrow>
    engine_step cfg P C T s (s\<lparr>cl := c', closing := n\<rparr>)"
| drop_disconnect: "closing s = Suc n \<Longrightarrow> engine_step cfg P C T s (s\<lparr>closing := n\<rparr>)"

inductive engine_runs ::
  "client_config \<Rightarrow> 'e protocol_error \<Rightarrow> codec \<Rightarrow> payload_types \<Rightarrow> 'e engine \<Rightarrow> 'e engine \<Rightarrow> bool"
  for cfg P C T s where
  stay: "engine_runs cfg P C T s s"
| go: "engine_runs cfg P C T s t \<Longrightarrow> engine_step cfg P C T t u \<Longrightarrow> engine_runs cfg P C T s u"

abbreviation engine_reach :: "client_config \<Rightarrow> 'e protocol_error \<Rightarrow> codec \<Rightarrow> payload_types \<Rightarrow> 'e engine \<Rightarrow> bool" where
  "engine_reach cfg P C T s \<equiv> engine_runs cfg P C T (from_transport_with_config cfg) s"

lemma engine_runs_trans:
  assumes "engine_runs cfg P C T s t" and "engine_runs cfg P C T t u"
  shows "engine_runs cfg P C T s u"
  using assms(2,1) by (induction rule: engine_runs.induct) (auto intro: engine_runs.intros)

subsection \<open>Executing a schedule\<close>

text \<open>
  The step relation as a function of a scheduling decision, to run the client on concrete schedules.
\<close>

datatype 'e decision =
    DRead read_input
  | DKeepalive ka_input
  | DCall uuid string "(json, string) result"
  | DCallMoves nat task_input
  | DSendPing
  | DPingMoves nat task_input
  | DDropCall nat
  | DDropPing nat
  | DOn string
  | DHandlerMoves nat "'e handler_input"
  | DOnNotification string
  | DNotifierMoves nat
  | DNotify uuid string "(json, string) result"
  | DNotifyMoves nat task_input
  | DDropNotify nat
  | DSubscribe registry_kind
  | DSubscriberMoves nat
  | DSetInterval "duration option"
  | DForce
  | DDisconnect
  | DDisconnectCloses sink_outcome
  | DDropDisconnect

fun perform ::
  "client_config \<Rightarrow> 'e protocol_error \<Rightarrow> codec \<Rightarrow> payload_types \<Rightarrow> 'e decision \<Rightarrow> 'e engine \<Rightarrow> 'e engine option" where
  "perform cfg P C T (DRead inp) s =
     (case read_task cfg P C inp (cl s) (rl s) of
        Some (c', l') \<Rightarrow> Some (read_moves inp c' l' s) | None \<Rightarrow> None)"
| "perform cfg P C T (DKeepalive inp) s =
     (case ka_step inp (cl s) (ka s) of Some (c', k') \<Rightarrow> Some (s\<lparr>cl := c', ka := k'\<rparr>) | None \<Rightarrow> None)"
| "perform cfg P C T (DCall message_id action request_value) s =
     Some (s\<lparr>calls := calls s @
       [\<lparr>ct_id = message_id, ct_action = action, ct_since = length (inbox s),
         ct_pc = call_start C message_id action request_value (cl s), ct_dropped = False\<rparr>]\<rparr>)"
| "perform cfg P C T (DCallMoves i inp) s =
     (if i < length (calls s) \<and> \<not> ct_dropped (calls s ! i) then
        (case call_step T inp (cl s) (ct_pc (calls s ! i)) of
           Some (c', pc') \<Rightarrow> Some (s\<lparr>cl := c', calls := (calls s)[i := (calls s ! i)\<lparr>ct_pc := pc'\<rparr>]\<rparr>)
         | None \<Rightarrow> None)
      else None)"
| "perform cfg P C T DSendPing s =
     Some (s\<lparr>pings := pings s @
       [\<lparr>pt_since = length (inbox s), pt_token = None, pt_pc = ping_start (cl s), pt_dropped = False\<rparr>]\<rparr>)"
| "perform cfg P C T (DPingMoves i inp) s =
     (if i < length (pings s) \<and> \<not> pt_dropped (pings s ! i) then
        (case ping_step inp (cl s) (pt_pc (pings s ! i)) of
           Some (c', pc') \<Rightarrow> Some (s\<lparr>cl := c', pings := (pings s)[i := ping_moves pc' (pings s ! i)]\<rparr>)
         | None \<Rightarrow> None)
      else None)"
| "perform cfg P C T (DDropCall i) s =
     (if i < length (calls s) then Some (s\<lparr>calls := (calls s)[i := (calls s ! i)\<lparr>ct_dropped := True\<rparr>]\<rparr>) else None)"
| "perform cfg P C T (DDropPing i) s =
     (if i < length (pings s) then Some (s\<lparr>pings := (pings s)[i := (pings s ! i)\<lparr>pt_dropped := True\<rparr>]\<rparr>) else None)"
| "perform cfg P C T (DOn action) s =
     Some (s\<lparr>cl := snd (client_on action (cl s)), handlers := handlers s @
       [\<lparr>ht_action = action, ht_chan = fst (client_on action (cl s)), ht_pc = HChecking, ht_hand = [], ht_log = []\<rparr>]\<rparr>)"
| "perform cfg P C T (DHandlerMoves i inp) s =
     (if i < length (handlers s) then
        (case handler_step P C T (ht_action (handlers s ! i)) (ht_chan (handlers s ! i)) inp (cl s)
           (ht_pc (handlers s ! i)) of
           Some (c', pc') \<Rightarrow> Some (s\<lparr>cl := c', handlers := (handlers s)[i :=
             handler_moved (queue (call_chans (cl s) (ht_chan (handlers s ! i)))) pc' (handlers s ! i)]\<rparr>)
         | None \<Rightarrow> None)
      else None)"
| "perform cfg P C T (DOnNotification action) s =
     Some (s\<lparr>cl := snd (client_on_notification action (cl s)), notifiers := notifiers s @
       [\<lparr>nt_action = action, nt_chan = fst (client_on_notification action (cl s)), nt_pc = NChecking,
         nt_taken = []\<rparr>]\<rparr>)"
| "perform cfg P C T (DNotifierMoves i) s =
     (if i < length (notifiers s) then
        (case notification_step T (nt_action (notifiers s ! i)) (nt_chan (notifiers s ! i)) (cl s)
           (nt_pc (notifiers s ! i)) of
           Some (c', pc') \<Rightarrow> Some (s\<lparr>cl := c', notifiers := (notifiers s)[i :=
             notifier_moved (queue (send_chans (cl s) (nt_chan (notifiers s ! i)))) pc' (notifiers s ! i)]\<rparr>)
         | None \<Rightarrow> None)
      else None)"
| "perform cfg P C T (DNotify message_id action payload_value) s =
     Some (s\<lparr>sends := sends s @
       [\<lparr>sn_pc = send_start C message_id action payload_value (cl s), sn_dropped = False\<rparr>]\<rparr>)"
| "perform cfg P C T (DNotifyMoves i inp) s =
     (if i < length (sends s) \<and> \<not> sn_dropped (sends s ! i) then
        (case send_step inp (cl s) (sn_pc (sends s ! i)) of
           Some (c', pc') \<Rightarrow> Some (s\<lparr>cl := c', sends := (sends s)[i := (sends s ! i)\<lparr>sn_pc := pc'\<rparr>]\<rparr>)
         | None \<Rightarrow> None)
      else None)"
| "perform cfg P C T (DDropNotify i) s =
     (if i < length (sends s) then Some (s\<lparr>sends := (sends s)[i := (sends s ! i)\<lparr>sn_dropped := True\<rparr>]\<rparr>) else None)"
| "perform cfg P C T (DSubscribe kind) s =
     Some (s\<lparr>cl := snd (client_subscribe kind (cl s)), subscribers := subscribers s @
       [\<lparr>st_registry = kind, st_slot = fst (client_subscribe kind (cl s)), st_pc = SWaiting,
         st_mark = broadcasts kind s, st_fired = 0\<rparr>]\<rparr>)"
| "perform cfg P C T (DSubscriberMoves i) s =
     (if i < length (subscribers s) then
        (case subscriber_step (st_registry (subscribers s ! i)) (st_slot (subscribers s ! i)) (cl s)
           (st_pc (subscribers s ! i)) of
           Some (c', pc') \<Rightarrow> Some (s\<lparr>cl := c', subscribers := (subscribers s)[i :=
             subscriber_moved (broadcasts (st_registry (subscribers s ! i)) s) pc' (subscribers s ! i)]\<rparr>)
         | None \<Rightarrow> None)
      else None)"
| "perform cfg P C T (DSetInterval i) s = Some (s\<lparr>cl := client_set_ping_interval i (cl s)\<rparr>)"
| "perform cfg P C T DForce s = Some (s\<lparr>cl := client_force_reconnect (cl s)\<rparr>)"
| "perform cfg P C T DDisconnect s =
     (case disconnect_begin (cl s) of
        Some c' \<Rightarrow> Some (s\<lparr>cl := c', closing := Suc (closing s)\<rparr>) | None \<Rightarrow> None)"
| "perform cfg P C T (DDisconnectCloses r) s =
     (case closing s of
        Suc n \<Rightarrow> Some (s\<lparr>cl := snd (disconnect_close r (cl s)), closing := n\<rparr>) | 0 \<Rightarrow> None)"
| "perform cfg P C T DDropDisconnect s =
     (case closing s of Suc n \<Rightarrow> Some (s\<lparr>closing := n\<rparr>) | 0 \<Rightarrow> None)"

fun perform_all ::
  "client_config \<Rightarrow> 'e protocol_error \<Rightarrow> codec \<Rightarrow> payload_types \<Rightarrow> 'e decision list \<Rightarrow> 'e engine \<Rightarrow> 'e engine option" where
  "perform_all cfg P C T [] s = Some s"
| "perform_all cfg P C T (d # ds) s =
     (case perform cfg P C T d s of Some t \<Rightarrow> perform_all cfg P C T ds t | None \<Rightarrow> None)"

lemma perform_step: "perform cfg P C T d s = Some t \<Longrightarrow> engine_step cfg P C T s t"
  by (cases d) (auto intro: engine_step.intros engine_step.disconnect_closes [OF _ surjective_pairing]
      engine_step.on [OF surjective_pairing] engine_step.on_notification [OF surjective_pairing] engine_step.subscribe [OF surjective_pairing]
      split: option.splits if_splits nat.splits prod.splits)

lemma perform_beside:
  assumes "perform cfg P C T d s = Some t" and "\<forall>inp. d \<noteq> DRead inp"
  shows "rl t = rl s" and "inbox t = inbox s"
  using assms by (cases d; auto split: option.splits if_splits nat.splits)+

lemma step_performed: "engine_step cfg P C T s t \<Longrightarrow> \<exists>d. perform cfg P C T d s = Some t"
proof (induction rule: engine_step.induct)
  case (read_loop inp s c' l') then show ?case by (intro exI [of _ "DRead inp"]) simp
next
  case (keepalive_task inp s c' k') then show ?case by (intro exI [of _ "DKeepalive inp"]) simp
next
  case (call s i a v) then show ?case by (intro exI [of _ "DCall i a v"]) simp
next
  case (call_moves i s inp c' pc') then show ?case by (intro exI [of _ "DCallMoves i inp"]) simp
next
  case (send_ping s) then show ?case by (intro exI [of _ DSendPing]) simp
next
  case (ping_moves i s inp c' pc') then show ?case by (intro exI [of _ "DPingMoves i inp"]) simp
next
  case (drop_call i s) then show ?case by (intro exI [of _ "DDropCall i"]) simp
next
  case (drop_ping i s) then show ?case by (intro exI [of _ "DDropPing i"]) simp
next
  case (on a s n c') then show ?case by (intro exI [of _ "DOn a"]) simp
next
  case (handler_moves i s inp c' pc') then show ?case by (intro exI [of _ "DHandlerMoves i inp"]) simp
next
  case (on_notification a s n c') then show ?case by (intro exI [of _ "DOnNotification a"]) simp
next
  case (notifier_moves i s c' pc') then show ?case by (intro exI [of _ "DNotifierMoves i"]) simp
next
  case (notify s i a v) then show ?case by (intro exI [of _ "DNotify i a v"]) simp
next
  case (notify_moves i s inp c' pc') then show ?case by (intro exI [of _ "DNotifyMoves i inp"]) simp
next
  case (drop_notify i s) then show ?case by (intro exI [of _ "DDropNotify i"]) simp
next
  case (set_interval s i) then show ?case by (intro exI [of _ "DSetInterval i"]) simp
next
  case (force s) then show ?case by (intro exI [of _ DForce]) simp
next
  case (subscribe k s n c') then show ?case by (intro exI [of _ "DSubscribe k"]) simp
next
  case (subscriber_moves i s c' pc') then show ?case by (intro exI [of _ "DSubscriberMoves i"]) simp
next
  case (disconnect s c') then show ?case by (intro exI [of _ DDisconnect]) simp
next
  case (disconnect_closes s n r res c') then show ?case by (intro exI [of _ "DDisconnectCloses r"]) simp
next
  case (drop_disconnect s n) then show ?case by (intro exI [of _ DDropDisconnect]) simp
qed

lemma perform_all_runs:
  "perform_all cfg P C T ds s = Some t \<Longrightarrow> engine_runs cfg P C T s t"
proof (induction ds arbitrary: s)
  case Nil
  then show ?case by (auto intro: engine_runs.stay)
next
  case (Cons d ds)
  then obtain u where "perform cfg P C T d s = Some u" "engine_runs cfg P C T u t"
    by (auto split: option.splits)
  moreover from this have "engine_runs cfg P C T s u" using perform_step by (blast intro: engine_runs.intros)
  ultimately show ?case by (simp add: engine_runs_trans)
qed

lemma performed_runs:
  "perform_all cfg P C T ds s \<noteq> None \<Longrightarrow> engine_runs cfg P C T s (the (perform_all cfg P C T ds s))"
  by (rule perform_all_runs) simp

text \<open>Payload types that accept every value, for concrete runs.\<close>

definition lenient_types :: payload_types where
  "lenient_types = \<lparr>response_check = (\<lambda>_ _. Ok ()), request_check = (\<lambda>_ _. Ok ()), payload_check = (\<lambda>_ _. Ok ())\<rparr>"

lemma lenient_types_simps [simp]: "response_check lenient_types a v = Ok ()"
  by (simp add: lenient_types_def)

lemmas schedule_eval = from_transport_with_config_def new_client_def client_config_new_def with_reconnect_def
  with_keepalive_def read_loop_start_def ka_start_def client_defs signal_defs Let_def call_start_def ping_start_def
  call_wait_cases ping_wait_cases call_result_def ping_moves_def read_moves_def handler_moved_def subscriber_moved_def read_defs take_wake_cases read_woken_def
  after_exit_def

subsection \<open>Invariants of the running client\<close>

locale engine_invariant =
  fixes cfg :: client_config and P :: "'e protocol_error" and C :: codec and T :: payload_types
    and inv :: "'e engine \<Rightarrow> bool"
  assumes initially: "inv (from_transport_with_config cfg)"
    and kept: "engine_step cfg P C T s t \<Longrightarrow> inv s \<Longrightarrow> inv t"
begin

lemma kept_by_runs: "engine_runs cfg P C T s t \<Longrightarrow> inv s \<Longrightarrow> inv t"
  by (induction rule: engine_runs.induct) (auto intro: kept)

lemma always: "engine_reach cfg P C T s \<Longrightarrow> inv s"
  by (rule kept_by_runs [OF _ initially])

end

subsection \<open>What each operation leaves alone\<close>

definition pend_view :: "'e client \<Rightarrow> (uuid \<rightharpoonup> nat) \<times> (nat \<Rightarrow> 'e reply signal) \<times> nat" where
  "pend_view c = (pending_responses c, replies c, next_reply c)"

definition pong_view :: "'e client \<Rightarrow> (u64 \<rightharpoonup> nat) \<times> (nat \<Rightarrow> unit signal) \<times> nat" where
  "pong_view c = (pong_waiters c, pongs c, next_pong c)"

definition control_view :: "'e client \<Rightarrow> bool \<times> unit signal \<times> unit signal" where
  "control_view c = (closed c, force_reconnect c, changed (keepalive c))"

lemmas views = pend_view_def pong_view_def control_view_def

lemma views_sink_write [simp]:
  "pend_view (sink_write op r c) = pend_view c" "pong_view (sink_write op r c) = pong_view c"
  "control_view (sink_write op r c) = control_view c"
  by (simp_all add: views sink_write_def)

lemma views_register_pending [simp]:
  "pong_view (snd (register_pending m c)) = pong_view c"
  "control_view (snd (register_pending m c)) = control_view c"
  by (simp_all add: views register_pending_def Let_def)

lemma views_forget_pending [simp]:
  "pong_view (forget_pending m c) = pong_view c" "control_view (forget_pending m c) = control_view c"
  by (simp_all add: views forget_pending_def)

lemma views_register_ping [simp]:
  "pend_view (snd (register_ping c)) = pend_view c" "control_view (snd (register_ping c)) = control_view c"
  by (simp_all add: views register_ping_def Let_def)

lemma views_forget_ping [simp]:
  "pend_view (forget_ping t c) = pend_view c" "control_view (forget_ping t c) = control_view c"
  by (simp_all add: views forget_ping_def)

lemma views_resolve [simp]:
  "pong_view (resolve_pending m r c) = pong_view c" "control_view (resolve_pending m r c) = control_view c"
  "pend_view (resolve_pong b c) = pend_view c" "control_view (resolve_pong b c) = control_view c"
  by (simp_all add: views resolve_pending_def resolve_pong_def split: option.split)

lemma views_deliver [simp]:
  "pend_view (deliver d r c) = pend_view c" "pong_view (deliver d r c) = pong_view c"
  "control_view (deliver d r c) = control_view c"
  by (cases d; simp; simp add: views)+

lemma views_send_response [simp]:
  "pend_view (do_send_response P C o' m r c) = pend_view c"
  "pong_view (do_send_response P C o' m r c) = pong_view c"
  "control_view (do_send_response P C o' m r c) = control_view c"
  by (simp_all add: do_send_response_def split: option.split)

lemma views_on [simp]:
  "pend_view (snd (client_on a c)) = pend_view c" "pong_view (snd (client_on a c)) = pong_view c"
  "control_view (snd (client_on a c)) = control_view c"
  "pend_view (snd (client_on_notification a c)) = pend_view c"
  "pong_view (snd (client_on_notification a c)) = pong_view c"
  "control_view (snd (client_on_notification a c)) = control_view c"
  by (simp_all add: views client_on_def client_on_notification_def Let_def split: option.split)

lemma views_handler_step:
  assumes "handler_step P C T a n inp c pc = Some (c', pc')"
  shows "pend_view c' = pend_view c" "pong_view c' = pong_view c" "control_view c' = control_view c"
  using assms by (induction P C T a n inp c pc rule: handler_step.induct;
      auto simp: views do_send_response_wire split: recv_outcome.splits option.splits prod.splits)+

lemma views_notification_step:
  assumes "notification_step T a n c pc = Some (c', pc')"
  shows "pend_view c' = pend_view c" "pong_view c' = pong_view c" "control_view c' = control_view c"
  using assms by (cases pc; auto simp: views split: recv_outcome.splits option.splits prod.splits)+

lemma views_send_step:
  assumes "send_step inp c pc = Some (c', pc')"
  shows "pend_view c' = pend_view c" "pong_view c' = pong_view c" "control_view c' = control_view c"
  using assms by (auto elim: send_step_SomeE)

lemma views_registered:
  assumes "client_on a c = (n, c') \<or> client_on_notification a c = (n, c')"
  shows "pend_view c' = pend_view c" "pong_view c' = pong_view c" "control_view c' = control_view c"
  using assms by (metis snd_conv views_on)+

lemma views_admin [simp]:
  "pend_view (client_set_ping_interval i c) = pend_view c" "pong_view (client_set_ping_interval i c) = pong_view c"
  "pend_view (client_force_reconnect c) = pend_view c" "pong_view (client_force_reconnect c) = pong_view c"
  by (simp_all add: views client_set_ping_interval_def client_force_reconnect_def)

lemma views_shutdown:
  "disconnect_begin c = Some c' \<Longrightarrow> pend_view c' = pend_view c \<and> pong_view c' = pong_view c"
  "disconnect_close r c = (res, c') \<Longrightarrow>
    pend_view c' = pend_view c \<and> pong_view c' = pong_view c \<and> control_view c' = control_view c"
  by (auto simp: disconnect_begin_def disconnect_close_def views sink_write_def split: if_splits)

lemma views_with_registry [simp]:
  "pend_view (with_registry kind r c) = pend_view c" "pong_view (with_registry kind r c) = pong_view c"
  "control_view (with_registry kind r c) = control_view c"
  by (cases kind; simp add: views)+

lemma views_subscribe:
  assumes "client_subscribe kind c = (n, c')"
  shows "pend_view c' = pend_view c" "pong_view c' = pong_view c" "control_view c' = control_view c"
  using assms by (auto simp: client_subscribe_cases)

lemma views_subscriber_step:
  assumes "subscriber_step kind slot c pc = Some (c', pc')"
  shows "pend_view c' = pend_view c" "pong_view c' = pong_view c" "control_view c' = control_view c"
  using assms by (cases pc; auto simp: subscriber_step_waiting simp del: subscriber_step.simps(1))+

lemma read_moves_simps [simp]:
  "cl (read_moves inp c l s) = c" "rl (read_moves inp c l s) = l" "ka (read_moves inp c l s) = ka s"
  "calls (read_moves inp c l s) = calls s" "pings (read_moves inp c l s) = pings s"
  "handlers (read_moves inp c l s) = handlers s" "notifiers (read_moves inp c l s) = notifiers s"
  "closing (read_moves inp c l s) = closing s" "inbox (read_moves inp c l s) = inbox s @ received inp"
  "delivered (read_moves inp c l s) = delivered s @ handed_over (rl_pc (rl s)) inp"
  "sends (read_moves inp c l s) = sends s"
  "notified (read_moves inp c l s) = notified s @ sent_over (rl_pc (rl s)) inp"
  "subscribers (read_moves inp c l s) = subscribers s"
  by (simp_all add: read_moves_def)

lemmas views_steps = views_handler_step views_notification_step views_send_step views_registered [OF disjI1]
  views_registered [OF disjI2] views_shutdown views_subscribe views_subscriber_step

end
