(* ===== verification/Waiters.thy ===== *)
theory Waiters
  imports Client_State
begin

text \<open>
  Bookkeeping shared by the two waiter tables of \<^verbatim>\<open>src/client.rs\<close> (\<open>pending_responses\<close> and
  \<open>pong_waiters\<close>), independent of which one it is. A waiting task is described by the key and the cell
  it registered, if it holds any, and by how many events had arrived when it started. \<open>tracked\<close> says
  that every entry of the table belongs to a task that is still waiting, and that a filled cell was
  filled because of an event that arrived after its owner started. Every step of a task or of the read
  loop is one of the operations below, and each keeps the invariant.
\<close>

type_synonym 'k waiting = "('k \<times> nat) option \<times> nat"

definition tracked ::
  "('k \<Rightarrow> 'v \<Rightarrow> 'ev \<Rightarrow> bool) \<Rightarrow> ('k \<rightharpoonup> nat) \<Rightarrow> (nat \<Rightarrow> 'v option) \<Rightarrow> nat \<Rightarrow> 'k waiting list \<Rightarrow> 'ev list \<Rightarrow> bool" where
  "tracked ev m cells n ws inbox \<longleftrightarrow>
     (\<forall>k s. m k = Some s \<longrightarrow> cells s = None \<and> (\<exists>i < length ws. fst (ws ! i) = Some (k, s)))
     \<and> (\<forall>i < length ws. \<forall>k s. fst (ws ! i) = Some (k, s) \<longrightarrow>
          s < n \<and> (\<forall>v. cells s = Some v \<longrightarrow> (\<exists>e \<in> set (drop (snd (ws ! i)) inbox). ev k v e)))
     \<and> (\<forall>i < length ws. \<forall>j < length ws. \<forall>k k' s.
          fst (ws ! i) = Some (k, s) \<longrightarrow> fst (ws ! j) = Some (k', s) \<longrightarrow> i = j)
     \<and> (\<forall>i < length ws. snd (ws ! i) \<le> length inbox)"

lemma trackedI:
  assumes "\<And>k s. m k = Some s \<Longrightarrow> cells s = None"
    and "\<And>k s. m k = Some s \<Longrightarrow> \<exists>i < length ws. fst (ws ! i) = Some (k, s)"
    and "\<And>i k s. i < length ws \<Longrightarrow> fst (ws ! i) = Some (k, s) \<Longrightarrow> s < n"
    and "\<And>i k s v. i < length ws \<Longrightarrow> fst (ws ! i) = Some (k, s) \<Longrightarrow> cells s = Some v \<Longrightarrow>
      \<exists>e \<in> set (drop (snd (ws ! i)) inbox). ev k v e"
    and "\<And>i j k k' s. i < length ws \<Longrightarrow> j < length ws \<Longrightarrow> fst (ws ! i) = Some (k, s) \<Longrightarrow>
      fst (ws ! j) = Some (k', s) \<Longrightarrow> i = j"
    and "\<And>i. i < length ws \<Longrightarrow> snd (ws ! i) \<le> length inbox"
  shows "tracked ev m cells n ws inbox"
  using assms unfolding tracked_def by blast

lemma trackedD:
  assumes "tracked ev m cells n ws inbox"
  shows tracked_empty_cell: "m k = Some s \<Longrightarrow> cells s = None"
    and tracked_owner: "m k = Some s \<Longrightarrow> \<exists>i < length ws. fst (ws ! i) = Some (k, s)"
    and tracked_bound: "i < length ws \<Longrightarrow> fst (ws ! i) = Some (k, s) \<Longrightarrow> s < n"
    and tracked_evidence: "i < length ws \<Longrightarrow> fst (ws ! i) = Some (k, s) \<Longrightarrow> cells s = Some v \<Longrightarrow>
      \<exists>e \<in> set (drop (snd (ws ! i)) inbox). ev k v e"
    and tracked_unique: "i < length ws \<Longrightarrow> j < length ws \<Longrightarrow> fst (ws ! i) = Some (k, s) \<Longrightarrow>
      fst (ws ! j) = Some (k', s) \<Longrightarrow> i = j"
    and tracked_since: "i < length ws \<Longrightarrow> snd (ws ! i) \<le> length inbox"
  using assms unfolding tracked_def by blast+

lemma tracked_slot_key:
  assumes "tracked ev m cells n ws inbox" and "m k = Some s" and "i < length ws"
    and "fst (ws ! i) = Some (k', s)"
  shows "k' = k"
  using tracked_owner [OF assms(1,2)] tracked_unique [OF assms(1,3)] assms(4) by fastforce

text \<open>Every entry points to an allocated, still empty cell, and no two entries share one.\<close>

definition sound_table :: "('k \<rightharpoonup> nat) \<Rightarrow> (nat \<Rightarrow> 'v option) \<Rightarrow> nat \<Rightarrow> bool" where
  "sound_table m cells n \<longleftrightarrow> (\<forall>k s. m k = Some s \<longrightarrow> s < n \<and> cells s = None) \<and> inj_on m (dom m)"

lemma tracked_sound: "tracked ev m cells n ws inbox \<Longrightarrow> sound_table m cells n"
  unfolding sound_table_def
proof (intro conjI allI impI inj_onI)
  assume inv: "tracked ev m cells n ws inbox"
  fix k s assume "m k = Some s"
  with tracked_owner [OF inv this] show "s < n" "cells s = None"
    using tracked_bound [OF inv] tracked_empty_cell [OF inv] by blast+
next
  assume inv: "tracked ev m cells n ws inbox"
  fix k k' assume "k \<in> dom m" "k' \<in> dom m" and eq: "m k = m k'"
  then obtain s where s: "m k = Some s" "m k' = Some s" by auto
  obtain i where "i < length ws" "fst (ws ! i) = Some (k', s)" using tracked_owner [OF inv s(2)] by blast
  from tracked_slot_key [OF inv s(1) this] show "k = k'" by simp
qed

lemma tracked_start: "tracked ev Map.empty cells n [] inbox"
  by (simp add: tracked_def)

lemma tracked_new:
  assumes "tracked ev m cells n ws inbox" and "since \<le> length inbox"
  shows "tracked ev m cells n (ws @ [(None, since)]) inbox"
proof (rule trackedI)
  fix k s assume "m k = Some s"
  from tracked_owner [OF assms(1) this]
  show "\<exists>i < length (ws @ [(None, since)]). fst ((ws @ [(None, since)]) ! i) = Some (k, s)"
    by (auto simp: nth_append intro: exI [of _ "_ :: nat"])
qed (use assms in \<open>auto simp: nth_append less_Suc_eq split: if_splits
      dest: trackedD [OF assms(1)]\<close>)

lemma tracked_more:
  assumes "tracked ev m cells n ws inbox"
  shows "tracked ev m cells n ws (inbox @ es)"
proof (rule trackedI)
  fix i k s v
  assume "i < length ws" "fst (ws ! i) = Some (k, s)" "cells s = Some v"
  from tracked_evidence [OF assms this]
  show "\<exists>e \<in> set (drop (snd (ws ! i)) (inbox @ es)). ev k v e" by auto
next
  fix i assume "i < length ws"
  from tracked_since [OF assms this] show "snd (ws ! i) \<le> length (inbox @ es)" by simp
qed (use trackedD [OF assms] in blast)+

lemma tracked_clear:
  assumes "tracked ev m cells n ws inbox"
  shows "tracked ev Map.empty cells n ws inbox"
  by (rule trackedI) (simp, simp, (use trackedD [OF assms] in blast)+)

lemma tracked_register:
  assumes "tracked ev m cells n ws inbox" and "i < length ws" and "fst (ws ! i) = None"
  shows "tracked ev (m(k \<mapsto> n)) (cells(n := None)) (Suc n) (ws[i := (Some (k, n), snd (ws ! i))]) inbox"
proof -
  note D = trackedD [OF assms(1)]
  have fresh: "j < length ws \<Longrightarrow> fst (ws ! j) \<noteq> Some (k', n)" for j k'
    using D(3) by blast
  show ?thesis
  proof (rule trackedI)
    fix k' s assume "(m(k \<mapsto> n)) k' = Some s"
    then show "(cells(n := None)) s = None" using D(1) by (auto split: if_splits)
  next
    fix k' s assume a: "(m(k \<mapsto> n)) k' = Some s"
    show "\<exists>j < length (ws[i := (Some (k, n), snd (ws ! i))]).
        fst (ws[i := (Some (k, n), snd (ws ! i))] ! j) = Some (k', s)"
    proof (cases "k' = k")
      case True
      with a assms(2) show ?thesis by (auto intro!: exI [of _ i])
    next
      case False
      with a D(2) [of k' s] obtain j where "j < length ws" "fst (ws ! j) = Some (k', s)" by auto
      moreover from this have "j \<noteq> i" using assms(3) by auto
      ultimately show ?thesis by (intro exI [of _ j]) simp
    qed
  qed (use D fresh assms(2) in \<open>auto simp: nth_list_update less_Suc_eq split: if_splits\<close>)
qed

lemma tracked_release:
  assumes "tracked ev m cells n ws inbox" and "i < length ws" and "fst (ws ! i) = Some (k, s)"
    and "m' \<subseteq>\<^sub>m m" and "m' k \<noteq> Some s" and "\<And>s' v. cells' s' = Some v \<Longrightarrow> cells s' = Some v"
  shows "tracked ev m' cells' n (ws[i := (None, snd (ws ! i))]) inbox"
proof -
  note D = trackedD [OF assms(1)]
  have sub: "m' k' = Some s' \<Longrightarrow> m k' = Some s'" for k' s'
    using assms(4) by (auto simp: map_le_def dom_def)
  show ?thesis
  proof (rule trackedI)
    fix k' s' assume "m' k' = Some s'"
    then have "cells s' = None" using sub D(1) by blast
    then show "cells' s' = None" using assms(6) [of s'] by (cases "cells' s'") auto
  next
    fix k' s' assume a: "m' k' = Some s'"
    with sub D(2) obtain j where j: "j < length ws" "fst (ws ! j) = Some (k', s')" by blast
    then have "j \<noteq> i" using a assms(3,5) by auto
    with j show "\<exists>j < length (ws[i := (None, snd (ws ! i))]).
        fst (ws[i := (None, snd (ws ! i))] ! j) = Some (k', s')" by auto
  qed (use D assms(2,6) in \<open>auto simp: nth_list_update split: if_splits; blast?\<close>)+
qed

lemma tracked_forget:
  assumes "tracked ev m cells n ws inbox" and "i < length ws" and "fst (ws ! i) = Some (k, s)"
  shows "tracked ev (m(k := None)) cells n (ws[i := (None, snd (ws ! i))]) inbox"
  by (rule tracked_release [OF assms]) (auto simp: map_le_def split: if_splits)

lemma tracked_take:
  assumes "tracked ev m cells n ws inbox" and "i < length ws" and "fst (ws ! i) = Some (k, s)"
    and "cells s = Some v"
  shows "tracked ev m (cells(s := None)) n (ws[i := (None, snd (ws ! i))]) inbox"
proof (rule tracked_release [OF assms(1-3)])
  show "m k \<noteq> Some s" using tracked_empty_cell [OF assms(1)] assms(4) by fastforce
qed (auto simp: map_le_def split: if_splits)

lemma tracked_resolve:
  assumes "tracked ev m cells n ws inbox" and "m k = Some s" and "ev k v e"
  shows "tracked ev (m(k := None)) (cells(s := Some v)) n ws (inbox @ [e])"
proof -
  note D = trackedD [OF assms(1)]
  have key: "m k' = Some s \<Longrightarrow> k' = k" for k'
    using D(2) [of k' s] tracked_slot_key [OF assms(1,2)] by blast
  show ?thesis
  proof (rule trackedI)
    fix k' s' assume "(m(k := None)) k' = Some s'"
    then show "(cells(s := Some v)) s' = None" using D(1) key by (auto split: if_splits)
  next
    fix i k' s' w
    assume i: "i < length ws" "fst (ws ! i) = Some (k', s')" "(cells(s := Some v)) s' = Some w"
    show "\<exists>e' \<in> set (drop (snd (ws ! i)) (inbox @ [e])). ev k' w e'"
    proof (cases "s' = s")
      case True
      with i tracked_slot_key [OF assms(1,2) i(1)] have "k' = k" "w = v" by auto
      with D(6) [OF i(1)] assms(3) show ?thesis by simp
    next
      case False
      with i D(4) [OF i(1,2)] show ?thesis by auto
    qed
  next
    fix k' s' assume "(m(k := None)) k' = Some s'"
    then show "\<exists>i < length ws. fst (ws ! i) = Some (k', s')" using D(2) by (auto split: if_splits)
  next
    fix i assume "i < length ws"
    from D(6) [OF this] show "snd (ws ! i) \<le> length (inbox @ [e])" by simp
  qed (use D in blast)+
qed

lemma tracked_all_returned:
  assumes "tracked ev m cells n ws inbox" and "\<forall>w \<in> set ws. fst w = None"
  shows "m = Map.empty"
proof (rule ext)
  fix k
  show "m k = None"
  proof (cases "m k")
    case (Some s)
    then obtain i where "i < length ws" "fst (ws ! i) = Some (k, s)"
      using tracked_owner [OF assms(1)] by blast
    with assms(2) show ?thesis by (metis nth_mem option.distinct(1))
  qed
qed

lemma tracked_count:
  assumes "tracked ev m cells n ws inbox"
  shows "card (dom m) \<le> length (filter (\<lambda>w. fst w \<noteq> None) ws)"
proof -
  let ?live = "filter (\<lambda>w. fst w \<noteq> None) ws"
  have "dom m \<subseteq> set (map (\<lambda>w. fst (the (fst w))) ?live)"
  proof
    fix k assume "k \<in> dom m"
    then obtain s i where "i < length ws" "fst (ws ! i) = Some (k, s)"
      using tracked_owner [OF assms] by blast
    then show "k \<in> set (map (\<lambda>w. fst (the (fst w))) ?live)"
      by (auto intro!: image_eqI [of _ _ "ws ! i"])
  qed
  then have "card (dom m) \<le> card (set (map (\<lambda>w. fst (the (fst w))) ?live))" by (intro card_mono) auto
  also have "\<dots> \<le> length ?live" using card_length [of "map (\<lambda>w. fst (the (fst w))) ?live"] by simp
  finally show ?thesis .
qed

end
