(* ===== verification/Engine_Calls.thy ===== *)
theory Engine_Calls
  imports Engine Waiters
begin

text \<open>
  Calls in the running client: who owns the entries of \<open>pending_responses\<close>, and where the answer a call
  returns came from. Both follow from one invariant over every interleaving of the engine.
\<close>

text \<open>The response a frame carries, if it is one: the call it is for and what it says.\<close>

definition response_for :: "'e protocol_error \<Rightarrow> codec \<Rightarrow> string \<Rightarrow> (uuid \<times> 'e reply) option" where
  "response_for P C frame =
     (case classify C frame of
        Typed t v \<Rightarrow>
          if t = MESSAGE_TYPE_RESULT then
            (case decode_result v of
               Some (RawResult _ mid payload) \<Rightarrow> map_option (\<lambda>u. (u, Ok payload)) (parse_uuid C mid)
             | None \<Rightarrow> None)
          else if t = MESSAGE_TYPE_ERROR then
            (case decode_error v of
               Some (RawError _ mid code d details) \<Rightarrow>
                 map_option (\<lambda>u. (u, Err (pe_from_wire P code d details))) (parse_uuid C mid)
             | None \<Rightarrow> None)
          else None
      | _ \<Rightarrow> None)"

definition answers :: "'e protocol_error \<Rightarrow> codec \<Rightarrow> uuid \<Rightarrow> 'e reply \<Rightarrow> transport_event \<Rightarrow> bool" where
  "answers P C u r event \<longleftrightarrow> (\<exists>frame. event = Frame frame \<and> response_for P C frame = Some (u, r))"

fun call_owner :: "'e call_pc \<Rightarrow> (uuid \<times> nat) option" where
  "call_owner (CallRegistered mid slot _ _) = Some (mid, slot)"
| "call_owner (CallSendFailed mid slot _) = Some (mid, slot)"
| "call_owner (CallWaiting mid slot _) = Some (mid, slot)"
| "call_owner (CallTimedOut mid slot) = Some (mid, slot)"
| "call_owner _ = None"

definition call_waiting :: "'e call_task \<Rightarrow> uuid waiting" where
  "call_waiting t = (call_owner (ct_pc t), ct_since t)"

fun call_about :: "'e call_pc \<Rightarrow> uuid option" where
  "call_about (CallPrepared mid _ _) = Some mid"
| "call_about (CallReturned _) = None"
| "call_about pc = map_option fst (call_owner pc)"

text \<open>What a returned call owes its result to: a response frame for its own id, received since it started.\<close>

definition call_justified :: "'e protocol_error \<Rightarrow> codec \<Rightarrow> transport_event list \<Rightarrow> 'e call_task \<Rightarrow> bool" where
  "call_justified P C events t \<longleftrightarrow>
     (\<forall>mid. call_about (ct_pc t) = Some mid \<longrightarrow> mid = ct_id t)
     \<and> (\<forall>v. ct_pc t = CallReturned (Ok v) \<longrightarrow> (\<exists>e \<in> set (drop (ct_since t) events). answers P C (ct_id t) (Ok v) e))
     \<and> (\<forall>x. ct_pc t = CallReturned (Err (Protocol x)) \<longrightarrow>
          (\<exists>e \<in> set (drop (ct_since t) events). answers P C (ct_id t) (Err x) e))"

definition calls_tracked ::
  "'e protocol_error \<Rightarrow> codec \<Rightarrow> (uuid \<rightharpoonup> nat) \<times> (nat \<Rightarrow> 'e reply signal) \<times> nat \<Rightarrow> 'e call_task list \<Rightarrow>
   transport_event list \<Rightarrow> bool" where
  "calls_tracked P C view ts events \<longleftrightarrow>
     tracked (answers P C) (fst view) (fst (snd view)) (snd (snd view)) (map call_waiting ts) events
     \<and> (\<forall>t \<in> set ts. call_justified P C events t)"

definition calls_inv :: "'e protocol_error \<Rightarrow> codec \<Rightarrow> 'e engine \<Rightarrow> bool" where
  "calls_inv P C s \<longleftrightarrow> calls_tracked P C (pend_view (cl s)) (calls s) (inbox s)"

subsection \<open>What the other tasks do to the table\<close>

lemma route_frame_response:
  "fst (route_frame P C f c) =
     (case response_for P C f of Some (u, r) \<Rightarrow> resolve_pending u r c | None \<Rightarrow> c)"
proof -
  have result: "route_result C (RawResult t mid p) c =
      (case map_option (\<lambda>u. (u, Ok p)) (parse_uuid C mid) of Some (u, r) \<Rightarrow> resolve_pending u r c | None \<Rightarrow> c)"
    for t mid p by (simp split: option.split)
  have error: "route_error P C (RawError t mid code d v) c =
      (case map_option (\<lambda>u. (u, Err (pe_from_wire P code d v))) (parse_uuid C mid) of
         Some (u, r) \<Rightarrow> resolve_pending u r c | None \<Rightarrow> c)"
    for t mid code d v by (simp split: option.split)
  show ?thesis
    unfolding route_frame_def route_typed_def response_for_def
    by (auto simp: message_type_defs result error simp del: route_result.simps route_error.simps
        split: classified.split option.split raw_result.split raw_error.split)
qed

lemma ping_step_pend: "ping_step inp c pc = Some (c', pc') \<Longrightarrow> pend_view c' = pend_view c"
  by (erule ping_step_SomeE)
    (auto simp: ping_wait_cases register_ping_def forget_ping_def sink_write_def views Let_def
      split: option.splits if_splits)

lemma ka_step_pend: "ka_step inp c k = Some (c', k') \<Longrightarrow> pend_view c' = pend_view c"
  by (auto simp: ka_step_def ka_at_ping_def ka_reconfigured_def take_changed_cases ka_finish_def
      client_force_reconnect_def views
      dest!: ping_step_pend [unfolded views]
      split: ka_pc.splits ka_input.splits ping_pc.splits option.splits if_splits prod.splits)

lemma read_event_pend:
  "read_event P C ev c = (c', pc) \<Longrightarrow>
     pend_view c' = (case ev of
       Frame f \<Rightarrow> (case response_for P C f of
         Some (u, r) \<Rightarrow> pend_view (resolve_pending u r c) | None \<Rightarrow> pend_view c)
     | _ \<Rightarrow> pend_view c)"
  using route_frame_response [of P C _ c]
  by (cases ev) (auto simp: split_beta split: option.splits, simp add: views)

lemma read_task_pend:
  assumes "read_task cfg P C inp c l = Some (c', l')"
  shows "pend_view c' = pend_view c
    \<or> (\<exists>f u r. inp = RecvEvent (Frame f) \<and> response_for P C f = Some (u, r)
        \<and> pend_view c' = pend_view (resolve_pending u r c))"
proof (cases "\<exists>ev. rl_pc l = Reading \<and> inp = RecvEvent ev")
  case True
  then obtain ev pc where "read_event P C ev c = (c', pc)" "inp = RecvEvent ev"
    using assms by (auto simp: read_defs split: prod.splits)
  with read_event_pend [OF this(1)] show ?thesis
    by (auto split: transport_event.splits option.splits)
next
  case False
  have "pend_view (clear_pong_waiters c) = pend_view c" by (simp add: views clear_pong_waiters_def)
  with assms False show ?thesis
    by (auto simp: read_defs take_wake_cases Let_def split: read_splits) (auto simp: views)
qed

subsection \<open>The invariant\<close>

lemma call_justified_more:
  "call_justified P C events t \<Longrightarrow> call_justified P C (events @ later) t"
  unfolding call_justified_def by fastforce

lemma calls_tracked_more:
  "calls_tracked P C view ts events \<Longrightarrow> calls_tracked P C view ts (events @ later)"
  by (auto simp: calls_tracked_def intro: tracked_more call_justified_more)

lemma calls_tracked_resolve:
  assumes "calls_tracked P C (pend_view c) ts events" and "response_for P C f = Some (u, r)"
  shows "calls_tracked P C (pend_view (resolve_pending u r c)) ts (events @ [Frame f])"
proof (cases "pending_responses c u")
  case None
  then have "resolve_pending u r c = c" by (simp add: resolve_pending_def)
  with assms calls_tracked_more show ?thesis by simp
next
  case (Some slot)
  have "answers P C u r (Frame f)" using assms(2) by (simp add: answers_def)
  from tracked_resolve [of "answers P C" "pending_responses c", OF _ Some this] assms(1) show ?thesis
    by (auto simp: calls_tracked_def views resolve_pending_def oneshot_send_def signal_put_def Some
        intro: call_justified_more)
qed

lemma calls_tracked_move:
  assumes "calls_tracked P C view ts events" and "i < length ts"
    and "tracked (answers P C) (fst view') (fst (snd view')) (snd (snd view'))
      ((map call_waiting ts)[i := (call_owner pc', ct_since (ts ! i))]) events"
    and "call_justified P C events ((ts ! i)\<lparr>ct_pc := pc'\<rparr>)"
  shows "calls_tracked P C view' (ts[i := (ts ! i)\<lparr>ct_pc := pc'\<rparr>]) events"
proof -
  have "map call_waiting (ts[i := (ts ! i)\<lparr>ct_pc := pc'\<rparr>])
      = (map call_waiting ts)[i := (call_owner pc', ct_since (ts ! i))]"
    by (simp add: map_update call_waiting_def)
  with assms show ?thesis
    by (auto simp: calls_tracked_def dest!: set_update_subset_insert [THEN subsetD])
qed

text \<open>What the invariant says about one call of the list.\<close>

lemma calls_tracked_at:
  assumes "calls_tracked P C (pend_view c) ts events" and "i < length ts"
  shows "tracked (answers P C) (pending_responses c) (replies c) (next_reply c) (map call_waiting ts) events"
    and "call_justified P C events (ts ! i)" and "i < length (map call_waiting ts)"
    and "fst (map call_waiting ts ! i) = call_owner (ct_pc (ts ! i))"
    and "snd (map call_waiting ts ! i) = ct_since (ts ! i)"
    and "(map call_waiting ts)[i := (call_owner (ct_pc (ts ! i)), ct_since (ts ! i))] = map call_waiting ts"
  using assms by (auto simp: calls_tracked_def views call_waiting_def list_update_same_conv)

lemma call_wait_tracked:
  assumes "calls_tracked P C (pend_view c) ts events" and "i < length ts"
    and pc: "ct_pc (ts ! i) = CallWaiting mid slot action"
    and wait: "call_wait T expired mid slot action c = Some (c', pc')"
  shows "calls_tracked P C (pend_view c') (ts[i := (ts ! i)\<lparr>ct_pc := pc'\<rparr>]) events"
proof -
  note at = calls_tracked_at [OF assms(1,2)]
  note move = calls_tracked_move [OF assms(1,2)]
  show ?thesis
  proof (cases "replies c slot")
    case None
    with wait pc at show ?thesis
      by (auto intro!: move simp: call_wait_cases views call_justified_def split: if_splits)
  next
    case (Some r)
    have mid: "mid = ct_id (ts ! i)" using at(2) pc by (simp add: call_justified_def)
    have owner: "fst (map call_waiting ts ! i) = Some (mid, slot)" using at(4) pc by simp
    have "\<exists>e \<in> set (drop (ct_since (ts ! i)) events). answers P C mid r e"
      using tracked_evidence [OF at(1,3) owner Some] at(5) by simp
    with mid have "call_justified P C events ((ts ! i)\<lparr>ct_pc := CallReturned (call_result T action r)\<rparr>)"
      by (auto simp: call_justified_def call_result_def split: result.splits)
    with tracked_take [OF at(1,3) owner Some] wait Some at(5) show ?thesis
      by (auto intro!: move simp: call_wait_cases views)
  qed
qed

lemma call_step_tracked:
  assumes "calls_tracked P C (pend_view c) ts events" and "i < length ts"
    and "call_step T inp c (ct_pc (ts ! i)) = Some (c', pc')"
  shows "calls_tracked P C (pend_view c') (ts[i := (ts ! i)\<lparr>ct_pc := pc'\<rparr>]) events"
proof -
  note inv = calls_tracked_at(1) [OF assms(1,2)] and just = calls_tracked_at(2) [OF assms(1,2)]
    and at = calls_tracked_at(3-5) [OF assms(1,2)] and same = calls_tracked_at(6) [OF assms(1,2)]
    and move = calls_tracked_move [OF assms(1,2)]
  show ?thesis
  proof (cases "ct_pc (ts ! i)")
    case (CallPrepared mid action frame)
    with tracked_register [OF inv at(1), of mid] at just assms(3) show ?thesis
      by (cases inp) (auto intro!: move simp: register_pending_def Let_def views signal_defs call_justified_def)
  next
    case (CallRegistered mid slot action frame)
    with inv same just assms(3) show ?thesis
      by (cases inp) (auto intro!: move simp: views sink_write_def call_justified_def split: result.splits)
  next
    case (CallSendFailed mid slot e)
    with tracked_forget [OF inv at(1), of mid slot] at just assms(3) show ?thesis
      by (cases inp) (auto intro!: move simp: views forget_pending_def call_justified_def)
  next
    case (CallWaiting mid slot action)
    with assms(3) call_wait_tracked [OF assms(1,2) CallWaiting] show ?thesis by (cases inp) auto
  next
    case (CallTimedOut mid slot)
    with tracked_forget [OF inv at(1), of mid slot] at just assms(3) show ?thesis
      by (cases inp) (auto intro!: move simp: views forget_pending_def call_justified_def)
  next
    case (CallReturned r)
    with assms(3) show ?thesis by (cases inp) auto
  qed
qed

lemma calls_inv_kept:
  assumes "engine_step cfg P C T s t" and "calls_inv P C s"
  shows "calls_inv P C t"
  using assms
proof (cases rule: engine_step.cases)
  case (read_loop inp c' l')
  have more: "calls_tracked P C (pend_view (cl s)) (calls s) (inbox s @ received inp)"
    using assms(2) calls_tracked_more by (simp add: calls_inv_def)
  from read_task_pend [OF read_loop(2)] read_loop(1) more assms(2) show ?thesis
    by (auto simp: calls_inv_def intro: calls_tracked_resolve)
next
  case (call message_id action request_value)
  have "call_owner (call_start C message_id action request_value (cl s)) = None"
    "call_justified P C (inbox s) \<lparr>ct_id = message_id, ct_action = action, ct_since = length (inbox s),
      ct_pc = call_start C message_id action request_value (cl s), ct_dropped = False\<rparr>"
    by (auto simp: call_start_def call_justified_def split: if_splits result.splits)
  with call tracked_new [of "answers P C" _ _ _ "map call_waiting (calls s)" "inbox s" "length (inbox s)"] assms(2)
  show ?thesis by (auto simp: calls_inv_def calls_tracked_def call_waiting_def)
next
  case (call_moves i inp c' pc')
  with call_step_tracked [of P C "cl s"] assms(2) show ?thesis by (simp add: calls_inv_def)
next
  case (drop_call i)
  then have "map call_waiting (calls t) = map call_waiting (calls s)"
    by (simp add: map_update call_waiting_def list_update_same_conv)
  moreover have "call_justified P C (inbox s) x" if "x \<in> set (calls t)" for x
    using that drop_call assms(2) nth_mem [of i "calls s"]
    by (auto simp: calls_inv_def calls_tracked_def call_justified_def
        dest!: set_update_subset_insert [THEN subsetD])
  ultimately show ?thesis using drop_call assms(2) by (simp add: calls_inv_def calls_tracked_def)
qed (auto simp: calls_inv_def views_steps ka_step_pend ping_step_pend)

interpretation calling: engine_invariant cfg P C T "calls_inv P C" for cfg P C T
proof unfold_locales
  show "calls_inv P C (from_transport_with_config cfg)"
    by (simp add: calls_inv_def calls_tracked_def from_transport_with_config_def new_client_def views tracked_start)
qed (rule calls_inv_kept)

lemma pending_count_live:
  assumes "engine_reach cfg P C T s"
  shows "pending_request_count (cl s) \<le> length (filter (\<lambda>t. call_owner (ct_pc t) \<noteq> None) (calls s))"
proof -
  have "tracked (answers P C) (pending_responses (cl s)) (replies (cl s)) (next_reply (cl s))
      (map call_waiting (calls s)) (inbox s)"
    using calling.always [OF assms] by (auto simp: calls_inv_def calls_tracked_def views)
  from tracked_count [OF this] show ?thesis
    by (simp add: pending_request_count_def filter_map comp_def call_waiting_def)
qed

subsection \<open>Properties\<close>

text \<open>
  One call answered by its peer, as a schedule of the engine: the client of the witnesses below.
\<close>

definition demo_codec :: codec where
  "demo_codec = table_codec [(''[2,x,a,null]'', call_value (RawCall MESSAGE_TYPE_CALL ''x'' ''a'' JNull)),
     (''[3,x,null]'', result_value (RawResult MESSAGE_TYPE_RESULT ''x'' JNull))]"

definition demo_schedule :: "OCPP1_6Error decision list" where
  "demo_schedule =
     [DCall 1 ''a'' (Ok JNull), DCallMoves 0 Proceed, DCallMoves 0 (SinkAnswers (Ok ())),
      DRead (RecvEvent (Frame ''[3,x,null]'')), DRead (RSink (Ok ())), DCallMoves 0 Proceed]"

definition demo_run :: "nat \<Rightarrow> OCPP1_6Error engine" where
  "demo_run n = the (perform_all (client_config_new 0) protocol_error_1_6 demo_codec lenient_types
     (take n demo_schedule) (from_transport_with_config (client_config_new 0)))"

lemma demo_codec_simps [simp]:
  "to_string demo_codec (JArray [JNumber (PosInt MESSAGE_TYPE_CALL), JString ''x'', JString ''a'', JNull])
     = Ok ''[2,x,a,null]''"
  "uuid_string demo_codec 1 = ''x''" "parse_uuid demo_codec ''x'' = Some 1"
  "from_str demo_codec ''[3,x,null]'' = Some (result_value (RawResult MESSAGE_TYPE_RESULT ''x'' JNull))"
  by (simp_all add: demo_codec_def table_codec_def)

lemma demo_answer [simp]:
  "route_frame P demo_codec ''[3,x,null]'' c = (resolve_pending 1 (Ok JNull) c, Nothing)"
  by (simp add: route_frame_result)

abbreviation demo_reach :: "OCPP1_6Error engine \<Rightarrow> bool" where
  "demo_reach \<equiv> engine_reach (client_config_new 0) protocol_error_1_6 demo_codec lenient_types"

lemma demo_reach: "demo_reach (demo_run 3)" "demo_reach (demo_run 6)"
  unfolding demo_run_def
  by (rule performed_runs, simp add: demo_schedule_def schedule_eval)+

lemma demo_answered:
  "calls (demo_run 6) = [\<lparr>ct_id = 1, ct_action = ''a'', ct_since = 0, ct_pc = CallReturned (Ok JNull), ct_dropped = False\<rparr>]"
  "inbox (demo_run 6) = [Frame ''[3,x,null]'']"
  by (simp_all add: demo_run_def demo_schedule_def schedule_eval)

lemma demo_waiting:
  "calls (demo_run 3) = [\<lparr>ct_id = 1, ct_action = ''a'', ct_since = 0, ct_pc = CallWaiting 1 0 ''a'', ct_dropped = False\<rparr>]"
  "pending_responses (cl (demo_run 3)) 1 = Some 0"
  by (simp_all add: demo_run_def demo_schedule_def schedule_eval)

text \<open>
  C1. Correlation: whenever a call returns a value, or a protocol error, in any interleaving of the
  client's tasks, a CALLRESULT, or a CALLERROR, for that call's own message id with exactly that payload
  or error was received after the call started. No call returns another call's answer or a stale one.
\<close>

theorem call_returns_its_own_answer:
  assumes "engine_reach cfg P C T s" and "t \<in> set (calls s)"
  shows "(\<forall>v. ct_pc t = CallReturned (Ok v) \<longrightarrow>
      (\<exists>f. Frame f \<in> set (drop (ct_since t) (inbox s)) \<and> response_for P C f = Some (ct_id t, Ok v)))
    \<and> (\<forall>x. ct_pc t = CallReturned (Err (Protocol x)) \<longrightarrow>
      (\<exists>f. Frame f \<in> set (drop (ct_since t) (inbox s)) \<and> response_for P C f = Some (ct_id t, Err x)))"
proof -
  have "call_justified P C (inbox s) t"
    using calling.always [OF assms(1)] assms(2) by (simp add: calls_inv_def calls_tracked_def)
  then show ?thesis unfolding call_justified_def answers_def by fast
qed

theorem call_returns_its_own_answer_witness:
  "\<exists>t \<in> set (calls (demo_run 6)). ct_pc t = CallReturned (Ok JNull)
     \<and> (\<exists>f. Frame f \<in> set (drop (ct_since t) (inbox (demo_run 6)))
          \<and> response_for protocol_error_1_6 demo_codec f = Some (ct_id t, Ok JNull))"
  using call_returns_its_own_answer [OF demo_reach(2)] by (auto simp: demo_answered)

text \<open>
  C4. No call that returns leaves an entry behind: at every moment each entry of the pending table belongs
  to a call that has registered it and has not returned yet, whether it still waits or its future was
  dropped meanwhile, so there are never more entries than such calls, and none once every call has
  returned.
\<close>

theorem pending_entries_belong_to_live_calls:
  assumes "engine_reach cfg P C T s"
  shows "(\<forall>u slot. pending_responses (cl s) u = Some slot \<longrightarrow>
      (\<exists>t \<in> set (calls s). ct_id t = u \<and> call_owner (ct_pc t) = Some (u, slot)))
    \<and> pending_request_count (cl s) \<le> length (filter (\<lambda>t. call_owner (ct_pc t) \<noteq> None) (calls s))"
proof -
  have inv: "tracked (answers P C) (pending_responses (cl s)) (replies (cl s)) (next_reply (cl s))
      (map call_waiting (calls s)) (inbox s)"
    and just: "\<And>t. t \<in> set (calls s) \<Longrightarrow> call_justified P C (inbox s) t"
    using calling.always [OF assms] by (auto simp: calls_inv_def calls_tracked_def views)
  have "\<exists>t \<in> set (calls s). ct_id t = u \<and> call_owner (ct_pc t) = Some (u, slot)"
    if entry: "pending_responses (cl s) u = Some slot" for u slot
  proof -
    obtain i where i: "i < length (calls s)" "call_owner (ct_pc (calls s ! i)) = Some (u, slot)"
      using tracked_owner [OF inv entry] by (auto simp: call_waiting_def)
    have "call_about (ct_pc (calls s ! i)) = Some u"
      using i(2) by (cases "ct_pc (calls s ! i)") auto
    with i just [OF nth_mem, OF i(1)] show ?thesis
      by (intro bexI [of _ "calls s ! i"]) (auto simp: call_justified_def)
  qed
  with pending_count_live [OF assms] show ?thesis by blast
qed

theorem pending_entries_belong_to_live_calls_witness:
  "pending_responses (cl (demo_run 3)) 1 = Some 0 \<and> pending_request_count (cl (demo_run 3)) \<le> 1"
  using pending_entries_belong_to_live_calls [OF demo_reach(1)] by (simp add: demo_waiting)

end
