(* ===== verification/Engine_Drops.thy ===== *)
theory Engine_Drops
  imports Engine_Calls
begin

text \<open>
  What becomes of a call whose future is dropped while it waits. The entry it put into \<open>pending_responses\<close>
  is removed by the code that runs after the wait, which a dropped future never reaches, so only a
  response for its message id can still take the entry out.
\<close>

subsection \<open>What a run keeps of the calls and of the inbox\<close>

definition calls_grow :: "'e call_task list \<Rightarrow> 'e call_task list \<Rightarrow> bool" where
  "calls_grow ts us \<longleftrightarrow> length ts \<le> length us
     \<and> (\<forall>j < length ts. ct_id (us ! j) = ct_id (ts ! j) \<and> (ct_dropped (ts ! j) \<longrightarrow> ct_dropped (us ! j)))"

lemma calls_grow_refl [simp]: "calls_grow ts ts"
  by (simp add: calls_grow_def)

lemma calls_grow_trans: "calls_grow ts us \<Longrightarrow> calls_grow us vs \<Longrightarrow> calls_grow ts vs"
  by (auto simp: calls_grow_def)

lemma calls_grow_edit:
  "calls_grow ts (ts @ us)"
  "i < length ts \<Longrightarrow> ct_id t = ct_id (ts ! i) \<Longrightarrow> (ct_dropped (ts ! i) \<longrightarrow> ct_dropped t) \<Longrightarrow> calls_grow ts (ts[i := t])"
  by (auto simp: calls_grow_def nth_append nth_list_update)

lemma step_grows:
  assumes "engine_step cfg P C T s t"
  shows "calls_grow (calls s) (calls t) \<and> (\<exists>new. inbox t = inbox s @ new)"
  using assms by (cases rule: engine_step.cases) (auto simp: read_moves_def calls_grow_edit)

lemma runs_grow:
  assumes "engine_runs cfg P C T s t"
  shows "calls_grow (calls s) (calls t) \<and> (\<exists>new. inbox t = inbox s @ new)"
  using assms
proof (induction rule: engine_runs.induct)
  case (go t u)
  with step_grows [OF go.hyps(2)] show ?case by (auto intro: calls_grow_trans)
qed simp

subsection \<open>One step\<close>

lemma call_step_other_entry:
  assumes "call_step T inp c pc = Some (c', pc')" and "call_about pc \<noteq> Some u"
  shows "pending_responses c' u = pending_responses c u"
  using assms
  by (cases pc; cases inp)
    (auto simp: register_pending_def forget_pending_def sink_write_def call_wait_cases Let_def
      split: result.splits option.splits if_splits)

lemma entry_survives_step:
  assumes step: "engine_step cfg P C T s t" and inv: "calls_inv P C s"
    and entry: "pending_responses (cl s) u = Some slot"
    and dropped: "\<And>j. j < length (calls s) \<Longrightarrow> ct_id (calls s ! j) = u \<Longrightarrow> ct_dropped (calls s ! j)"
    and silent: "\<And>f r. Frame f \<in> set (drop (length (inbox s)) (inbox t)) \<Longrightarrow> response_for P C f \<noteq> Some (u, r)"
  shows "pending_responses (cl t) u = Some slot"
proof -
  have "pend_view (cl t) = pend_view (cl s) \<or> pending_responses (cl t) u = Some slot"
    using step
  proof (cases rule: engine_step.cases)
    case (read_loop inp c' l')
    consider "pend_view c' = pend_view (cl s)"
      | f v r where "inp = RecvEvent (Frame f)" "response_for P C f = Some (v, r)"
          "pend_view c' = pend_view (resolve_pending v r (cl s))"
      using read_task_pend [OF read_loop(2)] by blast
    then show ?thesis
    proof cases
      case 2
      with silent [of f r] read_loop(1) have "v \<noteq> u" by (auto simp: read_moves_def)
      with 2(3) read_loop(1) entry show ?thesis
        by (auto simp: views read_moves_def resolve_pending_def split: option.splits)
    qed (use read_loop(1) entry in \<open>simp add: views read_moves_def\<close>)
  next
    case (call_moves i inp c' pc')
    have "call_justified P C (inbox s) (calls s ! i)"
      using inv call_moves(2) by (simp add: calls_inv_def calls_tracked_def)
    then have "call_about (ct_pc (calls s ! i)) \<noteq> Some u"
      using dropped [OF call_moves(2)] call_moves(3) by (auto simp: call_justified_def)
    with call_step_other_entry [OF call_moves(4)] call_moves(1) entry show ?thesis by simp
  qed (auto simp: views_steps ka_step_pend ping_step_pend)
  with entry show ?thesis by (auto simp: views)
qed

subsection \<open>Runs\<close>

lemma entry_survives:
  assumes "engine_runs cfg P C T s t" and "calls_inv P C s"
    and "pending_responses (cl s) u = Some slot"
    and "i < length (calls s)" and "ct_dropped (calls s ! i)"
    and "\<And>j. j < length (calls t) \<Longrightarrow> ct_id (calls t ! j) = u \<Longrightarrow> j = i"
    and "\<And>f r. Frame f \<in> set (drop (length (inbox s)) (inbox t)) \<Longrightarrow> response_for P C f \<noteq> Some (u, r)"
  shows "pending_responses (cl t) u = Some slot"
  using assms(1,6,7)
proof (induction rule: engine_runs.induct)
  case (go t v)
  have runs: "calls_grow (calls s) (calls t)" "\<exists>new. inbox t = inbox s @ new"
    using runs_grow [OF go.hyps(1)] by auto
  have step: "calls_grow (calls t) (calls v)" "\<exists>new. inbox v = inbox t @ new"
    using step_grows [OF go.hyps(2)] by auto
  have alone: "j = i" if "j < length (calls t)" "ct_id (calls t ! j) = u" for j
    using that step(1) go.prems(1) [of j] by (auto simp: calls_grow_def)
  show ?case
  proof (rule entry_survives_step [OF go.hyps(2)])
    show "calls_inv P C t" by (rule calling.kept_by_runs [OF go.hyps(1) assms(2)])
    show "pending_responses (cl t) u = Some slot"
      by (rule go.IH [OF alone]) (use step(2) runs(2) go.prems(2) in auto)
    show "ct_dropped (calls t ! j)" if "j < length (calls t)" "ct_id (calls t ! j) = u" for j
      using alone [OF that] runs(1) assms(4,5) by (auto simp: calls_grow_def)
    show "response_for P C f \<noteq> Some (u, r)" if "Frame f \<in> set (drop (length (inbox t)) (inbox v))" for f r
      using that step(2) runs(2) go.prems(2) by auto
  qed
qed (simp add: assms(3))

text \<open>The call of \<open>demo_schedule\<close>, dropped while it waits, and then the shutdown of its client.\<close>

definition drop_run :: "OCPP1_6Error decision list \<Rightarrow> OCPP1_6Error engine" where
  "drop_run ds = the (perform_all (client_config_new 0) protocol_error_1_6 demo_codec lenient_types
     (take 3 demo_schedule @ DDropCall 0 # ds) (from_transport_with_config (client_config_new 0)))"

lemma drop_run_ends:
  "calls (drop_run []) = [\<lparr>ct_id = 1, ct_action = ''a'', ct_since = 0, ct_pc = CallWaiting 1 0 ''a'', ct_dropped = True\<rparr>]"
  "pending_responses (cl (drop_run [])) 1 = Some 0"
  "inbox (drop_run []) = []"
  "calls (drop_run [DDisconnect, DDisconnectCloses (Ok ())]) = calls (drop_run [])"
  "inbox (drop_run [DDisconnect, DDisconnectCloses (Ok ())]) = []"
  by (simp_all add: drop_run_def demo_schedule_def schedule_eval disconnect_begin_def disconnect_close_def)

lemma drop_run_reach: "demo_reach (drop_run [])"
  unfolding drop_run_def by (rule performed_runs) (simp add: demo_schedule_def schedule_eval)

lemma drop_run_goes_on:
  "engine_runs (client_config_new 0) protocol_error_1_6 demo_codec lenient_types
     (drop_run []) (drop_run [DDisconnect, DDisconnectCloses (Ok ())])"
proof (rule perform_all_runs)
  show "perform_all (client_config_new 0) protocol_error_1_6 demo_codec lenient_types
      [DDisconnect, DDisconnectCloses (Ok ())] (drop_run [])
    = Some (drop_run [DDisconnect, DDisconnectCloses (Ok ())])"
    by (simp add: drop_run_def demo_schedule_def schedule_eval disconnect_begin_def disconnect_close_def)
qed

text \<open>
  C32. A dropped call leaks its entry: once the future of a call is dropped while its entry is in the
  pending table, the entry stays there through every run, a shutdown included, in which no response for
  the call's message id is received and no other call uses that id.
\<close>

theorem dropped_call_leaks_its_entry:
  assumes "engine_reach cfg P C T s" and "engine_runs cfg P C T s t"
    and "i < length (calls s)" and "ct_dropped (calls s ! i)"
    and "call_owner (ct_pc (calls s ! i)) = Some (u, slot)" and "pending_responses (cl s) u = Some slot"
    and "\<And>j. j < length (calls t) \<Longrightarrow> ct_id (calls t ! j) = u \<Longrightarrow> j = i"
    and "\<And>f r. Frame f \<in> set (drop (length (inbox s)) (inbox t)) \<Longrightarrow> response_for P C f \<noteq> Some (u, r)"
  shows "pending_responses (cl t) u = Some slot"
  by (rule entry_survives [OF assms(2) calling.always [OF assms(1)] assms(6,3,4,7,8)])

theorem dropped_call_leaks_its_entry_witness:
  "let s = drop_run []; t = drop_run [DDisconnect, DDisconnectCloses (Ok ())] in
   ct_dropped (calls s ! 0) \<and> closed (cl t) \<and> pending_responses (cl t) 1 = Some 0"
proof -
  have "pending_responses (cl (drop_run [DDisconnect, DDisconnectCloses (Ok ())])) 1 = Some 0"
    by (rule dropped_call_leaks_its_entry [OF drop_run_reach drop_run_goes_on, of 0])
      (auto simp: drop_run_ends)
  moreover have "closed (cl (drop_run [DDisconnect, DDisconnectCloses (Ok ())]))"
    by (simp add: drop_run_def demo_schedule_def schedule_eval disconnect_begin_def disconnect_close_def)
  ultimately show ?thesis by (simp add: drop_run_ends Let_def)
qed

end
