(* ===== verification/Engine_Pings.thy ===== *)
theory Engine_Pings
  imports Engine Waiters
begin

text \<open>
  Pings in the running client: who owns the entries of \<open>pong_waiters\<close>, and which pong a successful ping
  rests on. The owners are the pings in flight, the keepalive task's own ping among them.
\<close>

definition echoes :: "u64 \<Rightarrow> unit \<Rightarrow> transport_event \<Rightarrow> bool" where
  "echoes token u event \<longleftrightarrow> event = Pong (to_be_bytes token)"

fun ping_owner :: "'e ping_pc \<Rightarrow> (u64 \<times> nat) option" where
  "ping_owner (PingRegistered token slot) = Some (token, slot)"
| "ping_owner (PingSendFailed token slot _) = Some (token, slot)"
| "ping_owner (PingWaiting token slot) = Some (token, slot)"
| "ping_owner (PingTimedOut token slot) = Some (token, slot)"
| "ping_owner _ = None"

fun ka_owner :: "'e ka_pc \<Rightarrow> (u64 \<times> nat) option" where
  "ka_owner (KaPinging pc) = ping_owner pc"
| "ka_owner _ = None"

definition ping_waiting :: "'e ping_task \<Rightarrow> u64 waiting" where
  "ping_waiting p = (ping_owner (pt_pc p), pt_since p)"

text \<open>A ping that succeeded: its token came back, eight bytes of it, after it started.\<close>

definition ping_justified :: "transport_event list \<Rightarrow> 'e ping_task \<Rightarrow> bool" where
  "ping_justified events p \<longleftrightarrow>
     (\<forall>token. token_of (pt_pc p) = Some token \<longrightarrow> pt_token p = Some token)
     \<and> (pt_pc p = PingReturned (Ok ()) \<longrightarrow>
          (\<exists>token. pt_token p = Some token \<and> Pong (to_be_bytes token) \<in> set (drop (pt_since p) events)))"

definition pong_tracked ::
  "(u64 \<rightharpoonup> nat) \<times> (nat \<Rightarrow> unit signal) \<times> nat \<Rightarrow> u64 waiting list \<Rightarrow> transport_event list \<Rightarrow> bool" where
  "pong_tracked view ws events \<longleftrightarrow> tracked echoes (fst view) (fst (snd view)) (snd (snd view)) ws events"

definition ping_waiters :: "'e engine \<Rightarrow> u64 waiting list" where
  "ping_waiters s = (ka_owner (ka_pc (ka s)), 0) # map ping_waiting (pings s)"

definition pings_inv :: "'e engine \<Rightarrow> bool" where
  "pings_inv s \<longleftrightarrow> pong_tracked (pong_view (cl s)) (ping_waiters s) (inbox s)
     \<and> (\<forall>p \<in> set (pings s). ping_justified (inbox s) p)"

subsection \<open>What each task does to the table\<close>

lemma ping_step_tracked:
  assumes "pong_tracked (pong_view c) ws events" and "j < length ws" and "fst (ws ! j) = ping_owner pc"
    and "ping_step inp c pc = Some (c', pc')"
  shows "pong_tracked (pong_view c') (ws[j := (ping_owner pc', snd (ws ! j))]) events"
proof -
  have inv: "tracked echoes (pong_waiters c) (pongs c) (next_pong c) ws events"
    using assms(1) by (simp add: pong_tracked_def views)
  have same: "ping_owner pc' = ping_owner pc \<Longrightarrow> ws[j := (ping_owner pc', snd (ws ! j))] = ws"
    using assms(2,3) by (metis list_update_id prod.collapse)
  show ?thesis
  proof (cases pc)
    case PingPrepared
    with tracked_register [OF inv assms(2), of "next_token c"] assms(3,4) show ?thesis
      by (cases inp) (auto simp: pong_tracked_def register_ping_def Let_def views signal_defs)
  next
    case (PingRegistered token slot)
    with inv same assms(4) show ?thesis
      by (cases inp) (auto simp: pong_tracked_def views sink_write_def split: result.splits)
  next
    case (PingSendFailed token slot e)
    with tracked_forget [OF inv assms(2), of token slot] assms(3,4) show ?thesis
      by (cases inp) (auto simp: pong_tracked_def views forget_ping_def)
  next
    case (PingWaiting token slot)
    then obtain expired where wait: "ping_wait expired token slot c = Some (c', pc')"
      using assms(4) by (cases inp) auto
    show ?thesis
    proof (cases "pongs c slot")
      case None
      with wait PingWaiting inv same show ?thesis
        by (auto simp: ping_wait_cases pong_tracked_def views split: if_splits)
    next
      case (Some u)
      with tracked_take [OF inv assms(2), of token slot] wait PingWaiting assms(3) show ?thesis
        by (auto simp: ping_wait_cases pong_tracked_def views)
    qed
  next
    case (PingTimedOut token slot)
    with tracked_forget [OF inv assms(2), of token slot] assms(3,4) show ?thesis
      by (cases inp) (auto simp: pong_tracked_def views forget_ping_def)
  next
    case (PingReturned r)
    with assms(4) show ?thesis by (cases inp) auto
  qed
qed

lemma ping_step_succeeds:
  assumes "ping_step inp c pc = Some (c', PingReturned (Ok ()))"
  obtains token slot where "pc = PingWaiting token slot" and "pongs c slot = Some ()"
proof -
  have "\<exists>token slot. pc = PingWaiting token slot \<and> pongs c slot = Some ()"
    using assms by (cases pc; cases inp)
      (auto simp: ping_wait_cases register_ping_def Let_def split: option.splits if_splits result.splits)
  then show thesis using that by blast
qed

lemma ping_step_token:
  "ping_step inp c pc = Some (c', pc') \<Longrightarrow> token_of pc = Some token \<Longrightarrow>
     token_of pc' = Some token \<or> token_of pc' = None"
  by (cases pc; cases inp)
    (auto simp: ping_wait_cases register_ping_def Let_def split: option.splits if_splits result.splits)

lemma ka_step_pong:
  assumes "ka_step inp c k = Some (c', k')"
  shows "(\<exists>pc ti pc'. ka_pc k = KaPinging pc \<and> ka_pc k' = KaPinging pc' \<and> ping_step ti c pc = Some (c', pc'))
    \<or> (pong_view c' = pong_view c \<and> ka_owner (ka_pc k) = None \<and> ka_owner (ka_pc k') = None)"
  using assms
  by (auto simp: ka_step_def ka_at_ping_def ka_reconfigured_def take_changed_cases ka_finish_def
      client_force_reconnect_def views ka_at_top_def ka_at_awake_def ping_start_def
      split: ka_pc.splits ka_input.splits ping_pc.splits option.splits if_splits prod.splits)

lemma call_step_pong: "call_step T inp c pc = Some (c', pc') \<Longrightarrow> pong_view c' = pong_view c"
  by (erule call_step_SomeE)
    (auto simp: call_wait_cases register_pending_def forget_pending_def sink_write_def views Let_def
      split: option.splits if_splits)

lemma route_frame_pong [simp]: "pong_view (fst (route_frame P C f c)) = pong_view c"
proof -
  have "pong_view (route_result C r c) = pong_view c" for r by (cases r) (simp split: option.split)
  moreover have "pong_view (route_error P C e c) = pong_view c" for e by (cases e) (simp split: option.split)
  ultimately show ?thesis by (simp add: route_frame_def route_typed_def split: classified.split option.split)
qed

lemma read_event_pong:
  "read_event P C ev c = (c', pc) \<Longrightarrow>
     pong_view c' = (case ev of Pong payload \<Rightarrow> pong_view (resolve_pong payload c) | _ \<Rightarrow> pong_view c)"
  using route_frame_pong [of P C _ c] by (cases ev) (auto simp: split_beta, simp add: views)

lemma read_task_pong:
  assumes "read_task cfg P C inp c l = Some (c', l')"
  shows "pong_view c' = pong_view c \<or> pong_view c' = pong_view (clear_pong_waiters c)
    \<or> (\<exists>payload. inp = RecvEvent (Pong payload) \<and> pong_view c' = pong_view (resolve_pong payload c))"
proof (cases "\<exists>ev. rl_pc l = Reading \<and> inp = RecvEvent ev")
  case True
  then obtain ev pc where "read_event P C ev c = (c', pc)" "inp = RecvEvent ev"
    using assms by (auto simp: read_defs split: prod.splits)
  with read_event_pong [OF this(1)] show ?thesis by (auto split: transport_event.splits)
next
  case False
  with assms show ?thesis
    by (auto simp: read_defs take_wake_cases Let_def split: read_splits) (auto simp: views)
qed

subsection \<open>The invariant\<close>

lemma ping_justified_more: "ping_justified events p \<Longrightarrow> ping_justified (events @ later) p"
  unfolding ping_justified_def by fastforce

lemma pong_tracked_more: "pong_tracked view ws events \<Longrightarrow> pong_tracked view ws (events @ later)"
  by (auto simp: pong_tracked_def intro: tracked_more)

lemma pong_tracked_resolve:
  assumes "pong_tracked (pong_view c) ws events"
  shows "pong_tracked (pong_view (resolve_pong payload c)) ws (events @ [Pong payload])"
proof (cases "\<exists>token slot. try_u64_of_slice payload = Some token \<and> pong_waiters c token = Some slot")
  case True
  then obtain token slot where hit: "try_u64_of_slice payload = Some token" "pong_waiters c token = Some slot"
    by blast
  have "echoes token () (Pong payload)"
    using hit(1) by (auto simp: echoes_def try_u64_of_slice_def to_from_be_bytes split: if_splits)
  from tracked_resolve [of echoes "pong_waiters c", OF _ hit(2) this] assms show ?thesis
    by (simp add: pong_tracked_def views resolve_pong_def hit signal_defs)
next
  case False
  then have "resolve_pong payload c = c" by (auto simp: resolve_pong_def split: option.split)
  with assms pong_tracked_more show ?thesis by simp
qed

lemma pong_tracked_clear:
  "pong_tracked (pong_view c) ws events \<Longrightarrow> pong_tracked (pong_view (clear_pong_waiters c)) ws events"
  by (auto simp: pong_tracked_def views clear_pong_waiters_def intro: tracked_clear)

lemma ping_justified_move:
  assumes "pong_tracked (pong_view c) ws events" and "j < length ws"
    and "ws ! j = (ping_owner (pt_pc p), pt_since p)" and "ping_justified events p"
    and "ping_step inp c (pt_pc p) = Some (c', pc')"
  shows "ping_justified events (ping_moves pc' p)"
proof -
  have "\<exists>token. pt_token (ping_moves pc' p) = Some token
      \<and> Pong (to_be_bytes token) \<in> set (drop (pt_since p) events)" if "pc' = PingReturned (Ok ())"
  proof -
    obtain token slot where at: "pt_pc p = PingWaiting token slot" "pongs c slot = Some ()"
      using ping_step_succeeds assms(5) \<open>pc' = PingReturned (Ok ())\<close> by metis
    have "tracked echoes (pong_waiters c) (pongs c) (next_pong c) ws events"
      using assms(1) by (simp add: pong_tracked_def views)
    from tracked_evidence [OF this assms(2), of token slot "()"] at assms(3)
    have "Pong (to_be_bytes token) \<in> set (drop (pt_since p) events)" by (auto simp: echoes_def)
    moreover have "pt_token p = Some token" using assms(4) at by (simp add: ping_justified_def)
    ultimately show ?thesis using \<open>pc' = PingReturned (Ok ())\<close> by (simp add: ping_moves_def)
  qed
  then show ?thesis by (simp add: ping_justified_def ping_moves_def split: option.split)
qed

lemma pings_inv_ping_moves:
  assumes "pings_inv s" and "i < length (pings s)"
    and "ping_step inp (cl s) (pt_pc (pings s ! i)) = Some (c', pc')"
  shows "pings_inv (s\<lparr>cl := c', pings := (pings s)[i := ping_moves pc' (pings s ! i)]\<rparr>)"
proof -
  let ?p = "pings s ! i"
  have inv: "pong_tracked (pong_view (cl s)) (ping_waiters s) (inbox s)"
    and just: "ping_justified (inbox s) ?p"
    using assms(1,2) by (auto simp: pings_inv_def)
  have at: "Suc i < length (ping_waiters s)" "ping_waiters s ! Suc i = (ping_owner (pt_pc ?p), pt_since ?p)"
    using assms(2) by (simp_all add: ping_waiters_def ping_waiting_def)
  have "ping_waiters (s\<lparr>cl := c', pings := (pings s)[i := ping_moves pc' ?p]\<rparr>)
      = (ping_waiters s)[Suc i := (ping_owner pc', pt_since ?p)]"
    by (simp add: ping_waiters_def map_update ping_waiting_def ping_moves_def)
  with ping_step_tracked [OF inv at(1) _ assms(3)] at(2)
    ping_justified_move [OF inv at just assms(3)] assms(1)
  show ?thesis by (auto simp: pings_inv_def dest!: set_update_subset_insert [THEN subsetD])
qed

lemma pings_inv_keepalive:
  assumes "pings_inv s" and "ka_step inp (cl s) (ka s) = Some (c', k')"
  shows "pings_inv (s\<lparr>cl := c', ka := k'\<rparr>)"
  using ka_step_pong [OF assms(2)]
proof (elim disjE exE conjE)
  fix pc ti pc'
  assume a: "ka_pc (ka s) = KaPinging pc" "ka_pc k' = KaPinging pc'" "ping_step ti (cl s) pc = Some (c', pc')"
  have inv: "pong_tracked (pong_view (cl s)) (ping_waiters s) (inbox s)"
    using assms(1) by (simp add: pings_inv_def)
  from ping_step_tracked [OF inv _ _ a(3), of 0] a(1,2) assms(1) show ?thesis
    by (simp add: pings_inv_def ping_waiters_def)
qed (use assms in \<open>auto simp: pings_inv_def ping_waiters_def\<close>)

lemma pings_inv_kept:
  assumes "engine_step cfg P C T s t" and "pings_inv s"
  shows "pings_inv t"
  using assms
proof (cases rule: engine_step.cases)
  case (read_loop inp c' l')
  have later: "pong_tracked (pong_view (cl s)) (ping_waiters s) (inbox s @ received inp)"
    and just: "\<forall>p \<in> set (pings s). ping_justified (inbox s @ received inp) p"
    using assms(2) by (auto simp: pings_inv_def intro: pong_tracked_more ping_justified_more)
  from read_task_pong [OF read_loop(2)] later assms(2)
  have "pong_tracked (pong_view c') (ping_waiters s) (inbox s @ received inp)"
    by (auto simp: pings_inv_def intro: pong_tracked_resolve pong_tracked_clear)
  with read_loop(1) just show ?thesis by (simp add: pings_inv_def ping_waiters_def)
next
  case (keepalive_task inp c' k')
  with pings_inv_keepalive assms(2) show ?thesis by blast
next
  case send_ping
  have "ping_owner (ping_start (cl s)) = None"
    "ping_justified (inbox s) \<lparr>pt_since = length (inbox s), pt_token = None, pt_pc = ping_start (cl s), pt_dropped = False\<rparr>"
    by (auto simp: ping_start_def ping_justified_def)
  with send_ping tracked_new [of echoes _ _ _ "ping_waiters s" "inbox s" "length (inbox s)"] assms(2)
  show ?thesis by (auto simp: pings_inv_def pong_tracked_def ping_waiters_def ping_waiting_def)
next
  case (ping_moves i inp c' pc')
  with pings_inv_ping_moves assms(2) show ?thesis by blast
next
  case (drop_ping i)
  then have "ping_waiters t = ping_waiters s"
    by (simp add: ping_waiters_def map_update ping_waiting_def list_update_same_conv)
  moreover have "ping_justified (inbox s) x" if "x \<in> set (pings t)" for x
    using that drop_ping assms(2) nth_mem [of i "pings s"]
    by (auto simp: pings_inv_def ping_justified_def dest!: set_update_subset_insert [THEN subsetD])
  ultimately show ?thesis using drop_ping assms(2) by (simp add: pings_inv_def)
qed (auto simp: pings_inv_def ping_waiters_def views_steps call_step_pong)

interpretation pinging: engine_invariant cfg P C T pings_inv for cfg P C T
proof unfold_locales
  show "pings_inv (from_transport_with_config cfg)"
    by (simp add: pings_inv_def pong_tracked_def ping_waiters_def from_transport_with_config_def new_client_def
        ka_start_def views tracked_def)
qed (rule pings_inv_kept)

subsection \<open>Properties\<close>

text \<open>
  A ping answered by its peer, and then an unrelated pong, as a schedule of the engine.
\<close>

definition ping_schedule :: "OCPP1_6Error decision list" where
  "ping_schedule =
     [DSendPing, DPingMoves 0 Proceed, DPingMoves 0 (SinkAnswers (Ok ())),
      DRead (RecvEvent (Pong (to_be_bytes 0))), DPingMoves 0 Proceed]"

definition ping_run :: "codec \<Rightarrow> payload_types \<Rightarrow> nat \<Rightarrow> OCPP1_6Error engine" where
  "ping_run C T n = the (perform_all (client_config_new 0) protocol_error_1_6 C T
     (take n ping_schedule) (from_transport_with_config (client_config_new 0)))"

lemma ping_reach:
  "engine_reach (client_config_new 0) protocol_error_1_6 C T (ping_run C T 3)"
  "engine_reach (client_config_new 0) protocol_error_1_6 C T (ping_run C T 5)"
  unfolding ping_run_def by (rule performed_runs, simp add: ping_schedule_def schedule_eval)+

lemma ping_answered:
  "pings (ping_run C T 5) = [\<lparr>pt_since = 0, pt_token = Some 0, pt_pc = PingReturned (Ok ()), pt_dropped = False\<rparr>]"
  by (simp add: ping_run_def ping_schedule_def schedule_eval)

lemma ping_pending:
  "pong_waiters (cl (ping_run C T 3)) 0 = Some 0"
  "ka_pc (ka (ping_run C T 3)) = KaTop" "length (pings (ping_run C T 3)) = 1"
  by (simp_all add: ping_run_def ping_schedule_def schedule_eval)

text \<open>
  C17. A ping succeeds only on its own pong: in any interleaving, when \<open>send_ping\<close> returns \<open>Ok\<close>, a pong
  echoing exactly the eight bytes of the token this ping sent arrived after the ping started. A pong
  for another ping, a late one or an unsolicited one never completes it.
\<close>

theorem ping_confirmed_by_its_own_pong:
  assumes "engine_reach cfg P C T s" and "p \<in> set (pings s)" and "pt_pc p = PingReturned (Ok ())"
  shows "\<exists>token. pt_token p = Some token \<and> Pong (to_be_bytes token) \<in> set (drop (pt_since p) (inbox s))"
  using pinging.always [OF assms(1)] assms(2,3) by (simp add: pings_inv_def ping_justified_def)

theorem ping_confirmed_by_its_own_pong_witness:
  "let s = ping_run (table_codec []) lenient_types 5 in
   \<exists>p \<in> set (pings s). pt_pc p = PingReturned (Ok ()) \<and> Pong (to_be_bytes 0) \<in> set (drop (pt_since p) (inbox s))"
  using ping_confirmed_by_its_own_pong [OF ping_reach(2) [of "table_codec []" lenient_types]]
  by (simp add: ping_answered)

text \<open>
  C18. No ping that returns leaves a waiter behind: every entry belongs to a ping that has registered it
  and has not returned, the keepalive task's own ping and the pings whose futures were dropped included,
  so there are never more entries than such pings.
\<close>

theorem pong_entries_belong_to_live_pings:
  assumes "engine_reach cfg P C T s"
  shows "(\<forall>token slot. pong_waiters (cl s) token = Some slot \<longrightarrow>
      ka_owner (ka_pc (ka s)) = Some (token, slot)
      \<or> (\<exists>p \<in> set (pings s). ping_owner (pt_pc p) = Some (token, slot)))
    \<and> pending_ping_count (cl s) \<le>
      (if ka_owner (ka_pc (ka s)) = None then 0 else 1)
      + length (filter (\<lambda>p. ping_owner (pt_pc p) \<noteq> None) (pings s))"
proof -
  have inv: "tracked echoes (pong_waiters (cl s)) (pongs (cl s)) (next_pong (cl s)) (ping_waiters s) (inbox s)"
    using pinging.always [OF assms] by (simp add: pings_inv_def pong_tracked_def views)
  have "ka_owner (ka_pc (ka s)) = Some (token, slot) \<or> (\<exists>p \<in> set (pings s). ping_owner (pt_pc p) = Some (token, slot))"
    if entry: "pong_waiters (cl s) token = Some slot" for token slot
  proof -
    obtain w where "w \<in> set (ping_waiters s)" "fst w = Some (token, slot)"
      using tracked_owner [OF inv entry] nth_mem by blast
    then show ?thesis by (auto simp: ping_waiters_def ping_waiting_def)
  qed
  with tracked_count [OF inv] show ?thesis
    by (cases "ka_owner (ka_pc (ka s))")
      (simp_all add: pending_ping_count_def ping_waiters_def filter_map comp_def ping_waiting_def)
qed

theorem pong_entries_belong_to_live_pings_witness:
  "let s = ping_run (table_codec []) lenient_types 3 in
   pong_waiters (cl s) 0 = Some 0 \<and> pending_ping_count (cl s) \<le> 1"
proof -
  let ?s = "ping_run (table_codec []) lenient_types 3"
  have "length (filter (\<lambda>p. ping_owner (pt_pc p) \<noteq> None) (pings ?s)) \<le> 1"
    using length_filter_le [of _ "pings ?s"] ping_pending(3) [of "table_codec []" lenient_types] by metis
  with pong_entries_belong_to_live_pings [OF ping_reach(1) [of "table_codec []" lenient_types]]
  show ?thesis by (simp add: ping_pending)
qed

end
