(* ===== verification/Mailroom.thy ===== *)
theory Mailroom
  imports Handlers
begin

text \<open>
  What the handler machinery promises, as an abstract specification: a mail room with a book that binds
  each action to a box, boxes that are the channels of \<open>Sync\<close>, one reader per box, and a carrier that
  looks a box up in the book and posts to it later. The CALL side and the SEND side of the running
  client are both shown to implement it (\<open>Engine_Handlers\<close>).

  \<open>posted\<close> is what was put into each box so far, in order, and \<open>rd_taken\<close> what a reader took out.
\<close>

datatype reader_pc = Looking | Asleep | Busy | Gone

record 'm reader =
  rd_action :: string
  rd_box :: nat
  rd_pc :: reader_pc
  rd_taken :: "'m list"

record 'm mailroom =
  book :: "string \<rightharpoonup> nat"
  boxes :: "nat \<Rightarrow> 'm chan"
  next_box :: nat
  addressed :: "(nat \<times> 'm) option"
  posted :: "(nat \<times> 'm) list"
  readers :: "'m reader list"

definition open_box :: "string \<Rightarrow> 'm mailroom \<Rightarrow> 'm mailroom" where
  "open_box a r =
     r\<lparr>book := (book r)(a \<mapsto> next_box r),
       boxes := (let m = (boxes r)(next_box r := chan_new) in
         case book r a of None \<Rightarrow> m | Some p \<Rightarrow> m(p := chan_close (m p))),
       next_box := Suc (next_box r),
       readers := readers r @ [\<lparr>rd_action = a, rd_box = next_box r, rd_pc = Looking, rd_taken = []\<rparr>]\<rparr>"

definition set_box :: "nat \<Rightarrow> 'm chan \<Rightarrow> 'm mailroom \<Rightarrow> 'm mailroom" where
  "set_box n b r = r\<lparr>boxes := (boxes r)(n := b)\<rparr>"

definition set_reader :: "nat \<Rightarrow> 'm reader \<Rightarrow> 'm mailroom \<Rightarrow> 'm mailroom" where
  "set_reader i d r = r\<lparr>readers := (readers r)[i := d]\<rparr>"

text \<open>
  A reader looks into its box: it takes the oldest item and works on it (or drops it and looks again),
  leaves when the box is closed and empty, and goes to sleep when it is merely empty.
\<close>

fun looked :: "'m chan \<Rightarrow> 'm reader \<Rightarrow> reader_pc \<Rightarrow> bool" where
  "looked b d pc \<longleftrightarrow>
     (if queue b \<noteq> [] then pc = Busy \<or> pc = Looking
      else if is_closed_chan b then pc = Gone else pc = Asleep)"

inductive room_step :: "'m mailroom \<Rightarrow> 'm mailroom \<Rightarrow> bool" where
  register: "room_step r (open_box a r)"
| look_up: "addressed r = None \<Longrightarrow> book r a = Some n \<Longrightarrow> room_step r (r\<lparr>addressed := Some (n, m)\<rparr>)"
| post: "addressed r = Some (n, m) \<Longrightarrow>
    room_step r (set_box n (chan_send m (boxes r n)) r\<lparr>addressed := None, posted := posted r @ [(n, m)]\<rparr>)"
| look: "i < length (readers r) \<Longrightarrow> d = readers r ! i \<Longrightarrow> rd_pc d = Looking \<Longrightarrow> b = boxes r (rd_box d) \<Longrightarrow>
    looked b d pc \<Longrightarrow>
    room_step r (set_box (rd_box d) (b\<lparr>queue := tl (queue b)\<rparr>)
      (set_reader i (d\<lparr>rd_pc := pc, rd_taken := rd_taken d @ take 1 (queue b)\<rparr>) r))"
| wake: "i < length (readers r) \<Longrightarrow> d = readers r ! i \<Longrightarrow> rd_pc d = Asleep \<Longrightarrow> b = boxes r (rd_box d) \<Longrightarrow>
    wakeup b = Some () \<Longrightarrow>
    room_step r (set_box (rd_box d) (b\<lparr>wakeup := None\<rparr>) (set_reader i (d\<lparr>rd_pc := Looking\<rparr>) r))"
| finish: "i < length (readers r) \<Longrightarrow> d = readers r ! i \<Longrightarrow> rd_pc d = Busy \<Longrightarrow>
    room_step r (set_reader i (d\<lparr>rd_pc := Looking\<rparr>) r)"

definition posted_to :: "nat \<Rightarrow> 'm mailroom \<Rightarrow> 'm list" where
  "posted_to n r = map snd (filter (\<lambda>p. fst p = n) (posted r))"

text \<open>
  The state of one reader: nothing is lost or reordered between the box and its reader, a sleeping
  reader with mail (or a closed box) has been signalled, and only a closed box loses its reader.
\<close>

definition reader_ok :: "'m mailroom \<Rightarrow> 'm reader \<Rightarrow> bool" where
  "reader_ok r d \<longleftrightarrow>
     rd_box d < next_box r
     \<and> posted_to (rd_box d) r = rd_taken d @ queue (boxes r (rd_box d))
     \<and> (rd_pc d = Asleep \<and> (queue (boxes r (rd_box d)) \<noteq> [] \<or> is_closed_chan (boxes r (rd_box d)))
         \<longrightarrow> wakeup (boxes r (rd_box d)) = Some ())
     \<and> (rd_pc d = Gone \<longrightarrow> is_closed_chan (boxes r (rd_box d)))"

definition attended :: "'m mailroom \<Rightarrow> bool" where
  "attended r \<longleftrightarrow> (\<forall>a n. book r a = Some n \<longrightarrow>
     \<not> is_closed_chan (boxes r n) \<and> (\<exists>d \<in> set (readers r). rd_action d = a \<and> rd_box d = n))"

definition room_inv :: "'m mailroom \<Rightarrow> bool" where
  "room_inv r \<longleftrightarrow>
     well_registered (book r) (next_box r)
     \<and> (\<forall>n m. addressed r = Some (n, m) \<longrightarrow> n < next_box r)
     \<and> (\<forall>p \<in> set (posted r). fst p < next_box r)
     \<and> distinct (map rd_box (readers r))
     \<and> (\<forall>d \<in> set (readers r). reader_ok r d)
     \<and> attended r"

definition empty_room :: "'m mailroom" where
  "empty_room = \<lparr>book = Map.empty, boxes = (\<lambda>_. chan_new), next_box = 0, addressed = None,
     posted = [], readers = []\<rparr>"

subsection \<open>Opening a box\<close>

interpretation room: handler_registry book boxes next_box "\<lambda>a r. (next_box r, open_box a r)"
  by unfold_locales (simp_all add: open_box_def)

lemma open_box_simps [simp]:
  "addressed (open_box a r) = addressed r" "posted (open_box a r) = posted r"
  "next_box (open_box a r) = Suc (next_box r)" "book (open_box a r) = (book r)(a \<mapsto> next_box r)"
  "readers (open_box a r) =
     readers r @ [\<lparr>rd_action = a, rd_box = next_box r, rd_pc = Looking, rd_taken = []\<rparr>]"
  by (simp_all add: open_box_def)

lemma posted_to_open [simp]: "posted_to n (open_box a r) = posted_to n r"
  by (simp add: posted_to_def)

lemma posted_to_fresh:
  assumes "\<forall>p \<in> set (posted r). fst p < next_box r"
  shows "posted_to (next_box r) r = []"
  using assms by (auto simp: posted_to_def filter_empty_conv)

text \<open>An old box keeps its contents; it is closed or left as it is.\<close>

lemma open_box_old:
  assumes "n < next_box r"
  shows "boxes (open_box a r) n = (if book r a = Some n then chan_close (boxes r n) else boxes r n)"
  using assms by (auto simp: room.register_chans [unfolded snd_conv] Let_def split: option.split)

lemma reader_ok_open:
  assumes "reader_ok r d"
  shows "reader_ok (open_box a r) d"
proof -
  have "rd_box d < next_box r" using assms by (simp add: reader_ok_def)
  with assms open_box_old [OF this] show ?thesis
    by (auto simp: reader_ok_def chan_close_def chan_wake_def chan_mark_closed_def signal_put_def)
qed

lemma attended_open:
  assumes "room_inv r"
  shows "attended (open_box a r)"
  unfolding attended_def
proof (intro allI impI)
  fix b n assume b: "book (open_box a r) b = Some n"
  have well: "well_registered (book r) (next_box r)" using assms by (simp add: room_inv_def)
  show "\<not> is_closed_chan (boxes (open_box a r) n)
    \<and> (\<exists>d \<in> set (readers (open_box a r)). rd_action d = b \<and> rd_box d = n)"
  proof (cases "b = a")
    case True
    with b room.registered_is_fresh [OF well, of a] show ?thesis by (auto simp: chan_new_def)
  next
    case False
    with b have old: "book r b = Some n" by simp
    with room.others_untouched [OF well old False [symmetric]] assms show ?thesis
      by (auto simp: room_inv_def attended_def)
  qed
qed

lemma room_inv_open:
  assumes "room_inv r"
  shows "room_inv (open_box a r)"
proof -
  have well: "well_registered (book r) (next_box r)" and fresh: "\<forall>p \<in> set (posted r). fst p < next_box r"
    and old: "\<forall>d \<in> set (readers r). reader_ok r d"
    using assms by (simp_all add: room_inv_def)
  let ?new = "\<lparr>rd_action = a, rd_box = next_box r, rd_pc = Looking, rd_taken = []\<rparr>"
  have "reader_ok (open_box a r) ?new"
    using room.registered_is_fresh [OF well, of a] posted_to_fresh [OF fresh]
    by (simp add: reader_ok_def chan_new_def)
  moreover have "next_box r \<notin> rd_box ` set (readers r)"
    using old by (auto simp: reader_ok_def)
  ultimately show ?thesis
    using assms room.register_well [OF well, of a] attended_open [OF assms]
    by (auto simp: room_inv_def reader_ok_open less_Suc_eq)
qed

subsection \<open>Posting and reading\<close>

text \<open>Replacing one box leaves the readers of the others alone.\<close>

lemma reader_ok_other:
  assumes "reader_ok r d" and "rd_box d \<noteq> n" and "next_box t = next_box r"
    and "boxes t = (boxes r)(n := b)" and "posted_to (rd_box d) t = posted_to (rd_box d) r"
  shows "reader_ok t d"
  using assms by (simp add: reader_ok_def)

lemma attended_kept:
  assumes "attended r" and "book t = book r" and "\<forall>n. is_closed_chan (boxes t n) = is_closed_chan (boxes r n)"
    and "map (\<lambda>d. (rd_action d, rd_box d)) (readers t) = map (\<lambda>d. (rd_action d, rd_box d)) (readers r)"
  shows "attended t"
proof -
  have "(\<lambda>d. (rd_action d, rd_box d)) ` set (readers t) = (\<lambda>d. (rd_action d, rd_box d)) ` set (readers r)"
    using assms(4) by (metis set_map)
  then have "(\<exists>d \<in> set (readers t). rd_action d = a \<and> rd_box d = n)
      \<longleftrightarrow> (\<exists>d \<in> set (readers r). rd_action d = a \<and> rd_box d = n)" for a n
    by (auto simp: image_iff set_eq_iff) (metis prod.inject)+
  with assms show ?thesis by (simp add: attended_def)
qed

lemma room_inv_post:
  assumes "room_inv r" and "addressed r = Some (n, m)"
  shows "room_inv (set_box n (chan_send m (boxes r n)) r\<lparr>addressed := None, posted := posted r @ [(n, m)]\<rparr>)"
    (is "room_inv ?t")
proof -
  have "reader_ok ?t d" if d: "d \<in> set (readers r)" for d
  proof (cases "rd_box d = n")
    case True
    with d assms show ?thesis
      by (auto simp: room_inv_def reader_ok_def set_box_def posted_to_def chan_send_def chan_wake_def
          chan_push_def signal_put_def)
  next
    case False
    have "reader_ok r d" using d assms(1) by (simp add: room_inv_def)
    then show ?thesis
      by (rule reader_ok_other [OF _ False, where b = "chan_send m (boxes r n)"])
        (use False in \<open>auto simp: set_box_def posted_to_def\<close>)
  qed
  moreover have "attended ?t"
    by (rule attended_kept [of r]) (use assms in \<open>auto simp: room_inv_def set_box_def\<close>)
  ultimately show ?thesis using assms by (auto simp: room_inv_def set_box_def)
qed

text \<open>
  A reader's own step: it changes its own entry and its own box, keeps the box's closed flag, and what
  it takes is what leaves the queue.
\<close>

lemma room_inv_reader:
  assumes "room_inv r" and "i < length (readers r)" and "d = readers r ! i"
    and "rd_action e = rd_action d" and "rd_box e = rd_box d"
    and "is_closed_chan b = is_closed_chan (boxes r (rd_box d))"
    and "rd_taken e @ queue b = rd_taken d @ queue (boxes r (rd_box d))"
    and "rd_pc e = Asleep \<longrightarrow> queue b = [] \<and> \<not> is_closed_chan b"
    and "rd_pc e = Gone \<longrightarrow> is_closed_chan b"
  shows "room_inv (set_box (rd_box d) b (set_reader i e r))" (is "room_inv ?t")
proof -
  have mem: "d \<in> set (readers r)" using assms(2,3) by simp
  have same: "map f (readers ?t) = map f (readers r)" if "f e = f d" for f :: "'a reader \<Rightarrow> 'b"
    using assms(2,3) that by (simp add: set_box_def set_reader_def map_update list_update_same_conv)
  have keys: "map (\<lambda>d. (rd_action d, rd_box d)) (readers ?t) = map (\<lambda>d. (rd_action d, rd_box d)) (readers r)"
    by (rule same) (simp add: assms(4,5))
  have posts: "posted_to k ?t = posted_to k r" for k
    by (simp add: posted_to_def set_box_def set_reader_def)
  have "reader_ok ?t x" if x: "x \<in> set (readers ?t)" for x
  proof (cases "x = e")
    case True
    have "reader_ok r d" using mem assms(1) by (simp add: room_inv_def)
    with True assms(5-9) posts show ?thesis
      by (auto simp: reader_ok_def) (auto simp: set_box_def set_reader_def)
  next
    case False
    obtain j where "j < length (readers r)" "x = (readers r)[i := e] ! j"
      using x by (auto simp: set_box_def set_reader_def in_set_conv_nth)
    with False have j: "j < length (readers r)" "x = readers r ! j" "j \<noteq> i"
      using assms(2) by (auto simp: nth_list_update split: if_splits)
    then have other: "rd_box x \<noteq> rd_box d"
      using assms(1-3) by (auto simp: room_inv_def distinct_conv_nth)
    have "reader_ok r x" using j assms(1) by (simp add: room_inv_def)
    then show ?thesis
      by (rule reader_ok_other [OF _ other, where b = b]) (simp_all add: posts, simp_all add: set_box_def set_reader_def)
  qed
  moreover have "attended ?t"
    by (rule attended_kept [OF _ _ _ keys])
      (use assms(1,6) in \<open>auto simp: room_inv_def set_box_def set_reader_def\<close>)
  moreover have "distinct (map rd_box (readers ?t))"
    using assms(1) same [of rd_box, OF assms(5)] by (simp add: room_inv_def)
  ultimately show ?thesis using assms(1) by (auto simp: room_inv_def set_box_def set_reader_def)
qed

lemma room_step_inv: "room_step r t \<Longrightarrow> room_inv r \<Longrightarrow> room_inv t"
proof (induction rule: room_step.induct)
  case (register r a)
  then show ?case by (rule room_inv_open)
next
  case (look_up r a n m)
  have "n < next_box r" using look_up by (auto simp: room_inv_def well_registered_def)
  with look_up show ?case by (auto simp: room_inv_def reader_ok_def attended_def posted_to_def)
next
  case (post r n m)
  then show ?case by (simp add: room_inv_post)
next
  case (look i r d b pc)
  show ?case
    by (rule room_inv_reader [OF look(6,1,2)])
      ((use look in \<open>cases "queue b"; auto split: if_splits\<close>)+)
next
  case (wake i r d b)
  then show ?case by (intro room_inv_reader) auto
next
  case (finish i r d)
  have "set_reader i (d\<lparr>rd_pc := Looking\<rparr>) r
      = set_box (rd_box d) (boxes r (rd_box d)) (set_reader i (d\<lparr>rd_pc := Looking\<rparr>) r)"
    by (simp add: set_box_def set_reader_def)
  also have "room_inv \<dots>" using finish by (intro room_inv_reader) auto
  finally show ?case .
qed

lemma room_inv_empty: "room_inv empty_room"
  by (simp add: empty_room_def room_inv_def well_registered_def attended_def)

subsection \<open>A refinement contract\<close>

text \<open>
  An implementation of the mail room: a transition system with a view of its states as mail rooms,
  each of whose steps is a step of the mail room or invisible to it.
\<close>

locale mailroom_refinement =
  fixes step :: "'s \<Rightarrow> 's \<Rightarrow> bool" and runs :: "'s \<Rightarrow> bool" and view :: "'s \<Rightarrow> 'm mailroom"
  assumes simulates: "step s t \<Longrightarrow> view t = view s \<or> room_step (view s) (view t)"
    and runs_induct: "runs s \<Longrightarrow> (\<And>s. view s = empty_room \<Longrightarrow> Q s) \<Longrightarrow>
      (\<And>s t. Q s \<Longrightarrow> step s t \<Longrightarrow> Q t) \<Longrightarrow> Q s"
begin

lemma view_inv: "runs s \<Longrightarrow> room_inv (view s)"
  by (erule runs_induct) (auto simp: room_inv_empty dest: simulates room_step_inv)

lemma nothing_lost:
  assumes "runs s" and "d \<in> set (readers (view s))"
  shows "posted_to (rd_box d) (view s) = rd_taken d @ queue (boxes (view s) (rd_box d))"
  using view_inv [OF assms(1)] assms(2) by (auto simp: room_inv_def reader_ok_def)

lemma not_overslept:
  assumes "runs s" and "d \<in> set (readers (view s))" and "rd_pc d = Asleep"
    and "queue (boxes (view s) (rd_box d)) \<noteq> [] \<or> is_closed_chan (boxes (view s) (rd_box d))"
  shows "wakeup (boxes (view s) (rd_box d)) = Some ()"
  using view_inv [OF assms(1)] assms(2-4) by (auto simp: room_inv_def reader_ok_def)

lemma bound_is_attended:
  assumes "runs s" and "book (view s) a = Some n"
  shows "\<not> is_closed_chan (boxes (view s) n)
    \<and> (\<exists>d \<in> set (readers (view s)). rd_action d = a \<and> rd_box d = n \<and> rd_pc d \<noteq> Gone)"
proof -
  have inv: "room_inv (view s)" by (rule view_inv [OF assms(1)])
  obtain d where d: "d \<in> set (readers (view s))" "rd_action d = a" "rd_box d = n"
    "\<not> is_closed_chan (boxes (view s) n)"
    using inv assms(2) unfolding room_inv_def attended_def by blast
  moreover have "reader_ok (view s) d" using inv d(1) by (simp add: room_inv_def)
  ultimately have "rd_pc d \<noteq> Gone" by (auto simp: reader_ok_def)
  with d show ?thesis by blast
qed

end

end
