(* ===== verification/Engine_Handlers.thy ===== *)
theory Engine_Handlers
  imports Engine Mailroom "HOL-Library.Sublist"
begin

text \<open>
  The handlers of the running client: the CALL side and the SEND side both implement the mail room of
  \<open>Mailroom\<close>, so that whatever the interleaving every message reaches its handler once and in order, no
  handler oversleeps, and an action that is bound has a live handler. On top of it, what a handler
  task puts on the wire for the CALLs it took.
\<close>

subsection \<open>The two mail rooms\<close>

fun handler_status :: "'e handler_pc \<Rightarrow> reader_pc" where
  "handler_status HChecking = Looking"
| "handler_status HParked = Asleep"
| "handler_status (HCalling _ _) = Busy"
| "handler_status (HReplying _ _) = Busy"
| "handler_status HEnded = Gone"

fun notifier_status :: "notification_pc \<Rightarrow> reader_pc" where
  "notifier_status NChecking = Looking"
| "notifier_status NParked = Asleep"
| "notifier_status (NCalling _) = Busy"
| "notifier_status NEnded = Gone"

definition handler_reader :: "'e handler_task \<Rightarrow> (string \<times> json) reader" where
  "handler_reader h = \<lparr>rd_action = ht_action h, rd_box = ht_chan h, rd_pc = handler_status (ht_pc h),
     rd_taken = map fst (ht_log h) @ ht_hand h\<rparr>"

definition notifier_reader :: "notifier_task \<Rightarrow> json reader" where
  "notifier_reader n = \<lparr>rd_action = nt_action n, rd_box = nt_chan n, rd_pc = notifier_status (nt_pc n),
     rd_taken = nt_taken n\<rparr>"

fun call_address :: "read_pc \<Rightarrow> (nat \<times> (string \<times> json)) option" where
  "call_address (Dispatching (ToHandler chan m)) = Some (chan, m)"
| "call_address _ = None"

fun send_address :: "read_pc \<Rightarrow> (nat \<times> json) option" where
  "send_address (Dispatching (ToNotification chan v)) = Some (chan, v)"
| "send_address _ = None"

definition call_room :: "'e engine \<Rightarrow> (string \<times> json) mailroom" where
  "call_room s = \<lparr>book = request_senders (cl s), boxes = call_chans (cl s), next_box = next_call_chan (cl s),
     addressed = call_address (rl_pc (rl s)), posted = delivered s, readers = map handler_reader (handlers s)\<rparr>"

definition send_room :: "'e engine \<Rightarrow> json mailroom" where
  "send_room s = \<lparr>book = notification_senders (cl s), boxes = send_chans (cl s), next_box = next_send_chan (cl s),
     addressed = send_address (rl_pc (rl s)), posted = notified s, readers = map notifier_reader (notifiers s)\<rparr>"

lemma room_simps [simp]:
  "book (call_room s) = request_senders (cl s)" "boxes (call_room s) = call_chans (cl s)"
  "next_box (call_room s) = next_call_chan (cl s)" "addressed (call_room s) = call_address (rl_pc (rl s))"
  "posted (call_room s) = delivered s" "readers (call_room s) = map handler_reader (handlers s)"
  "book (send_room s) = notification_senders (cl s)" "boxes (send_room s) = send_chans (cl s)"
  "next_box (send_room s) = next_send_chan (cl s)" "addressed (send_room s) = send_address (rl_pc (rl s))"
  "posted (send_room s) = notified s" "readers (send_room s) = map notifier_reader (notifiers s)"
  by (simp_all add: call_room_def send_room_def)

lemma reader_simps [simp]:
  "rd_box (handler_reader h) = ht_chan h" "rd_action (handler_reader h) = ht_action h"
  "rd_pc (handler_reader h) = handler_status (ht_pc h)"
  "rd_taken (handler_reader h) = map fst (ht_log h) @ ht_hand h"
  "rd_box (notifier_reader n) = nt_chan n" "rd_action (notifier_reader n) = nt_action n"
  "rd_pc (notifier_reader n) = notifier_status (nt_pc n)" "rd_taken (notifier_reader n) = nt_taken n"
  by (simp_all add: handler_reader_def notifier_reader_def)

lemma mailroom_eqI:
  fixes r t :: "'m mailroom"
  assumes "book r = book t" "boxes r = boxes t" "next_box r = next_box t" "addressed r = addressed t"
    "posted r = posted t" "readers r = readers t"
  shows "r = t"
  using assms by simp

subsection \<open>What each operation leaves alone\<close>

definition call_view :: "'e client \<Rightarrow> (string \<rightharpoonup> nat) \<times> (nat \<Rightarrow> (string \<times> json) chan) \<times> nat" where
  "call_view c = (request_senders c, call_chans c, next_call_chan c)"

definition send_view :: "'e client \<Rightarrow> (string \<rightharpoonup> nat) \<times> (nat \<Rightarrow> json chan) \<times> nat" where
  "send_view c = (notification_senders c, send_chans c, next_send_chan c)"

lemmas mail_views = call_view_def send_view_def

text \<open>
  \<open>mail_kept\<close>: the registrations and channels of both sides are as before, and the wire at most grew.
\<close>

definition mail_kept :: "'e client \<Rightarrow> 'e client \<Rightarrow> bool" where
  "mail_kept c c' \<longleftrightarrow> call_view c' = call_view c \<and> send_view c' = send_view c \<and> prefix (wire c) (wire c')"

lemma mail_kept_refl [simp]: "mail_kept c c"
  by (simp add: mail_kept_def)

lemma mail_kept_wire: "mail_kept c c' \<Longrightarrow> prefix (wire c) (wire c')"
  by (simp add: mail_kept_def)

lemma mail_kept_sink_write [simp]: "mail_kept c (sink_write op r c)"
  by (simp add: mail_kept_def mail_views sink_write_def)

lemma mail_kept_resolve [simp]:
  "mail_kept c (resolve_pending k v c)" "mail_kept c (resolve_pong b c)"
  by (simp_all add: mail_kept_def mail_views resolve_pending_def resolve_pong_def split: option.split)

lemma mail_kept_route [simp]: "mail_kept c (fst (route_frame P C f c))"
proof -
  have "mail_kept c (route_result C r c)" for r by (cases r) (simp split: option.split)
  moreover have "mail_kept c (route_error P C e c)" for e by (cases e) (simp split: option.split)
  ultimately show ?thesis by (simp add: route_frame_def route_typed_def split: classified.split option.split)
qed

lemma mail_kept_call: "call_step T inp c pc = Some (c', pc') \<Longrightarrow> mail_kept c c'"
  by (erule call_step_SomeE)
    (auto simp: call_wait_cases register_pending_def forget_pending_def sink_write_def mail_kept_def mail_views
      Let_def split: option.splits if_splits)

lemma mail_kept_ping: "ping_step inp c pc = Some (c', pc') \<Longrightarrow> mail_kept c c'"
  by (erule ping_step_SomeE)
    (auto simp: ping_wait_cases register_ping_def forget_ping_def sink_write_def mail_kept_def mail_views
      Let_def split: option.splits if_splits)

lemma mail_kept_ka: "ka_step inp c k = Some (c', k') \<Longrightarrow> mail_kept c c'"
  by (auto simp: ka_step_def ka_at_ping_def ka_reconfigured_def take_changed_cases ka_finish_def
      client_force_reconnect_def mail_kept_def mail_views dest: mail_kept_ping [unfolded mail_kept_def mail_views]
      split: ka_pc.splits ka_input.splits ping_pc.splits option.splits if_splits prod.splits)

lemma mail_kept_subscribers:
  "client_subscribe kind c = (n, c') \<Longrightarrow> mail_kept c c'"
  "subscriber_step kind slot c pc = Some (c', pc') \<Longrightarrow> mail_kept c c'"
proof -
  have kept: "mail_kept c (with_registry kind r c)" for r
    by (cases kind) (simp_all add: mail_kept_def mail_views)
  show "client_subscribe kind c = (n, c') \<Longrightarrow> mail_kept c c'"
    by (auto simp: client_subscribe_cases kept)
  show "subscriber_step kind slot c pc = Some (c', pc') \<Longrightarrow> mail_kept c c'"
    by (cases pc) (auto simp: subscriber_step_waiting kept simp del: subscriber_step.simps(1))
qed

lemma mail_kept_admin:
  "send_step inp c pc = Some (c', pc') \<Longrightarrow> mail_kept c c'"
  "mail_kept c (client_set_ping_interval i c)" "mail_kept c (client_force_reconnect c)"
  "disconnect_begin c = Some c' \<Longrightarrow> mail_kept c c'" "disconnect_close r c = (res', c') \<Longrightarrow> mail_kept c c'"
  by (auto simp: client_set_ping_interval_def client_force_reconnect_def
      disconnect_begin_def disconnect_close_def mail_kept_def mail_views sink_write_def
      elim!: send_step_SomeE split: if_splits)

lemmas mail_keepers = mail_kept_call mail_kept_ping mail_kept_ka mail_kept_subscribers mail_kept_admin

text \<open>Each side leaves the other's registrations alone.\<close>

lemma send_view_handler:
  "handler_step P C T a n inp c pc = Some (c', pc') \<Longrightarrow> send_view c' = send_view c \<and> prefix (wire c) (wire c')"
  by (induction P C T a n inp c pc rule: handler_step.induct)
    (auto simp: mail_views do_send_response_wire split: recv_outcome.splits option.splits prod.splits)

lemma call_view_notifier:
  "notification_step T a n c pc = Some (c', pc') \<Longrightarrow> call_view c' = call_view c \<and> wire c' = wire c"
  by (cases pc) (auto simp: mail_views split: recv_outcome.splits option.splits prod.splits)

lemma registration_views:
  "client_on a c = (n, c') \<Longrightarrow> send_view c' = send_view c \<and> wire c' = wire c"
  "client_on_notification a c = (n, c') \<Longrightarrow> call_view c' = call_view c \<and> wire c' = wire c"
  by (auto simp: client_on_def client_on_notification_def mail_views Let_def split: option.splits)

subsection \<open>The simulation\<close>

lemma route_frame_addresses:
  "snd (route_frame P C f c) = ToHandler chan m \<Longrightarrow> \<exists>a. request_senders c a = Some chan"
  "snd (route_frame P C f c) = ToNotification chan v \<Longrightarrow> \<exists>a. notification_senders c a = Some chan"
proof -
  have call: "route_call P C x c = ToHandler chan m \<Longrightarrow> \<exists>a. request_senders c a = Some chan"
    "route_call P C x c \<noteq> ToNotification chan v" for x
    by (cases x; auto split: option.splits result.splits)+
  have send: "route_send x c = ToNotification chan v \<Longrightarrow> \<exists>a. notification_senders c a = Some chan"
    "route_send x c \<noteq> ToHandler chan m" for x
    by (cases x; auto split: option.splits)+
  show "snd (route_frame P C f c) = ToHandler chan m \<Longrightarrow> \<exists>a. request_senders c a = Some chan"
    using call(1) send(2)
    by (auto simp: route_frame_def route_typed_def split: classified.splits option.splits if_splits)
  show "snd (route_frame P C f c) = ToNotification chan v \<Longrightarrow> \<exists>a. notification_senders c a = Some chan"
    using call(2) send(1)
    by (auto simp: route_frame_def route_typed_def split: classified.splits option.splits if_splits)
qed

text \<open>A step of the read loop posts to a channel, looks one up, or concerns neither side.\<close>

definition mail_quiet :: "read_input \<Rightarrow> 'e client \<Rightarrow> read_pc \<Rightarrow> 'e client \<Rightarrow> read_pc \<Rightarrow> bool" where
  "mail_quiet inp c pc c' pc' \<longleftrightarrow>
     mail_kept c c' \<and> call_address pc = None \<and> send_address pc = None
     \<and> handed_over pc inp = [] \<and> sent_over pc inp = []
     \<and> (\<forall>n m. call_address pc' = Some (n, m) \<longrightarrow> (\<exists>a. request_senders c a = Some n))
     \<and> (\<forall>n v. send_address pc' = Some (n, v) \<longrightarrow> (\<exists>a. notification_senders c a = Some n))"

lemma read_event_quiet:
  assumes "read_event P C ev c = (c', pc')"
  shows "mail_quiet (RecvEvent ev) c Reading c' pc'"
proof (cases ev)
  case (Frame f)
  then have "c' = fst (route_frame P C f c)" "pc' = Dispatching (snd (route_frame P C f c))"
    using assms by (auto simp: split_beta)
  with route_frame_addresses [of P C f c] show ?thesis
    by (cases "snd (route_frame P C f c)") (auto simp: mail_quiet_def)
qed (use assms in \<open>auto simp: mail_quiet_def mail_kept_def mail_views
    mail_kept_resolve [unfolded mail_kept_def mail_views, simplified]\<close>)

lemma address_exits [simp]:
  "call_address (read_woken cfg c) = None" "send_address (read_woken cfg c) = None"
  "call_address (after_exit cfg reason c) = None" "send_address (after_exit cfg reason c) = None"
  by (simp_all add: read_woken_def after_exit_def)

lemma mail_kept_fields [simp]:
  "mail_kept c (c\<lparr>force_reconnect := w\<rparr>)" "mail_kept c (c\<lparr>sink_conn := n\<rparr>)"
  "mail_kept c (c\<lparr>reconnect_registry := g\<rparr>)" "mail_kept c (clear_pong_waiters c)"
  by (simp_all add: mail_kept_def mail_views clear_pong_waiters_def)

lemma read_task_mail:
  assumes "read_task cfg P C inp c l = Some (c', l')"
  shows "(\<exists>d r. rl_pc l = Dispatching d \<and> inp = RSink r \<and> c' = deliver d r c \<and> rl_pc l' = Reading)
    \<or> mail_quiet inp c (rl_pc l) c' (rl_pc l')"
proof (cases "rl_pc l")
  case Reading
  with assms show ?thesis
    by (auto simp: read_defs take_wake_cases mail_quiet_def split: read_input.splits option.splits prod.splits
        dest: read_event_quiet [unfolded mail_quiet_def])
next
  case (Dispatching d)
  with assms show ?thesis by (auto simp: read_defs split: read_input.splits)
qed (use assms in \<open>auto simp: read_defs take_wake_cases mail_quiet_def Let_def
    split: read_input.splits option.splits if_splits\<close>)

lemma call_room_quiet:
  assumes "mail_quiet inp (cl s) (rl_pc (rl s)) c' (rl_pc l')"
  shows "call_room (read_moves inp c' l' s) = call_room s
    \<or> room_step (call_room s) (call_room (read_moves inp c' l' s))"
proof (cases "call_address (rl_pc l')")
  case None
  with assms show ?thesis by (simp add: call_room_def mail_quiet_def mail_kept_def mail_views)
next
  case (Some p)
  then obtain n m where p: "call_address (rl_pc l') = Some (n, m)" by (cases p) auto
  with assms obtain a where "book (call_room s) a = Some n" "addressed (call_room s) = None"
    by (auto simp: mail_quiet_def)
  from room_step.look_up [OF this(2,1), of m] assms p show ?thesis
    by (simp add: call_room_def mail_quiet_def mail_kept_def mail_views)
qed

lemma send_room_quiet:
  assumes "mail_quiet inp (cl s) (rl_pc (rl s)) c' (rl_pc l')"
  shows "send_room (read_moves inp c' l' s) = send_room s
    \<or> room_step (send_room s) (send_room (read_moves inp c' l' s))"
proof (cases "send_address (rl_pc l')")
  case None
  with assms show ?thesis by (simp add: send_room_def mail_quiet_def mail_kept_def mail_views)
next
  case (Some p)
  then obtain n m where p: "send_address (rl_pc l') = Some (n, m)" by (cases p) auto
  with assms obtain a where "book (send_room s) a = Some n" "addressed (send_room s) = None"
    by (auto simp: mail_quiet_def)
  from room_step.look_up [OF this(2,1), of m] assms p show ?thesis
    by (simp add: send_room_def mail_quiet_def mail_kept_def mail_views)
qed

lemma rooms_read:
  assumes "read_task cfg P C inp (cl s) (rl s) = Some (c', l')"
  shows "call_room (read_moves inp c' l' s) = call_room s
      \<or> room_step (call_room s) (call_room (read_moves inp c' l' s))"
    and "send_room (read_moves inp c' l' s) = send_room s
      \<or> room_step (send_room s) (send_room (read_moves inp c' l' s))"
proof -
  consider (quiet) "mail_quiet inp (cl s) (rl_pc (rl s)) c' (rl_pc l')"
    | (post) d r where "rl_pc (rl s) = Dispatching d" "inp = RSink r" "c' = deliver d r (cl s)" "rl_pc l' = Reading"
    using read_task_mail [OF assms] by blast
  then have "(call_room (read_moves inp c' l' s) = call_room s
      \<or> room_step (call_room s) (call_room (read_moves inp c' l' s)))
    \<and> (send_room (read_moves inp c' l' s) = send_room s
      \<or> room_step (send_room s) (send_room (read_moves inp c' l' s)))"
  proof cases
    case quiet
    then show ?thesis using call_room_quiet send_room_quiet by blast
  next
    case post
    show ?thesis
    proof (cases d)
      case (ToHandler n m)
      with post room_step.post [of "call_room s" n m] show ?thesis
        by (simp add: call_room_def send_room_def set_box_def)
    next
      case (ToNotification n v)
      with post room_step.post [of "send_room s" n v] show ?thesis
        by (simp add: call_room_def send_room_def set_box_def)
    qed (use post in \<open>auto simp: call_room_def send_room_def sink_write_def\<close>)
  qed
  then show "call_room (read_moves inp c' l' s) = call_room s
      \<or> room_step (call_room s) (call_room (read_moves inp c' l' s))"
    "send_room (read_moves inp c' l' s) = send_room s
      \<or> room_step (send_room s) (send_room (read_moves inp c' l' s))" by auto
qed

lemma call_room_on:
  assumes "client_on a (cl s) = (chan, c')"
  shows "call_room (s\<lparr>cl := c', handlers := handlers s @
      [\<lparr>ht_action = a, ht_chan = chan, ht_pc = HChecking, ht_hand = [], ht_log = []\<rparr>]\<rparr>)
    = open_box a (call_room s)"
proof -
  have c: "chan = next_call_chan (cl s)" "c' = snd (client_on a (cl s))"
    using assms requests.register_handle [of a "cl s"] by auto
  show ?thesis
    by (rule mailroom_eqI)
      (simp_all add: c requests.register_senders requests.register_chans requests.register_fresh
        open_box_def handler_reader_def)
qed

lemma send_room_on:
  assumes "client_on_notification a (cl s) = (chan, c')"
  shows "send_room (s\<lparr>cl := c', notifiers := notifiers s @
      [\<lparr>nt_action = a, nt_chan = chan, nt_pc = NChecking, nt_taken = []\<rparr>]\<rparr>)
    = open_box a (send_room s)"
proof -
  have c: "chan = next_send_chan (cl s)" "c' = snd (client_on_notification a (cl s))"
    using assms notifications.register_handle [of a "cl s"] by auto
  show ?thesis
    by (rule mailroom_eqI)
      (simp_all add: c notifications.register_senders notifications.register_chans
        notifications.register_fresh open_box_def notifier_reader_def)
qed

text \<open>What one step of a handler does, by where it was.\<close>

lemma queue_stays_empty: "queue b = [] \<Longrightarrow> b\<lparr>queue := []\<rparr> = b"
  by (cases b) simp

lemma handler_step_SomeE:
  assumes "handler_step P C T a n inp c pc = Some (c', pc')"
  obtains (look) "pc = HChecking" "looked (call_chans c n) d (handler_status pc')"
      "c' = c\<lparr>call_chans := (call_chans c)(n := (call_chans c n)\<lparr>queue := tl (queue (call_chans c n))\<rparr>)\<rparr>"
  | (wake) "pc = HParked" "pc' = HChecking" "wakeup (call_chans c n) = Some ()"
      "c' = c\<lparr>call_chans := (call_chans c)(n := (call_chans c n)\<lparr>wakeup := None\<rparr>)\<rparr>"
  | (answer) m v response where "pc = HCalling m v" "pc' = HReplying m response" "c' = c"
  | (reply) m response r where "pc = HReplying m response" "pc' = HChecking" "inp = HSink r"
      "c' = do_send_response P C response m r c"
proof (cases pc)
  case HChecking
  then have "inp = HProceed" using assms by (cases inp) auto
  with HChecking assms show thesis
    by (intro look) (auto simp: chan_check_cases queue_stays_empty split: if_splits prod.splits result.splits)
next
  case HParked
  then have "inp = HProceed" using assms by (cases inp) auto
  with HParked assms show thesis
    by (intro wake) (auto simp: signal_poll_def split: option.splits)
next
  case (HCalling m v)
  with assms show thesis by (cases inp) (auto intro: answer)
next
  case (HReplying m response)
  with assms show thesis by (cases inp) (auto intro: reply)
qed (use assms in simp)

lemma notification_step_SomeE:
  assumes "notification_step T a n c pc = Some (c', pc')"
  obtains (look) "pc = NChecking" "looked (send_chans c n) d (notifier_status pc')"
      "c' = c\<lparr>send_chans := (send_chans c)(n := (send_chans c n)\<lparr>queue := tl (queue (send_chans c n))\<rparr>)\<rparr>"
  | (wake) "pc = NParked" "pc' = NChecking" "wakeup (send_chans c n) = Some ()"
      "c' = c\<lparr>send_chans := (send_chans c)(n := (send_chans c n)\<lparr>wakeup := None\<rparr>)\<rparr>"
  | (call) v where "pc = NCalling v" "pc' = NChecking" "c' = c"
proof (cases pc)
  case NChecking
  with assms show thesis
    by (intro look) (auto simp: chan_check_cases queue_stays_empty split: if_splits prod.splits result.splits)
next
  case NParked
  with assms show thesis
    by (intro wake) (auto simp: signal_poll_def split: option.splits)
qed (use assms call in auto)

lemma call_room_handler:
  assumes "i < length (handlers s)"
    and "handler_step P C T (ht_action (handlers s ! i)) (ht_chan (handlers s ! i)) inp (cl s)
      (ht_pc (handlers s ! i)) = Some (c', pc')"
  defines "t \<equiv> s\<lparr>cl := c', handlers := (handlers s)[i :=
      handler_moved (queue (call_chans (cl s) (ht_chan (handlers s ! i)))) pc' (handlers s ! i)]\<rparr>"
  shows "call_room t = call_room s \<or> room_step (call_room s) (call_room t)"
proof -
  let ?r = "call_room s" and ?h = "handlers s ! i"
  have i: "i < length (readers ?r)" and d: "handler_reader ?h = readers ?r ! i" using assms(1) by simp_all
  from assms(2) show ?thesis
  proof (cases rule: handler_step_SomeE [where d = "handler_reader ?h"])
    case look
    have "room_step ?r (set_box (ht_chan ?h) ((call_chans (cl s) (ht_chan ?h))\<lparr>queue := tl (queue (call_chans (cl s) (ht_chan ?h)))\<rparr>)
      (set_reader i ((handler_reader ?h)\<lparr>rd_pc := handler_status pc',
        rd_taken := rd_taken (handler_reader ?h) @ take 1 (queue (call_chans (cl s) (ht_chan ?h)))\<rparr>) ?r))"
      using room_step.look [OF i d _ _ look(2)] look(1) by simp
    also have "\<dots> = call_room t"
      using look assms(1)
      by (intro mailroom_eqI) (simp_all add: t_def set_box_def set_reader_def map_update handler_reader_def handler_moved_def)
    finally show ?thesis ..
  next
    case wake
    have "room_step ?r (set_box (ht_chan ?h) ((call_chans (cl s) (ht_chan ?h))\<lparr>wakeup := None\<rparr>)
      (set_reader i ((handler_reader ?h)\<lparr>rd_pc := Looking\<rparr>) ?r))"
      using room_step.wake [OF i d _ _] wake by simp
    also have "\<dots> = call_room t"
      using wake assms(1)
      by (intro mailroom_eqI) (simp_all add: t_def set_box_def set_reader_def map_update handler_reader_def handler_moved_def)
    finally show ?thesis ..
  next
    case (answer m v response)
    then have "call_room t = call_room s"
      using assms(1)
      by (intro mailroom_eqI) (simp_all add: t_def map_update handler_reader_def handler_moved_def list_update_same_conv)
    then show ?thesis ..
  next
    case (reply m response r)
    have "room_step ?r (set_reader i ((handler_reader ?h)\<lparr>rd_pc := Looking\<rparr>) ?r)"
      using room_step.finish [OF i d] reply by simp
    also have "\<dots> = call_room t"
      using reply assms(1)
      by (intro mailroom_eqI) (simp_all add: t_def set_reader_def map_update handler_reader_def handler_moved_def
          do_send_response_wire comp_def)
    finally show ?thesis ..
  qed
qed

lemma send_room_notifier:
  assumes "i < length (notifiers s)"
    and "notification_step T (nt_action (notifiers s ! i)) (nt_chan (notifiers s ! i)) (cl s)
      (nt_pc (notifiers s ! i)) = Some (c', pc')"
  defines "t \<equiv> s\<lparr>cl := c', notifiers := (notifiers s)[i :=
      notifier_moved (queue (send_chans (cl s) (nt_chan (notifiers s ! i)))) pc' (notifiers s ! i)]\<rparr>"
  shows "room_step (send_room s) (send_room t)"
proof -
  let ?r = "send_room s" and ?h = "notifiers s ! i"
  have i: "i < length (readers ?r)" and d: "notifier_reader ?h = readers ?r ! i" using assms(1) by simp_all
  from assms(2) show ?thesis
  proof (cases rule: notification_step_SomeE [where d = "notifier_reader ?h"])
    case look
    have "room_step ?r (set_box (nt_chan ?h) ((send_chans (cl s) (nt_chan ?h))\<lparr>queue := tl (queue (send_chans (cl s) (nt_chan ?h)))\<rparr>)
      (set_reader i ((notifier_reader ?h)\<lparr>rd_pc := notifier_status pc',
        rd_taken := rd_taken (notifier_reader ?h) @ take 1 (queue (send_chans (cl s) (nt_chan ?h)))\<rparr>) ?r))"
      using room_step.look [OF i d _ _ look(2)] look(1) by simp
    also have "\<dots> = send_room t"
      using look assms(1)
      by (intro mailroom_eqI) (simp_all add: t_def set_box_def set_reader_def map_update notifier_reader_def notifier_moved_def)
    finally show ?thesis .
  next
    case wake
    have "room_step ?r (set_box (nt_chan ?h) ((send_chans (cl s) (nt_chan ?h))\<lparr>wakeup := None\<rparr>)
      (set_reader i ((notifier_reader ?h)\<lparr>rd_pc := Looking\<rparr>) ?r))"
      using room_step.wake [OF i d _ _] wake by simp
    also have "\<dots> = send_room t"
      using wake assms(1)
      by (intro mailroom_eqI) (simp_all add: t_def set_box_def set_reader_def map_update notifier_reader_def notifier_moved_def)
    finally show ?thesis .
  next
    case (call v)
    have "room_step ?r (set_reader i ((notifier_reader ?h)\<lparr>rd_pc := Looking\<rparr>) ?r)"
      using room_step.finish [OF i d] call by simp
    also have "\<dots> = send_room t"
      using call assms(1)
      by (intro mailroom_eqI) (simp_all add: t_def set_reader_def map_update notifier_reader_def notifier_moved_def)
    finally show ?thesis .
  qed
qed

lemma call_room_other:
  assumes "mail_kept (cl s) (cl t)" and "rl t = rl s" and "handlers t = handlers s" and "delivered t = delivered s"
  shows "call_room t = call_room s"
  using assms by (simp add: call_room_def mail_kept_def mail_views)

lemma send_room_other:
  assumes "mail_kept (cl s) (cl t)" and "rl t = rl s" and "notifiers t = notifiers s"
    and "notified t = notified s"
  shows "send_room t = send_room s"
  using assms by (simp add: send_room_def mail_kept_def mail_views)

lemma call_room_simulates:
  assumes "engine_step cfg P C T s t"
  shows "call_room t = call_room s \<or> room_step (call_room s) (call_room t)"
  using assms
proof (cases rule: engine_step.cases)
  case (read_loop inp c' l')
  then show ?thesis using rooms_read(1) by blast
next
  case (on a chan c')
  then show ?thesis by (simp add: call_room_on room_step.register)
next
  case (handler_moves i inp c' pc')
  show ?thesis unfolding handler_moves(1) by (rule call_room_handler [OF handler_moves(2,3)])
next
  case (on_notification a chan c')
  then have "call_room t = call_room s"
    using registration_views(2) by (fastforce simp: call_room_def mail_views)
  then show ?thesis ..
next
  case (notifier_moves i c' pc')
  then have "call_room t = call_room s"
    using call_view_notifier by (fastforce simp: call_room_def mail_views)
  then show ?thesis ..
qed (rule disjI1, rule call_room_other, (auto intro: mail_keepers)[1], simp, simp, simp)+

lemma send_room_simulates:
  assumes "engine_step cfg P C T s t"
  shows "send_room t = send_room s \<or> room_step (send_room s) (send_room t)"
  using assms
proof (cases rule: engine_step.cases)
  case (read_loop inp c' l')
  then show ?thesis using rooms_read(2) by blast
next
  case (on a chan c')
  then have "send_room t = send_room s"
    using registration_views(1) by (fastforce simp: send_room_def mail_views)
  then show ?thesis ..
next
  case (handler_moves i inp c' pc')
  then have "send_room t = send_room s"
    using send_view_handler by (fastforce simp: send_room_def mail_views)
  then show ?thesis ..
next
  case (on_notification a chan c')
  then show ?thesis by (simp add: send_room_on room_step.register)
next
  case (notifier_moves i c' pc')
  show ?thesis unfolding notifier_moves(1) by (rule disjI2, rule send_room_notifier [OF notifier_moves(2,3)])
qed (rule disjI1, rule send_room_other, (auto intro: mail_keepers)[1], simp, simp, simp)+

lemma rooms_start:
  "call_room (from_transport_with_config cfg) = empty_room" "send_room (from_transport_with_config cfg) = empty_room"
  by (simp_all add: call_room_def send_room_def empty_room_def from_transport_with_config_def new_client_def
      read_loop_start_def)

interpretation call_mail: mailroom_refinement "engine_step cfg P C T" "engine_reach cfg P C T" call_room
  for cfg P C T
proof unfold_locales
  fix s Q
  assume "engine_reach cfg P C T s" and "\<And>s. call_room s = empty_room \<Longrightarrow> Q s"
    and "\<And>s t. Q s \<Longrightarrow> engine_step cfg P C T s t \<Longrightarrow> Q t"
  then show "Q s" by (induction rule: engine_runs.induct) (auto simp: rooms_start)
qed (rule call_room_simulates)

interpretation send_mail: mailroom_refinement "engine_step cfg P C T" "engine_reach cfg P C T" send_room
  for cfg P C T
proof unfold_locales
  fix s Q
  assume "engine_reach cfg P C T s" and "\<And>s. send_room s = empty_room \<Longrightarrow> Q s"
    and "\<And>s t. Q s \<Longrightarrow> engine_step cfg P C T s t \<Longrightarrow> Q t"
  then show "Q s" by (induction rule: engine_runs.induct) (auto simp: rooms_start)
qed (rule send_room_simulates)

end
