(* ===== verification/Engine_Answers.thy ===== *)
theory Engine_Answers
  imports Engine_Handlers
begin

text \<open>
  What the handlers of the running client do for the peer: every CALL handed to a handler is answered
  once, in order, with the callback's outcome or the parse failure; an action that is bound has a live
  handler; and a live handler can always catch up. The one gap, a CALL that reaches a channel whose handler
  was replaced and has ended, is in \<open>Engine_Lost\<close>.
\<close>

subsection \<open>What a handler has answered\<close>

text \<open>A payload that does not parse is answered with the parse failure, whatever the callback would do.\<close>

definition answer_ok :: "'e protocol_error \<Rightarrow> payload_types \<Rightarrow> string \<Rightarrow> json \<Rightarrow> 'e handler_outcome \<Rightarrow> bool" where
  "answer_ok P T action v response =
     (case request_check T action v of Ok _ \<Rightarrow> True | Err _ \<Rightarrow> response = Err (parse_failure P action))"

definition answer_frames ::
  "'e protocol_error \<Rightarrow> codec \<Rightarrow> ((string \<times> json) \<times> 'e handler_outcome) list \<Rightarrow> sink_op list" where
  "answer_frames P C answers = concat (map (\<lambda>((message_id, _), response).
     case response_frame P C response message_id of Some f \<Rightarrow> [SendOp f] | None \<Rightarrow> []) answers)"

definition sent_ops :: "'e client \<Rightarrow> sink_op list" where
  "sent_ops c = map (fst \<circ> snd) (wire c)"

definition hand_ok :: "'e protocol_error \<Rightarrow> payload_types \<Rightarrow> 'e handler_task \<Rightarrow> bool" where
  "hand_ok P T h =
     (case ht_pc h of
        HCalling m v \<Rightarrow> ht_hand h = [(m, v)] \<and> (\<exists>u. request_check T (ht_action h) v = Ok u)
      | HReplying m response \<Rightarrow> \<exists>v. ht_hand h = [(m, v)] \<and> answer_ok P T (ht_action h) v response
      | _ \<Rightarrow> ht_hand h = [])"

definition answers_ok :: "'e protocol_error \<Rightarrow> codec \<Rightarrow> payload_types \<Rightarrow> 'e client \<Rightarrow> 'e handler_task \<Rightarrow> bool" where
  "answers_ok P C T c h \<longleftrightarrow>
     hand_ok P T h
     \<and> (\<forall>p \<in> set (ht_log h). answer_ok P T (ht_action h) (snd (fst p)) (snd p))
     \<and> subseq (answer_frames P C (ht_log h)) (sent_ops c)"

definition answers_inv :: "'e protocol_error \<Rightarrow> codec \<Rightarrow> payload_types \<Rightarrow> 'e engine \<Rightarrow> bool" where
  "answers_inv P C T s \<longleftrightarrow> (\<forall>h \<in> set (handlers s). answers_ok P C T (cl s) h)"

lemma sent_ops_prefix: "prefix (wire c) (wire c') \<Longrightarrow> subseq xs (sent_ops c) \<Longrightarrow> subseq xs (sent_ops c')"
  unfolding sent_ops_def by (meson map_mono_prefix prefix_imp_subseq subseq_order.trans)

lemma answers_ok_prefix:
  "answers_ok P C T c h \<Longrightarrow> prefix (wire c) (wire c') \<Longrightarrow> answers_ok P C T c' h"
  by (auto simp: answers_ok_def intro: sent_ops_prefix)

lemma answer_frames_snoc:
  "answer_frames P C (xs @ [((m, v), response)]) = answer_frames P C xs @
     (case response_frame P C response m of Some f \<Rightarrow> [SendOp f] | None \<Rightarrow> [])"
  by (simp add: answer_frames_def)

lemma sent_ops_response:
  "sent_ops (do_send_response P C response m r c) = sent_ops c @
     (case response_frame P C response m of Some f \<Rightarrow> [SendOp f] | None \<Rightarrow> [])"
  by (simp add: sent_ops_def do_send_response_wire split: option.split)

lemma engine_step_wire:
  assumes "engine_step cfg P C T s t"
  shows "prefix (wire (cl s)) (wire (cl t))"
  using assms
proof (cases rule: engine_step.cases)
  case (read_loop inp c' l')
  from read_task_mail [OF read_loop(2)] have "prefix (wire (cl s)) (wire c')"
  proof
    assume "\<exists>d r. rl_pc (rl s) = Dispatching d \<and> inp = RSink r \<and> c' = deliver d r (cl s) \<and> rl_pc l' = Reading"
    then obtain d r where "c' = deliver d r (cl s)" by blast
    then show ?thesis by (cases d) (simp_all add: sink_write_def)
  qed (simp add: mail_quiet_def mail_kept_def)
  with read_loop show ?thesis by simp
next
  case (handler_moves i inp c' pc')
  with send_view_handler show ?thesis by fastforce
next
  case (on a chan c')
  with registration_views show ?thesis by fastforce
next
  case (on_notification a chan c')
  with registration_views show ?thesis by fastforce
next
  case (notifier_moves i c' pc')
  with call_view_notifier show ?thesis by fastforce
qed (auto intro!: mail_kept_wire intro: mail_keepers)

text \<open>A handler's own step.\<close>

lemma handler_step_answers:
  assumes "handler_step P C T (ht_action h) (ht_chan h) inp c (ht_pc h) = Some (c', pc')"
    and "answers_ok P C T c h"
  shows "answers_ok P C T c' (handler_moved (queue (call_chans c (ht_chan h))) pc' h)"
proof -
  have wire: "prefix (wire c) (wire c')" using send_view_handler [OF assms(1)] by simp
  note kept = sent_ops_prefix [OF wire]
  show ?thesis
  proof (cases "ht_pc h")
    case HChecking
    then have "inp = HProceed" using assms(1) by (cases inp) auto
    with HChecking assms kept show ?thesis
      by (auto simp: answers_ok_def hand_ok_def handler_moved_def chan_check_cases answer_ok_def hd_Cons_tl take_Suc
          split: if_splits prod.splits result.splits)
  next
    case HParked
    then have "inp = HProceed" using assms(1) by (cases inp) auto
    with HParked assms kept show ?thesis
      by (auto simp: answers_ok_def hand_ok_def handler_moved_def split: prod.splits option.splits)
  next
    case (HCalling m v)
    with assms kept show ?thesis
      by (cases inp) (auto simp: answers_ok_def hand_ok_def handler_moved_def answer_ok_def)
  next
    case (HReplying m response)
    then obtain r where "inp = HSink r" using assms(1) by (cases inp) auto
    with HReplying assms show ?thesis
      by (auto simp: answers_ok_def hand_ok_def handler_moved_def answer_frames_snoc sent_ops_response
          list_emb_append_mono)
  qed (use assms(1) in simp)
qed

lemma handler_moved_key [simp]:
  "ht_action (handler_moved q pc h) = ht_action h" "ht_chan (handler_moved q pc h) = ht_chan h"
  "ht_pc (handler_moved q pc h) = pc"
  by (simp_all add: handler_moved_def split: handler_pc.split)

lemma answers_inv_kept:
  assumes "engine_step cfg P C T s t" and "answers_inv P C T s"
  shows "answers_inv P C T t"
proof -
  have old: "answers_ok P C T (cl t) h" if "h \<in> set (handlers s)" for h
    using assms(2) that engine_step_wire [OF assms(1)] by (auto simp: answers_inv_def intro: answers_ok_prefix)
  from assms(1) show ?thesis
  proof (cases rule: engine_step.cases)
    case (on a chan c')
    with old show ?thesis
      by (auto simp: answers_inv_def answers_ok_def hand_ok_def answer_frames_def)
  next
    case (handler_moves i inp c' pc')
    have "answers_ok P C T (cl s) (handlers s ! i)" using assms(2) handler_moves(2) by (simp add: answers_inv_def)
    from handler_step_answers [OF handler_moves(3) this] old show ?thesis
      unfolding answers_inv_def handler_moves(1) by (auto dest!: set_update_subset_insert [THEN subsetD])
  qed (use old in \<open>auto simp: answers_inv_def\<close>)
qed

interpretation answering: engine_invariant cfg P C T "answers_inv P C T" for cfg P C T
proof unfold_locales
  show "answers_inv P C T (from_transport_with_config cfg)"
    by (simp add: answers_inv_def from_transport_with_config_def)
qed (rule answers_inv_kept)

subsection \<open>Catching up\<close>

text \<open>What a handler will have answered once it has worked off what it has in hand and in its queue.\<close>

definition promised ::
  "'e protocol_error \<Rightarrow> payload_types \<Rightarrow> (json \<Rightarrow> 'e handler_outcome) \<Rightarrow> 'e handler_task \<Rightarrow> (string \<times> json) list \<Rightarrow>
   ((string \<times> json) \<times> 'e handler_outcome) list" where
  "promised P T callback h queued =
     (case ht_pc h of
        HReplying _ response \<Rightarrow> map (\<lambda>p. (p, response)) (ht_hand h)
      | _ \<Rightarrow> map (\<lambda>p. (p, handler_answer P T (ht_action h) callback (snd p))) (ht_hand h))
     @ map (\<lambda>p. (p, handler_answer P T (ht_action h) callback (snd p))) queued"

fun handler_measure :: "'e handler_pc \<Rightarrow> nat" where
  "handler_measure HChecking = 1"
| "handler_measure HParked = 2"
| "handler_measure (HReplying _ _) = 3"
| "handler_measure (HCalling _ _) = 4"
| "handler_measure HEnded = 0"

definition idle :: "(string \<times> json) list \<Rightarrow> 'e handler_pc \<Rightarrow> bool" where
  "idle queued pc \<longleftrightarrow> queued = [] \<and> (pc = HChecking \<or> pc = HParked)"

lemma promised_idle: "idle q (ht_pc h) \<Longrightarrow> hand_ok P T h \<Longrightarrow> promised P T callback h q = []"
  by (auto simp: idle_def promised_def hand_ok_def)

text \<open>
  A busy handler, fed by its callback and the sink, makes a step that keeps its promise and brings it
  closer to being idle.
\<close>

lemma handler_advances:
  fixes h :: "'e handler_task" and c :: "'e client"
  defines "q \<equiv> queue (call_chans c (ht_chan h))"
  assumes "hand_ok P T h" and "ht_pc h \<noteq> HEnded" and "\<not> idle q (ht_pc h)"
    and "ht_pc h = HParked \<longrightarrow> wakeup (call_chans c (ht_chan h)) = Some ()"
  obtains c' pc' where
    "handler_step P C T (ht_action h) (ht_chan h) (handler_feed callback sink (ht_pc h)) c (ht_pc h) = Some (c', pc')"
    and "pc' \<noteq> HEnded"
    and "ht_log (handler_moved q pc' h) @ promised P T callback (handler_moved q pc' h) (queue (call_chans c' (ht_chan h)))
      = ht_log h @ promised P T callback h q"
    and "5 * length (queue (call_chans c' (ht_chan h))) + handler_measure pc' < 5 * length q + handler_measure (ht_pc h)"
proof (cases "ht_pc h")
  case HChecking
  with assms(4) obtain m v rest where q: "q = (m, v) # rest" by (cases q) (auto simp: idle_def)
  let ?c = "c\<lparr>call_chans := (call_chans c)(ht_chan h := (call_chans c (ht_chan h))\<lparr>queue := rest\<rparr>)\<rparr>"
  let ?pc = "case request_check T (ht_action h) v of Ok _ \<Rightarrow> HCalling m v
    | Err _ \<Rightarrow> HReplying m (Err (parse_failure P (ht_action h)))"
  show thesis
    by (rule that [of ?c ?pc]) (use HChecking assms(2) q in \<open>auto simp: q_def chan_check_cases handler_moved_def
        promised_def hand_ok_def handler_answer_def split: result.split\<close>)
next
  case HParked
  let ?c = "c\<lparr>call_chans := (call_chans c)(ht_chan h := (call_chans c (ht_chan h))\<lparr>wakeup := None\<rparr>)\<rparr>"
  show thesis
    by (rule that [of ?c HChecking]) (use HParked assms in \<open>auto simp: q_def signal_poll_def handler_moved_def
        promised_def hand_ok_def\<close>)
next
  case (HCalling m v)
  show thesis
    by (rule that [of c "HReplying m (callback v)"]) (use HCalling assms(2) in \<open>auto simp: q_def handler_moved_def
        promised_def hand_ok_def handler_answer_def\<close>)
next
  case (HReplying m response)
  show thesis
    by (rule that [of "do_send_response P C response m (sink m) c" HChecking])
      (use HReplying assms(2) in \<open>auto simp: q_def handler_moved_def promised_def hand_ok_def do_send_response_wire\<close>)
qed (use assms(3) in simp)

lemma handler_step_senders:
  "handler_step P C T a n inp c pc = Some (c', pc') \<Longrightarrow> request_senders c' = request_senders c"
  by (erule handler_step_SomeE) (auto simp: do_send_response_wire)

text \<open>The handler task on its own, until it has nothing left to do; the rest of the client stands still.\<close>

lemma handler_catches_up_run:
  fixes s :: "'e engine"
  assumes "engine_reach cfg P C T s" and "i < length (handlers s)" and "ht_pc (handlers s ! i) \<noteq> HEnded"
  shows "\<exists>t. engine_runs cfg P C T s t \<and> delivered t = delivered s \<and> rl t = rl s \<and> inbox t = inbox s
    \<and> request_senders (cl t) = request_senders (cl s)
    \<and> i < length (handlers t) \<and> ht_pc (handlers t ! i) \<in> {HChecking, HParked}
    \<and> ht_chan (handlers t ! i) = ht_chan (handlers s ! i)
    \<and> queue (call_chans (cl t) (ht_chan (handlers s ! i))) = []
    \<and> ht_log (handlers t ! i) = ht_log (handlers s ! i)
        @ promised P T callback (handlers s ! i) (queue (call_chans (cl s) (ht_chan (handlers s ! i))))"
  using assms
proof (induction "5 * length (queue (call_chans (cl s) (ht_chan (handlers s ! i)))) + handler_measure (ht_pc (handlers s ! i))"
    arbitrary: s rule: less_induct)
  case less
  let ?h = "handlers s ! i"
  let ?q = "queue (call_chans (cl s) (ht_chan ?h))"
  have hand: "hand_ok P T ?h"
    using answering.always [OF less.prems(1)] less.prems(2) by (auto simp: answers_inv_def answers_ok_def)
  show ?case
  proof (cases "idle ?q (ht_pc ?h)")
    case True
    with promised_idle [OF True hand] less.prems(2) show ?thesis
      by (intro exI [of _ s]) (auto simp: idle_def intro: engine_runs.stay)
  next
    case False
    have mem: "handler_reader ?h \<in> set (readers (call_room s))" using less.prems(2) by simp
    have awake: "ht_pc ?h = HParked \<longrightarrow> wakeup (call_chans (cl s) (ht_chan ?h)) = Some ()"
      using call_mail.not_overslept [OF less.prems(1) mem] False by (auto simp: idle_def)
    obtain c' pc' where step:
      "handler_step P C T (ht_action ?h) (ht_chan ?h) (handler_feed callback (\<lambda>_. Ok ()) (ht_pc ?h)) (cl s) (ht_pc ?h) = Some (c', pc')"
      "pc' \<noteq> HEnded"
      "ht_log (handler_moved ?q pc' ?h) @ promised P T callback (handler_moved ?q pc' ?h) (queue (call_chans c' (ht_chan ?h)))
        = ht_log ?h @ promised P T callback ?h ?q"
      "5 * length (queue (call_chans c' (ht_chan ?h))) + handler_measure pc' < 5 * length ?q + handler_measure (ht_pc ?h)"
      by (rule handler_advances [OF hand less.prems(3) False awake])
    let ?u = "s\<lparr>cl := c', handlers := (handlers s)[i := handler_moved ?q pc' ?h]\<rparr>"
    have go: "engine_runs cfg P C T s ?u"
      by (rule engine_runs.go [OF engine_runs.stay engine_step.handler_moves [OF less.prems(2) step(1)]])
    have u: "handlers ?u ! i = handler_moved ?q pc' ?h" "i < length (handlers ?u)" using less.prems(2) by simp_all
    have "5 * length (queue (call_chans (cl ?u) (ht_chan (handlers ?u ! i)))) + handler_measure (ht_pc (handlers ?u ! i))
        < 5 * length ?q + handler_measure (ht_pc ?h)"
      using step(4) unfolding u by simp
    moreover have "engine_reach cfg P C T ?u" by (rule engine_runs_trans [OF less.prems(1) go])
    moreover have "ht_pc (handlers ?u ! i) \<noteq> HEnded" using step(2) u by simp
    ultimately obtain t where t: "engine_runs cfg P C T ?u t" "delivered t = delivered ?u" "rl t = rl ?u" "inbox t = inbox ?u"
      "request_senders (cl t) = request_senders (cl ?u)" "i < length (handlers t)"
      "ht_pc (handlers t ! i) \<in> {HChecking, HParked}"
      "ht_chan (handlers t ! i) = ht_chan (handlers ?u ! i)"
      "queue (call_chans (cl t) (ht_chan (handlers ?u ! i))) = []"
      "ht_log (handlers t ! i) = ht_log (handlers ?u ! i)
        @ promised P T callback (handlers ?u ! i) (queue (call_chans (cl ?u) (ht_chan (handlers ?u ! i))))"
      using less.hyps [of ?u] u(2) by blast
    moreover have "request_senders (cl ?u) = request_senders (cl s)" using handler_step_senders [OF step(1)] by simp
    moreover have "engine_runs cfg P C T s t" by (rule engine_runs_trans [OF go t(1)])
    ultimately show ?thesis using step(3) u by (intro exI [of _ t]) simp
  qed
qed

subsection \<open>Schedules\<close>

definition handed_to :: "nat \<Rightarrow> 'e engine \<Rightarrow> (string \<times> json) list" where
  "handed_to chan s = map snd (filter (\<lambda>p. fst p = chan) (delivered s))"

lemma handed_to_room: "handed_to chan s = posted_to chan (call_room s)"
  by (simp add: handed_to_def posted_to_def)

definition reset_codec :: codec where
  "reset_codec = table_codec
     [(''[2,m,Reset,null]'', call_value (RawCall MESSAGE_TYPE_CALL ''m'' ''Reset'' JNull)),
      (''[3,m,null]'', result_value (RawResult MESSAGE_TYPE_RESULT ''m'' JNull))]"

text \<open>A CALL that is answered.\<close>

definition answered_schedule :: "OCPP1_6Error decision list" where
  "answered_schedule = [DOn ''Reset'', DRead (RecvEvent (Frame ''[2,m,Reset,null]'')), DRead (RSink (Ok ())),
     DHandlerMoves 0 HProceed, DHandlerMoves 0 (HCallback (Ok (Ok JNull))), DHandlerMoves 0 (HSink (Ok ()))]"

definition reset_run :: "OCPP1_6Error decision list \<Rightarrow> OCPP1_6Error engine" where
  "reset_run ds = the (perform_all (client_config_new 0) protocol_error_1_6 reset_codec lenient_types ds
     (from_transport_with_config (client_config_new 0)))"

lemma reset_codec_simps:
  "from_str reset_codec ''[2,m,Reset,null]'' = Some (call_value (RawCall MESSAGE_TYPE_CALL ''m'' ''Reset'' JNull))"
  "to_string reset_codec (result_value (RawResult MESSAGE_TYPE_RESULT ''m'' JNull)) = Ok ''[3,m,null]''"
  by (simp_all add: reset_codec_def table_codec_def)

lemma reset_route:
  "route_frame P reset_codec ''[2,m,Reset,null]'' c =
     (c, route_call P reset_codec (RawCall MESSAGE_TYPE_CALL ''m'' ''Reset'' JNull) c)"
  by (rule route_frame_call) (rule reset_codec_simps)

lemma reset_response: "response_frame P reset_codec (Ok (Ok JNull)) ''m'' = Some ''[3,m,null]''"
  by (simp add: response_frame_def reset_codec_simps del: result_value.simps)

lemmas reset_eval = reset_run_def answered_schedule_def schedule_eval reset_route client_on_def
  chan_defs reset_response do_send_response_def lenient_types_def

lemma reset_reach:
  "engine_reach (client_config_new 0) protocol_error_1_6 reset_codec lenient_types (reset_run answered_schedule)"
  "engine_reach (client_config_new 0) protocol_error_1_6 reset_codec lenient_types (reset_run (take 3 answered_schedule))"
  unfolding reset_run_def by (rule performed_runs, simp add: reset_eval)+

lemma reset_states:
  "map ht_log (handlers (reset_run answered_schedule)) = [[((''m'', JNull), Ok (Ok JNull))]]"
  "map ht_chan (handlers (reset_run answered_schedule)) = [0]"
  "delivered (reset_run answered_schedule) = [(0, ''m'', JNull)]"
  "request_senders (cl (reset_run answered_schedule)) ''Reset'' = Some 0"
  "map ht_pc (handlers (reset_run (take 3 answered_schedule))) = [HChecking]"
  "map ht_log (handlers (reset_run (take 3 answered_schedule))) = [[]]"
  "map ht_hand (handlers (reset_run (take 3 answered_schedule))) = [[]]"
  "map ht_action (handlers (reset_run (take 3 answered_schedule))) = [''Reset'']"
  "map ht_chan (handlers (reset_run (take 3 answered_schedule))) = [0]"
  "queue (call_chans (cl (reset_run (take 3 answered_schedule))) 0) = [(''m'', JNull)]"
  by (simp_all add: reset_eval)

subsection \<open>Properties\<close>

text \<open>
  C5. Every CALL handed to a handler is answered once and in order, whatever the interleaving of the
  tasks: what the read loop put on a handler's channel is, in order, what the handler has answered, the
  at most one CALL it is working on, and what is still queued. The answers went to the wire in that
  order, one frame each (none for an answer that cannot be encoded), and a payload that does not parse
  was answered with the parse failure.
\<close>

theorem calls_answered_once_in_order:
  assumes "engine_reach cfg P C T s" and "h \<in> set (handlers s)"
  shows "handed_to (ht_chan h) s = map fst (ht_log h) @ ht_hand h @ queue (call_chans (cl s) (ht_chan h))
    \<and> length (ht_hand h) \<le> 1
    \<and> subseq (answer_frames P C (ht_log h)) (sent_ops (cl s))
    \<and> list_all (\<lambda>p. answer_ok P T (ht_action h) (snd (fst p)) (snd p)) (ht_log h)"
proof -
  have "handler_reader h \<in> set (readers (call_room s))" using assms(2) by simp
  from call_mail.nothing_lost [OF assms(1) this]
  have "handed_to (ht_chan h) s = map fst (ht_log h) @ ht_hand h @ queue (call_chans (cl s) (ht_chan h))"
    by (simp add: handed_to_room)
  moreover have "answers_ok P C T (cl s) h"
    using answering.always [OF assms(1)] assms(2) by (simp add: answers_inv_def)
  ultimately show ?thesis
    by (auto simp: answers_ok_def hand_ok_def list_all_iff split: handler_pc.splits)
qed

theorem calls_answered_once_in_order_witness:
  "\<exists>h \<in> set (handlers (reset_run answered_schedule)).
     handed_to (ht_chan h) (reset_run answered_schedule) = [(''m'', JNull)]
     \<and> ht_log h = [((''m'', JNull), Ok (Ok JNull))]
     \<and> subseq [SendOp ''[3,m,null]''] (sent_ops (cl (reset_run answered_schedule)))"
proof -
  obtain h where h: "handlers (reset_run answered_schedule) = [h]" "ht_log h = [((''m'', JNull), Ok (Ok JNull))]"
    "ht_chan h = 0"
    using reset_states(1,2) by auto
  then have mem: "h \<in> set (handlers (reset_run answered_schedule))" by simp
  from calls_answered_once_in_order [OF reset_reach(1) mem] h(2)
  have "subseq [SendOp ''[3,m,null]''] (sent_ops (cl (reset_run answered_schedule)))"
    by (simp add: answer_frames_def reset_response)
  moreover have "handed_to (ht_chan h) (reset_run answered_schedule) = [(''m'', JNull)]"
    using h(3) reset_states(3) by (simp add: handed_to_def)
  ultimately show ?thesis using mem h(2) by blast
qed

text \<open>
  C16. An action that is bound has a live handler: in every reachable state each registered action's
  channel is open and some handler task of that action that has not ended reads it, on the CALL side
  and on the SEND side.
\<close>

theorem bound_actions_have_live_handlers:
  assumes "engine_reach cfg P C T s"
  shows "(request_senders (cl s) a = Some n \<longrightarrow> \<not> is_closed_chan (call_chans (cl s) n)
      \<and> (\<exists>h \<in> set (handlers s). ht_action h = a \<and> ht_chan h = n \<and> ht_pc h \<noteq> HEnded))
    \<and> (notification_senders (cl s) b = Some m \<longrightarrow> \<not> is_closed_chan (send_chans (cl s) m)
      \<and> (\<exists>h \<in> set (notifiers s). nt_action h = b \<and> nt_chan h = m \<and> nt_pc h \<noteq> NEnded))"
  using call_mail.bound_is_attended [OF assms, of a n] send_mail.bound_is_attended [OF assms, of b m]
  by fastforce

theorem bound_actions_have_live_handlers_witness:
  "\<exists>h \<in> set (handlers (reset_run answered_schedule)).
     ht_action h = ''Reset'' \<and> ht_chan h = 0 \<and> ht_pc h \<noteq> HEnded"
  using bound_actions_have_live_handlers [OF reset_reach(1), of "''Reset''" 0] reset_states(4) by blast

text \<open>
  C14. A handler can always catch up: whatever its callback returns, a handler task that has not ended
  can be run, on its own, to a state where its queue is empty and it has answered every CALL handed to
  it so far, the earlier answers followed by those the callback (or the parse check) gives to what was
  in hand and in the queue.
\<close>

theorem handlers_catch_up:
  assumes "engine_reach cfg P C T s" and "i < length (handlers s)" and "ht_pc (handlers s ! i) \<noteq> HEnded"
  shows "\<exists>t. engine_runs cfg P C T s t \<and> i < length (handlers t)
    \<and> queue (call_chans (cl t) (ht_chan (handlers s ! i))) = []
    \<and> map fst (ht_log (handlers t ! i)) = handed_to (ht_chan (handlers s ! i)) s
    \<and> ht_log (handlers t ! i) = ht_log (handlers s ! i)
        @ promised P T callback (handlers s ! i) (queue (call_chans (cl s) (ht_chan (handlers s ! i))))"
proof -
  let ?h = "handlers s ! i"
  have mem: "handler_reader ?h \<in> set (readers (call_room s))" using assms(2) by simp
  have "map fst (promised P T callback ?h q) = ht_hand ?h @ q" for q
    by (simp add: promised_def comp_def split: handler_pc.split)
  with call_mail.nothing_lost [OF assms(1) mem] have "handed_to (ht_chan ?h) s
      = map fst (ht_log ?h @ promised P T callback ?h (queue (call_chans (cl s) (ht_chan ?h))))"
    by (simp add: handed_to_room)
  with handler_catches_up_run [OF assms, of callback] show ?thesis by metis
qed

theorem handlers_catch_up_witness:
  "\<exists>t. engine_runs (client_config_new 0) protocol_error_1_6 reset_codec lenient_types
       (reset_run (take 3 answered_schedule)) t
     \<and> ht_log (handlers t ! 0) = [((''m'', JNull), Ok (Ok (JString ''done'')))]"
proof -
  let ?s = "reset_run (take 3 answered_schedule)"
  obtain h where h: "handlers ?s = [h]" "ht_pc h = HChecking" "ht_log h = []" "ht_hand h = []"
    "ht_action h = ''Reset''" "ht_chan h = 0"
    using reset_states(5-9) by auto
  have "0 < length (handlers ?s)" "ht_pc (handlers ?s ! 0) \<noteq> HEnded" using h by simp_all
  from handlers_catch_up [OF reset_reach(2) this, of "\<lambda>_. Ok (Ok (JString ''done''))"]
  show ?thesis
    using h reset_states(10) by (auto simp: promised_def handler_answer_def lenient_types_def)
qed

end
