(* ===== verification/Engine_Shutdown.thy ===== *)
theory Engine_Shutdown
  imports Engine
begin

text \<open>
  Shutdown and redialling in the running client: \<open>disconnect\<close> is final and completes, and a client without
  a reconnector never redials. The last lemma holds a schedule on which the engine does something its
  comments do not promise.
\<close>

definition control_inv :: "client_config \<Rightarrow> 'e engine \<Rightarrow> bool" where
  "control_inv cfg s \<longleftrightarrow>
     wake_inv (cl s) (rl s) \<and> ka_wake_inv (cl s) (ka s) \<and> backoff_inv cfg (rl s)"

subsection \<open>What each task does to the control state\<close>

text \<open>\<open>closed\<close> only rises, and no step but the waiter's own takes a latched signal.\<close>

definition signals_kept :: "'e client \<Rightarrow> 'e client \<Rightarrow> bool" where
  "signals_kept c c' \<longleftrightarrow> closed c' = closed c
     \<and> (force_reconnect c = Some () \<longrightarrow> force_reconnect c' = Some ())
     \<and> (changed (keepalive c) = Some () \<longrightarrow> changed (keepalive c') = Some ())"

lemma signals_kept_view: "control_view c' = control_view c \<Longrightarrow> signals_kept c c'"
  by (simp add: signals_kept_def control_view_def)

lemma signals_kept_admin:
  "signals_kept c (client_set_ping_interval i c)" "signals_kept c (client_force_reconnect c)"
  by (simp_all add: signals_kept_def client_set_ping_interval_def set_ping_interval_def set_interval_def
      client_force_reconnect_def signal_defs)

lemma call_step_control: "call_step T inp c pc = Some (c', pc') \<Longrightarrow> control_view c' = control_view c"
  by (erule call_step_SomeE)
    (auto simp: call_wait_cases register_pending_def forget_pending_def sink_write_def views Let_def
      split: option.splits if_splits)

lemma ping_step_control: "ping_step inp c pc = Some (c', pc') \<Longrightarrow> control_view c' = control_view c"
  by (erule ping_step_SomeE)
    (auto simp: ping_wait_cases register_ping_def forget_ping_def sink_write_def views Let_def
      split: option.splits if_splits)

lemma ping_step_force: "ping_step inp c pc = Some (c', pc') \<Longrightarrow> force_reconnect c' = force_reconnect c"
  using ping_step_control by (fastforce simp: control_view_def)

lemma ka_step_force:
  "ka_step inp c k = Some (c', k') \<Longrightarrow> force_reconnect c = Some () \<Longrightarrow> force_reconnect c' = Some ()"
  by (auto simp: ka_step_def ka_at_ping_def ka_reconfigured_def take_changed_cases ka_finish_def
      client_force_reconnect_def signal_defs dest: ping_step_force
      split: ka_pc.splits ka_input.splits ping_pc.splits option.splits if_splits prod.splits)

lemma keepalive_resolve [simp]:
  "keepalive (resolve_pending k v c) = keepalive c" "keepalive (resolve_pong b c) = keepalive c"
  by (simp_all add: resolve_pending_def resolve_pong_def split: option.split)

lemma keepalive_route [simp]: "keepalive (fst (route_frame P C f c)) = keepalive c"
proof -
  have "keepalive (route_result C r c) = keepalive c" for r by (cases r) (simp split: option.split)
  moreover have "keepalive (route_error P C e c) = keepalive c" for e by (cases e) (simp split: option.split)
  ultimately show ?thesis by (simp add: route_frame_def route_typed_def split: classified.split option.split)
qed

lemma keepalive_deliver [simp]: "keepalive (deliver d r c) = keepalive c"
  by (cases d) (simp_all add: sink_write_def)

lemma read_event_keepalive: "read_event P C ev c = (c', pc) \<Longrightarrow> keepalive c' = keepalive c"
  using keepalive_route [of P C _ c] by (cases ev) (auto simp: split_beta)

lemma read_task_keepalive: "read_task cfg P C inp c l = Some (c', l') \<Longrightarrow> keepalive c' = keepalive c"
  by (auto simp: read_defs take_wake_cases Let_def sink_write_def clear_pong_waiters_def
      dest: read_event_keepalive split: read_splits)

lemma control_inv_signals:
  assumes "control_inv cfg s" and "rl t = rl s" and "ka t = ka s" and "signals_kept (cl s) (cl t)"
  shows "control_inv cfg t"
  using assms by (auto simp: signals_kept_def control_inv_def wake_inv_def ka_wake_inv_def)

lemma control_inv_disconnect:
  "disconnect_begin c = Some c' \<Longrightarrow> wake_inv c' l \<and> ka_wake_inv c' k"
  by (auto simp: disconnect_begin_def wake_inv_def ka_wake_inv_def signal_defs split: if_splits)

lemma control_inv_kept:
  assumes "engine_step cfg P C T s t" and "control_inv cfg s"
  shows "control_inv cfg t"
  using assms
proof (cases rule: engine_step.cases)
  case (read_loop inp c' l')
  have "ka_wake_inv c' (ka s)"
    using assms(2) read_task_closed [OF read_loop(2)] read_task_keepalive [OF read_loop(2)]
    by (simp add: control_inv_def ka_wake_inv_def)
  with read_loop assms(2) read_task_wake_inv read_task_backoff show ?thesis
    by (auto simp: control_inv_def)
next
  case (keepalive_task inp c' k')
  have "wake_inv c' (rl s)"
    using assms(2) ka_step_closed [OF keepalive_task(2)] ka_step_force [OF keepalive_task(2)]
    by (auto simp: control_inv_def wake_inv_def)
  with keepalive_task assms(2) ka_step_wake_inv show ?thesis by (auto simp: control_inv_def)
next
  case (disconnect c')
  with control_inv_disconnect assms(2) show ?thesis by (auto simp: control_inv_def)
qed (rule control_inv_signals [OF assms(2)], simp, simp, simp add: signals_kept_admin signals_kept_view
    views_steps call_step_control ping_step_control)+

interpretation control: engine_invariant cfg P C T "control_inv cfg" for cfg P C T
proof unfold_locales
  show "control_inv cfg (from_transport_with_config cfg)"
    by (simp add: control_inv_def from_transport_with_config_def backoff_inv_start wake_inv_def ka_wake_inv_def
        new_client_def)
qed (rule control_inv_kept)

subsection \<open>After the shutdown\<close>

fun dial_debt :: "read_pc \<Rightarrow> nat" where
  "dial_debt Dialing = 1"
| "dial_debt Installing = 1"
| "dial_debt _ = 0"

lemma read_event_debt: "read_event P C ev c = (c', pc) \<Longrightarrow> dial_debt pc = 0"
  by (cases ev) (auto split: prod.splits)

lemma read_task_debt:
  assumes "read_task cfg P C inp c l = Some (c', l')" and "closed c"
  shows "next_conn l' + dial_debt (rl_pc l') \<le> next_conn l + dial_debt (rl_pc l)"
  using assms
  by (cases "rl_pc l"; cases inp)
    (auto simp: read_defs take_wake_cases read_woken_def after_exit_def Let_def
      dest: read_event_debt split: option.splits prod.splits if_splits)

lemma engine_step_closed:
  assumes "engine_step cfg P C T s t" and "closed (cl s)"
  shows "closed (cl t)"
  using assms
proof (cases rule: engine_step.cases)
  case (disconnect c')
  then show ?thesis by (auto simp: disconnect_begin_def split: if_splits)
qed (use assms(2) in \<open>auto simp: read_task_closed ka_step_closed client_set_ping_interval_def
    client_force_reconnect_def control_view_def dest: call_step_control ping_step_control views_steps\<close>)

lemma engine_step_debt:
  assumes "engine_step cfg P C T s t" and "closed (cl s)"
  shows "next_conn (rl t) + dial_debt (rl_pc (rl t)) \<le> next_conn (rl s) + dial_debt (rl_pc (rl s))
    \<and> (rl_pc (rl t) = Dialing \<longrightarrow> rl_pc (rl s) = Dialing)"
  using assms
  by (cases rule: engine_step.cases) (auto dest: read_task_debt read_task_no_dial)

lemma engine_runs_closed:
  assumes "engine_runs cfg P C T s t" and "closed (cl s)"
  shows "closed (cl t) \<and> next_conn (rl t) + dial_debt (rl_pc (rl t)) \<le> next_conn (rl s) + dial_debt (rl_pc (rl s))
    \<and> (rl_pc (rl t) = Dialing \<longrightarrow> rl_pc (rl s) = Dialing)"
  using assms
proof (induction rule: engine_runs.induct)
  case stay
  then show ?case by simp
next
  case (go t u)
  with engine_step_closed [OF go(2)] engine_step_debt [OF go(2)] show ?case by auto
qed

lemma read_run_runs:
  "read_run cfg P C is (cl s, rl s) = Some (c', l') \<Longrightarrow>
     \<exists>t. engine_runs cfg P C T s t \<and> cl t = c' \<and> rl t = l' \<and> ka t = ka s"
proof (induction "is" arbitrary: s)
  case Nil
  then show ?case by (auto intro: engine_runs.stay)
next
  case (Cons i "is")
  then obtain c1 l1 where step: "read_task cfg P C i (cl s) (rl s) = Some (c1, l1)"
    and rest: "read_run cfg P C is (c1, l1) = Some (c', l')"
    by (auto split: option.splits)
  let ?u = "read_moves i c1 l1 s"
  from Cons.IH [of ?u] rest obtain t where "engine_runs cfg P C T ?u t" "cl t = c'" "rl t = l'" "ka t = ka s"
    by auto
  moreover have "engine_runs cfg P C T s ?u"
    using engine_step.read_loop [OF step] by (blast intro: engine_runs.intros)
  ultimately show ?case using engine_runs_trans by blast
qed

lemma keepalive_stops:
  assumes "control_inv cfg s" and "closed (cl s)"
  shows "\<exists>t. engine_runs cfg P C T s t \<and> ka_pc (ka t) = KaStopped \<and> rl t = rl s"
  using assms
proof (induction "ka_measure (ka_pc (ka s))" arbitrary: s rule: less_induct)
  case less
  show ?case
  proof (cases "ka_pc (ka s) = KaStopped")
    case True
    then show ?thesis by (auto intro: engine_runs.stay)
  next
    case False
    have inv: "ka_wake_inv (cl s) (ka s)" using less.prems by (simp add: control_inv_def)
    obtain inp c' k' where step: "ka_step inp (cl s) (ka s) = Some (c', k')"
      using ka_step_enabled [OF less.prems(2) inv False] by blast
    let ?u = "s\<lparr>cl := c', ka := k'\<rparr>"
    have go: "engine_step cfg P C T s ?u" by (rule engine_step.keepalive_task [OF step])
    have "ka_measure (ka_pc (ka ?u)) < ka_measure (ka_pc (ka s))"
      using ka_step_measure [OF step less.prems(2) inv] by simp
    moreover have "closed (cl ?u)" "control_inv cfg ?u"
      using engine_step_closed [OF go] control_inv_kept [OF go] less.prems by auto
    ultimately obtain t where "engine_runs cfg P C T ?u t" "ka_pc (ka t) = KaStopped" "rl t = rl s"
      using less.hyps [of ?u] by auto
    moreover have "engine_runs cfg P C T s ?u" using go by (blast intro: engine_runs.intros)
    ultimately show ?thesis using engine_runs_trans by blast
  qed
qed

lemma stop_measure_bound: "stop_measure pc \<le> 6"
  by (cases pc) simp_all

lemma ka_measure_bound: "ka_measure pc \<le> 6"
proof (cases pc)
  case (KaPinging p)
  then show ?thesis by (cases p) simp_all
qed simp_all

subsection \<open>Without a reconnector\<close>

fun lone_pc :: "bool \<Rightarrow> read_pc \<Rightarrow> bool" where
  "lone_pc shut Reading = True"
| "lone_pc shut (Dispatching _) = True"
| "lone_pc shut (Ponging _) = True"
| "lone_pc shut (Exited reason) = (reason = Eof \<or> reason = Shutdown \<and> shut)"
| "lone_pc shut StopClearing = shut"
| "lone_pc shut Stopped = True"
| "lone_pc shut _ = False"

definition lone_inv :: "client_config \<Rightarrow> 'e engine \<Rightarrow> bool" where
  "lone_inv cfg s \<longleftrightarrow>
     (\<not> cfg_reconnector cfg \<longrightarrow>
        lone_pc (closed (cl s)) (rl_pc (rl s)) \<and> stream_conn (rl s) = 0 \<and> next_conn (rl s) = 1)"

lemma lone_pc_mono: "lone_pc shut pc \<Longrightarrow> (shut \<Longrightarrow> shut') \<Longrightarrow> lone_pc shut' pc"
  by (cases pc) auto

lemma read_event_lone: "read_event P C ev c = (c', pc) \<Longrightarrow> lone_pc shut pc"
  by (cases ev) (auto split: prod.splits)

lemma read_task_lone:
  assumes "read_task cfg P C inp c l = Some (c', l')" and "\<not> cfg_reconnector cfg"
    and "lone_pc (closed c) (rl_pc l)"
  shows "lone_pc (closed c') (rl_pc l') \<and> stream_conn l' = stream_conn l \<and> next_conn l' = next_conn l"
  using assms
  by (cases "rl_pc l"; cases inp)
    (auto simp: read_defs take_wake_cases read_woken_def after_exit_def Let_def
      dest: read_event_lone split: option.splits prod.splits if_splits)

lemma lone_inv_kept:
  assumes "engine_step cfg P C T s t" and "lone_inv cfg s"
  shows "lone_inv cfg t"
proof (cases "\<exists>inp c' l'. read_task cfg P C inp (cl s) (rl s) = Some (c', l') \<and> rl t = l' \<and> cl t = c'")
  case True
  with read_task_lone assms(2) show ?thesis unfolding lone_inv_def by metis
next
  case False
  have "rl t = rl s" using assms(1) False by (cases rule: engine_step.cases) auto
  with assms(2) engine_step_closed [OF assms(1)] show ?thesis
    by (auto simp: lone_inv_def elim: lone_pc_mono)
qed

interpretation lone: engine_invariant cfg P C T "lone_inv cfg" for cfg P C T
proof unfold_locales
  show "lone_inv cfg (from_transport_with_config cfg)"
    by (simp add: lone_inv_def from_transport_with_config_def read_loop_start_def)
qed (rule lone_inv_kept)

subsection \<open>Schedules\<close>

text \<open>A client that redials: its first connection ends, it waits, and it dials.\<close>

definition redial_cfg :: client_config where
  "redial_cfg = with_reconnect default_reconnect_policy (client_config_new 0)"

definition to_dialing :: "OCPP1_6Error decision list" where
  "to_dialing = map DRead [RecvEnd, RGo, RGo, Drew 0, DelayOver, RGo]"

definition shutdown_while_dialing :: "OCPP1_6Error decision list" where
  "shutdown_while_dialing = to_dialing @ [DDisconnect, DDisconnectCloses (Ok ())]
     @ map DRead [Dialled True, RGo, RGo, Woken, RGo, RGo]"

definition force_while_dialing :: "OCPP1_6Error decision list" where
  "force_while_dialing = to_dialing @ [DForce]
     @ map DRead [Dialled True, RGo, RGo, Woken, RGo, RSink (Ok ())]"

definition redial_run :: "codec \<Rightarrow> payload_types \<Rightarrow> OCPP1_6Error decision list \<Rightarrow> OCPP1_6Error engine" where
  "redial_run C T ds = the (perform_all redial_cfg protocol_error_1_6 C T ds
     (from_transport_with_config redial_cfg))"

definition lone_run :: "OCPP1_6Error decision list \<Rightarrow> OCPP1_6Error engine" where
  "lone_run ds = the (perform_all (client_config_new 0) protocol_error_1_6 (table_codec []) lenient_types ds
     (from_transport_with_config (client_config_new 0)))"

lemmas redial_eval = redial_run_def redial_cfg_def to_dialing_def shutdown_while_dialing_def
  force_while_dialing_def schedule_eval

lemma redial_reach:
  "engine_reach redial_cfg protocol_error_1_6 C T (redial_run C T to_dialing)"
  "engine_reach redial_cfg protocol_error_1_6 C T (redial_run C T [DDisconnect])"
  "engine_reach redial_cfg protocol_error_1_6 C T (redial_run C T shutdown_while_dialing)"
  "engine_reach redial_cfg protocol_error_1_6 C T (redial_run C T force_while_dialing)"
  unfolding redial_run_def by (rule performed_runs, simp add: redial_eval)+

lemma redial_states:
  "rl_pc (rl (redial_run C T to_dialing)) = Dialing" "length (waits (rl (redial_run C T to_dialing))) = 1"
  "dials (rl (redial_run C T to_dialing)) = 1"
  "closed (cl (redial_run C T [DDisconnect]))"
  by (simp_all add: redial_eval)

subsection \<open>Properties\<close>

text \<open>
  C13. A shutdown is final: once \<open>disconnect\<close> has set the flag, no step of any task clears it and the
  read loop never begins another dial. At most the one dial that was already under way can still
  complete, so at most one more connection is ever installed.
\<close>

theorem shutdown_never_redials:
  assumes "engine_runs cfg P C T s t" and "closed (cl s)"
  shows "closed (cl t)
    \<and> (rl_pc (rl t) = Dialing \<longrightarrow> rl_pc (rl s) = Dialing)
    \<and> next_conn (rl t) \<le> next_conn (rl s) + dial_debt (rl_pc (rl s))"
  using engine_runs_closed [OF assms] by auto

theorem shutdown_never_redials_witness:
  "let s = redial_run (table_codec []) lenient_types (to_dialing @ [DDisconnect]);
       t = redial_run (table_codec []) lenient_types shutdown_while_dialing
   in closed (cl t) \<and> next_conn (rl t) \<le> next_conn (rl s) + 1"
proof -
  let ?run = "redial_run (table_codec []) lenient_types"
  have "engine_runs redial_cfg protocol_error_1_6 (table_codec []) lenient_types
      (?run (to_dialing @ [DDisconnect])) (?run shutdown_while_dialing)"
    by (rule perform_all_runs [of _ _ _ _ "drop 7 shutdown_while_dialing"]) (simp add: redial_eval)
  moreover have "closed (cl (?run (to_dialing @ [DDisconnect])))"
    "dial_debt (rl_pc (rl (?run (to_dialing @ [DDisconnect])))) = 1"
    by (simp_all add: redial_eval)
  ultimately show ?thesis using shutdown_never_redials by (metis (no_types, lifting))
qed

text \<open>
  C12. A shutdown completes: from any reachable state of a closed client the read loop and the keepalive
  task can both run to their end, each step of the read loop other than an inbound event and every step
  of the keepalive task brings it closer, and neither is ever more than six steps away.
\<close>

theorem shutdown_completes:
  assumes "engine_reach cfg P C T s" and "closed (cl s)"
  shows "(\<exists>t. engine_runs cfg P C T s t \<and> rl_pc (rl t) = Stopped \<and> ka_pc (ka t) = KaStopped)
    \<and> (\<forall>inp c' l'. read_task cfg P C inp (cl s) (rl s) = Some (c', l') \<longrightarrow> \<not> inbound inp \<longrightarrow>
        stop_measure (rl_pc l') < stop_measure (rl_pc (rl s)))
    \<and> (\<forall>inp c' k'. ka_step inp (cl s) (ka s) = Some (c', k') \<longrightarrow>
        ka_measure (ka_pc k') < ka_measure (ka_pc (ka s)))
    \<and> stop_measure (rl_pc (rl s)) \<le> 6 \<and> ka_measure (ka_pc (ka s)) \<le> 6"
proof (intro conjI allI impI)
  have inv: "control_inv cfg s" by (rule control.always [OF assms(1)])
  obtain "is" c' l' where "read_run cfg P C is (cl s, rl s) = Some (c', l')" "rl_pc l' = Stopped"
    using read_run_stops [OF assms(2) _ order_refl, of "rl s" cfg P C] inv by (auto simp: control_inv_def)
  then obtain u where u: "engine_runs cfg P C T s u" "rl_pc (rl u) = Stopped"
    using read_run_runs by blast
  then obtain t where "engine_runs cfg P C T u t" "ka_pc (ka t) = KaStopped" "rl t = rl u"
    using keepalive_stops [of cfg u P C T] control.kept_by_runs [OF u(1) inv] engine_runs_closed [OF u(1) assms(2)]
    by blast
  then show "\<exists>t. engine_runs cfg P C T s t \<and> rl_pc (rl t) = Stopped \<and> ka_pc (ka t) = KaStopped"
    using u engine_runs_trans by metis
  show "stop_measure (rl_pc l') < stop_measure (rl_pc (rl s))"
    if "read_task cfg P C inp (cl s) (rl s) = Some (c', l')" "\<not> inbound inp" for inp c' l'
    using read_task_measure [OF that(1) assms(2) that(2)] .
  show "ka_measure (ka_pc k') < ka_measure (ka_pc (ka s))"
    if "ka_step inp (cl s) (ka s) = Some (c', k')" for inp c' k'
    using ka_step_measure [OF that assms(2)] inv by (simp add: control_inv_def)
qed (rule stop_measure_bound ka_measure_bound)+

theorem shutdown_completes_witness:
  "\<exists>t. engine_runs redial_cfg protocol_error_1_6 (table_codec []) lenient_types
       (redial_run (table_codec []) lenient_types [DDisconnect]) t
     \<and> rl_pc (rl t) = Stopped \<and> ka_pc (ka t) = KaStopped"
  using shutdown_completes [OF redial_reach(2) redial_states(4)] by blast

text \<open>
  Without a reconnector a client keeps its one connection: whatever keepalive escalates and however
  often \<open>force_reconnect\<close> is called, the read loop never closes, waits or dials, and it stops reading
  only on the end of the stream or on an explicit shutdown.
\<close>

lemma without_reconnector_never_redials:
  assumes "engine_reach cfg P C T s" and "\<not> cfg_reconnector cfg"
  shows "stream_conn (rl s) = 0 \<and> next_conn (rl s) = 1
    \<and> (\<exists>d payload. rl_pc (rl s) \<in> {Reading, Dispatching d, Ponging payload, Exited Eof, Stopped}
        \<or> (closed (cl s) \<and> rl_pc (rl s) \<in> {Exited Shutdown, StopClearing}))"
  using lone.always [OF assms(1)] assms(2)
  by (cases "rl_pc (rl s)") (auto simp: lone_inv_def)

lemma without_reconnector_never_redials_example:
  "let s = lone_run [DForce, DRead Woken] in rl_pc (rl s) = Reading \<and> stream_conn (rl s) = 0"
proof -
  have "engine_reach (client_config_new 0) protocol_error_1_6 (table_codec []) lenient_types
      (lone_run [DForce, DRead Woken])"
    unfolding lone_run_def by (rule performed_runs) (simp add: schedule_eval)
  moreover have "\<not> cfg_reconnector (client_config_new 0)" by (simp add: client_config_new_def)
  moreover have "rl_pc (rl (lone_run [DForce, DRead Woken])) = Reading"
    by (simp add: lone_run_def schedule_eval)
  ultimately show ?thesis using without_reconnector_never_redials by (metis (no_types, lifting))
qed

text \<open>
  A closed client refuses work at once and touches nothing: calls, pings and notifications return
  \<open>Closed\<close> without registering a waiter or writing to the sink, \<open>force_reconnect\<close> is a no-op, and
  \<open>disconnect\<close> again is an idempotent success.
\<close>

lemma closed_client_refuses:
  assumes "closed c"
  shows "call_start C message_id action request_value c = CallReturned (Err Closed)
    \<and> ping_start c = PingReturned (Err Closed)
    \<and> send_notification C message_id action payload_value r c = (Err Closed, c)
    \<and> client_force_reconnect c = c
    \<and> disconnect r c = (Ok (), c)"
  using assms by (simp add: call_start_def ping_start_def send_notification_def send_notification_frame_def
      client_force_reconnect_def disconnect_def disconnect_begin_def)

lemma closed_client_refuses_example:
  "let c = snd (disconnect (Ok ()) (new_client (client_config_new 0))) :: OCPP2_1Error client
   in wire c = [(0, CloseOp, True)] \<and> disconnect (Err ''gone'') c = (Ok (), c)"
proof -
  let ?c = "snd (disconnect (Ok ()) (new_client (client_config_new 0))) :: OCPP2_1Error client"
  have "closed ?c" by (simp add: client_defs new_client_def)
  from closed_client_refuses [OF this, of _ _ _ _ _ "Err ''gone''"] show ?thesis
    by (simp add: Let_def client_defs new_client_def)
qed

text \<open>
  A forced redial requested while a dial is already in progress is not absorbed by that dial: the
  signal stays latched, and the loop abandons the connection it has just installed, closing it before
  anything was read from it.
\<close>

lemma force_during_dial_abandons_fresh_connection:
  "\<exists>s :: OCPP1_6Error engine. engine_reach redial_cfg protocol_error_1_6 C T s
     \<and> \<not> closed (cl s) \<and> inbox s = [] \<and> sink_conn (cl s) = 1 \<and> wire (cl s) = [(1, CloseOp, True)]"
  by (rule exI [of _ "redial_run C T force_while_dialing"])
    (intro conjI redial_reach, (simp add: redial_eval)+)

end
