(* ===== verification/Engine_Subscribers.thy ===== *)
theory Engine_Subscribers
  imports Engine
begin

text \<open>
  The subscribers of the running client (\<open>on_ping\<close>, \<open>on_reconnect\<close>) and the connections they hear about:
  a broadcast is never lost and never invented, however the callbacks are scheduled, and the sink and
  the stream always belong to the same, newest, connection.
\<close>

definition connections_ok :: "'e client \<Rightarrow> read_loop \<Rightarrow> bool" where
  "connections_ok c l \<longleftrightarrow> sink_conn c = stream_conn l \<and> next_conn l = Suc (stream_conn l)
     \<and> (rl_pc l = Announcing \<longrightarrow> 0 < stream_conn l)"

definition subscriber_ok :: "'e engine \<Rightarrow> subscriber_task \<Rightarrow> bool" where
  "subscriber_ok s b \<longleftrightarrow>
     st_slot b < length (registry_of (st_registry b) (cl s))
     \<and> (registry_of (st_registry b) (cl s) ! st_slot b = Some () \<longleftrightarrow> st_mark b < broadcasts (st_registry b) s)
     \<and> st_fired b \<le> st_mark b \<and> st_mark b \<le> broadcasts (st_registry b) s"

abbreviation subscriber_key :: "subscriber_task \<Rightarrow> registry_kind \<times> nat" where
  "subscriber_key b \<equiv> (st_registry b, st_slot b)"

definition subscribers_inv :: "'e engine \<Rightarrow> bool" where
  "subscribers_inv s \<longleftrightarrow> connections_ok (cl s) (rl s) \<and> distinct (map subscriber_key (subscribers s))
     \<and> (\<forall>b \<in> set (subscribers s). subscriber_ok s b)"

subsection \<open>What each task does to the registries\<close>

definition public_view :: "'e client \<Rightarrow> nat \<times> broadcast_registry \<times> broadcast_registry" where
  "public_view c = (sink_conn c, ping_registry c, reconnect_registry c)"

lemma public_view_registry: "public_view c' = public_view c \<Longrightarrow> registry_of kind c' = registry_of kind c"
  by (cases kind) (simp_all add: public_view_def)

lemma public_view_simps [simp]:
  "public_view (sink_write op r c) = public_view c" "public_view (resolve_pending k v c) = public_view c"
  "public_view (resolve_pong b c) = public_view c" "public_view (clear_pong_waiters c) = public_view c"
  "public_view (c\<lparr>force_reconnect := w\<rparr>) = public_view c"
  "public_view (client_set_ping_interval i c) = public_view c"
  "public_view (client_force_reconnect c) = public_view c"
  by (simp_all add: public_view_def sink_write_def resolve_pending_def resolve_pong_def clear_pong_waiters_def
      client_set_ping_interval_def client_force_reconnect_def split: option.split)

lemma public_view_route [simp]: "public_view (fst (route_frame P C f c)) = public_view c"
proof -
  have "public_view (route_result C r c) = public_view c" for r by (cases r) (simp split: option.split)
  moreover have "public_view (route_error P C e c) = public_view c" for e by (cases e) (simp split: option.split)
  ultimately show ?thesis by (simp add: route_frame_def route_typed_def split: classified.split option.split)
qed

lemma public_view_deliver [simp]: "public_view (deliver d r c) = public_view c"
  by (cases d) (simp_all, simp_all add: public_view_def)

lemma public_view_call: "call_step T inp c pc = Some (c', pc') \<Longrightarrow> public_view c' = public_view c"
  by (erule call_step_SomeE)
    (auto simp: call_wait_cases register_pending_def forget_pending_def sink_write_def public_view_def Let_def
      split: option.splits if_splits)

lemma public_view_ping: "ping_step inp c pc = Some (c', pc') \<Longrightarrow> public_view c' = public_view c"
  by (erule ping_step_SomeE)
    (auto simp: ping_wait_cases register_ping_def forget_ping_def sink_write_def public_view_def Let_def
      split: option.splits if_splits)

lemma public_view_ka: "ka_step inp c k = Some (c', k') \<Longrightarrow> public_view c' = public_view c"
  by (auto simp: ka_step_def ka_at_ping_def ka_reconfigured_def take_changed_cases ka_finish_def public_view_def
      client_force_reconnect_def dest: public_view_ping [unfolded public_view_def]
      split: ka_pc.splits ka_input.splits ping_pc.splits option.splits if_splits prod.splits)

lemma public_view_handler:
  "handler_step P C T a n inp c pc = Some (c', pc') \<Longrightarrow> public_view c' = public_view c"
  by (induction P C T a n inp c pc rule: handler_step.induct)
    (auto simp: public_view_def do_send_response_wire split: recv_outcome.splits option.splits prod.splits)

lemma public_view_notifier:
  "notification_step T a n c pc = Some (c', pc') \<Longrightarrow> public_view c' = public_view c"
  by (cases pc) (auto simp: public_view_def split: recv_outcome.splits option.splits prod.splits)

lemma public_view_registration:
  "client_on a c = (n, c') \<Longrightarrow> public_view c' = public_view c"
  "client_on_notification a c = (n, c') \<Longrightarrow> public_view c' = public_view c"
  by (auto simp: public_view_def client_on_def client_on_notification_def Let_def split: option.splits)

lemma public_view_admin:
  "send_step inp c pc = Some (c', pc') \<Longrightarrow> public_view c' = public_view c"
  "disconnect_begin c = Some c' \<Longrightarrow> public_view c' = public_view c"
  "disconnect_close r c = (res', c') \<Longrightarrow> public_view c' = public_view c"
  by (auto simp: public_view_def disconnect_begin_def disconnect_close_def sink_write_def
      elim!: send_step_SomeE split: if_splits)

lemmas public_keepers = public_view_call public_view_ping public_view_ka public_view_handler
  public_view_notifier public_view_registration public_view_admin

subsection \<open>Broadcasts\<close>

text \<open>
  A step of the read loop either broadcasts on a registry, and is counted, or leaves both the registry and
  the count as they are.
\<close>

definition heard :: "'e engine \<Rightarrow> 'e engine \<Rightarrow> registry_kind \<Rightarrow> bool" where
  "heard s t kind \<longleftrightarrow>
     registry_of kind (cl t) = registry_of kind (cl s) \<and> broadcasts kind t = broadcasts kind s
     \<or> registry_of kind (cl t) = notify_all (registry_of kind (cl s)) \<and> broadcasts kind t = Suc (broadcasts kind s)"

lemma heard_same:
  assumes "public_view (cl t) = public_view (cl s)" and "filter is_ping (inbox t) = filter is_ping (inbox s)"
    and "next_conn (rl t) = next_conn (rl s)" and "rl_pc (rl t) \<noteq> Announcing" "rl_pc (rl s) \<noteq> Announcing"
  shows "heard s t kind"
  using assms by (cases kind) (auto simp: heard_def public_view_def)

lemma read_event_pc_kinds:
  "read_event P C ev c = (c', pc) \<Longrightarrow> pc \<noteq> Announcing"
  "read_event P C ev c = (c', pc) \<Longrightarrow> \<not> is_ping ev \<Longrightarrow> public_view c' = public_view c"
  "read_event P C ev c = (c', pc) \<Longrightarrow> sink_conn c' = sink_conn c"
  using public_view_route [of P C _ c] public_view_simps(3) [of _ c]
  by (cases ev; auto simp: split_beta public_view_def)+

lemma heard_event:
  assumes "read_event P C ev (cl s) = (c', pc)" and "rl_pc (rl s) \<noteq> Announcing"
    and "cl t = c'" and "rl_pc (rl t) = pc" and "next_conn (rl t) = next_conn (rl s)" and "inbox t = inbox s @ [ev]"
  shows "heard s t kind"
proof (cases "is_ping ev")
  case True
  then obtain payload where "ev = Ping payload" by (cases ev) auto
  with assms have "cl t = (cl s)\<lparr>ping_registry := notify_all (ping_registry (cl s))\<rparr>"
    "rl_pc (rl t) = Ponging payload" by auto
  with assms(2,5,6) \<open>ev = Ping payload\<close> show ?thesis by (cases kind) (auto simp: heard_def)
next
  case False
  with assms read_event_pc_kinds [OF assms(1)] show ?thesis by (intro heard_same) auto
qed

lemma exits_not_announcing [simp]:
  "read_woken cfg c \<noteq> Announcing" "after_exit cfg reason c \<noteq> Announcing"
  by (simp_all add: read_woken_def after_exit_def)

lemma read_task_heard:
  assumes "read_task cfg P C inp (cl s) (rl s) = Some (c', l')" and "connections_ok (cl s) (rl s)"
  shows "heard s (read_moves inp c' l' s) kind"
proof (cases "rl_pc (rl s)")
  case Reading
  show ?thesis
  proof (cases inp)
    case (RecvEvent ev)
    obtain d pc where ev: "read_event P C ev (cl s) = (d, pc)" by fastforce
    with Reading RecvEvent assms(1) show ?thesis
      by (intro heard_event [OF ev]) (auto simp: read_defs)
  qed (use Reading assms(1) in \<open>auto intro!: heard_same simp: read_defs take_wake_cases split: option.splits\<close>)
next
  case Installing
  with assms show ?thesis
    by (cases inp; cases kind) (auto simp: heard_def read_defs connections_ok_def)
next
  case Announcing
  with assms show ?thesis
    by (cases inp; cases kind) (auto simp: heard_def read_defs connections_ok_def)
qed (use assms(1) in \<open>auto intro!: heard_same simp: read_defs take_wake_cases Let_def
    split: read_input.splits option.splits if_splits\<close>)

lemma read_task_connections:
  assumes "read_task cfg P C inp c l = Some (c', l')" and "connections_ok c l"
  shows "connections_ok c' l'"
proof (cases "rl_pc l = Reading \<and> inbound inp")
  case True
  then obtain ev where "inp = RecvEvent ev" by (cases inp) auto
  obtain d pc where ev: "read_event P C ev c = (d, pc)" by fastforce
  have "sink_conn d = sink_conn c" by (rule read_event_pc_kinds(3) [OF ev])
  with True \<open>inp = RecvEvent ev\<close> ev assms read_event_pc_kinds(1) [OF ev] show ?thesis
    by (auto simp: read_defs connections_ok_def)
next
  case False
  have "sink_conn (deliver d r c) = sink_conn c" for d r
    using public_view_deliver [of d r c] by (simp add: public_view_def)
  with False assms show ?thesis
    by (cases "rl_pc l"; cases inp)
      (auto simp: read_defs connections_ok_def take_wake_cases sink_write_def clear_pong_waiters_def Let_def
        split: option.splits if_splits)
qed

subsection \<open>The invariant\<close>

lemma subscriber_ok_heard:
  assumes "heard s t (st_registry b)" and "subscriber_ok s b"
  shows "subscriber_ok t b"
  using assms by (auto simp: heard_def subscriber_ok_def nth_notify_all)

lemma heard_other:
  assumes "public_view (cl t) = public_view (cl s)" and "inbox t = inbox s" and "rl t = rl s"
  shows "heard s t kind"
  using assms by (cases kind) (auto simp: heard_def public_view_def)

lemma broadcasts_cong: "inbox t = inbox s \<Longrightarrow> rl t = rl s \<Longrightarrow> broadcasts kind t = broadcasts kind s"
  by (cases kind) simp_all

lemma sink_conn_with_registry [simp]: "sink_conn (with_registry kind r c) = sink_conn c"
  by (cases kind) simp_all

lemma connections_ok_sink: "connections_ok c l \<Longrightarrow> sink_conn c' = sink_conn c \<Longrightarrow> connections_ok c' l"
  by (simp add: connections_ok_def)

text \<open>Other subscribers are unaffected by what happens to one slot of one registry.\<close>

lemma subscriber_ok_slot:
  assumes "subscriber_ok s b" and "broadcasts (st_registry b) t = broadcasts (st_registry b) s"
    and "cl t = with_registry kind r (cl s)"
    and "st_registry b = kind \<Longrightarrow> length (registry_of kind (cl s)) \<le> length r
      \<and> r ! st_slot b = registry_of kind (cl s) ! st_slot b"
  shows "subscriber_ok t b"
  using assms by (cases "st_registry b = kind") (auto simp: subscriber_ok_def)

lemma subscribe_inv:
  assumes "subscribers_inv s" and "client_subscribe kind (cl s) = (slot, c')"
  shows "subscribers_inv (s\<lparr>cl := c', subscribers := subscribers s @
    [\<lparr>st_registry = kind, st_slot = slot, st_pc = SWaiting, st_mark = broadcasts kind s, st_fired = 0\<rparr>]\<rparr>)"
    (is "subscribers_inv ?t")
proof -
  let ?new = "\<lparr>st_registry = kind, st_slot = slot, st_pc = SWaiting, st_mark = broadcasts kind s, st_fired = 0\<rparr>"
  let ?r = "registry_of kind (cl s)"
  have c: "slot = length ?r" "c' = with_registry kind (?r @ [None]) (cl s)"
    using assms(2) by (auto simp: client_subscribe_cases)
  have count: "broadcasts k ?t = broadcasts k s" for k by (rule broadcasts_cong) simp_all
  have "subscriber_ok ?t b" if b: "b \<in> set (subscribers s)" for b
  proof (rule subscriber_ok_slot [OF _ count])
    show ok: "subscriber_ok s b" using assms(1) b by (simp add: subscribers_inv_def)
    show "cl ?t = with_registry kind (?r @ [None]) (cl s)" by (simp add: c)
    show "length ?r \<le> length (?r @ [None]) \<and> (?r @ [None]) ! st_slot b = ?r ! st_slot b" if "st_registry b = kind"
      using ok that by (auto simp: subscriber_ok_def nth_append)
  qed
  moreover have "subscriber_ok ?t ?new"
    using count [of kind] by (simp add: subscriber_ok_def c del: broadcasts.simps)
  moreover have "(kind, slot) \<notin> subscriber_key ` set (subscribers s)"
    using assms(1) c(1) by (auto simp: subscribers_inv_def subscriber_ok_def)
  ultimately show ?thesis using assms(1) by (auto simp: subscribers_inv_def c connections_ok_def)
qed

lemma subscriber_moves_inv:
  assumes "subscribers_inv s" and "i < length (subscribers s)"
    and "subscriber_step (st_registry (subscribers s ! i)) (st_slot (subscribers s ! i)) (cl s)
      (st_pc (subscribers s ! i)) = Some (c', pc')"
  shows "subscribers_inv (s\<lparr>cl := c', subscribers := (subscribers s)[i :=
    subscriber_moved (broadcasts (st_registry (subscribers s ! i)) s) pc' (subscribers s ! i)]\<rparr>)"
    (is "subscribers_inv ?t")
proof -
  let ?b = "subscribers s ! i"
  let ?new = "subscriber_moved (broadcasts (st_registry ?b) s) pc' ?b"
  let ?r = "registry_of (st_registry ?b) (cl s)"
  have key: "subscriber_key ?new = subscriber_key ?b" by (simp add: subscriber_moved_def)
  have keys: "map subscriber_key (subscribers ?t) = map subscriber_key (subscribers s)"
    using assms(2) key by (simp add: map_update list_update_same_conv)
  have count: "broadcasts k ?t = broadcasts k s" for k by (rule broadcasts_cong) simp_all
  have ok: "subscriber_ok s ?b" using assms(1,2) by (simp add: subscribers_inv_def)
  have c': "c' = cl s \<and> st_pc ?b = SCalling
      \<or> c' = with_registry (st_registry ?b) (?r[st_slot ?b := None]) (cl s) \<and> st_pc ?b = SWaiting \<and> ?r ! st_slot ?b = Some ()"
    using assms(3) by (cases "st_pc ?b") (auto simp: subscriber_step_waiting simp del: subscriber_step.simps(1))
  have "subscriber_ok ?t ?new"
    using c' ok count [of "st_registry ?b"]
    by (auto simp: subscriber_ok_def subscriber_moved_def simp del: broadcasts.simps)
  moreover have "subscriber_ok ?t x" if j: "j < length (subscribers s)" "j \<noteq> i" "x = subscribers s ! j" for j x
  proof -
    have x: "subscriber_ok s x" "subscriber_key x \<noteq> subscriber_key ?b"
      using assms(1,2) j by (auto simp: subscribers_inv_def distinct_conv_nth)
    from c' show ?thesis
    proof
      assume "c' = cl s \<and> st_pc ?b = SCalling"
      with x(1) count show ?thesis by (simp add: subscriber_ok_def del: broadcasts.simps)
    next
      assume "c' = with_registry (st_registry ?b) (?r[st_slot ?b := None]) (cl s) \<and> st_pc ?b = SWaiting
        \<and> ?r ! st_slot ?b = Some ()"
      then show ?thesis
        by (intro subscriber_ok_slot [OF x(1) count, where kind = "st_registry ?b" and r = "?r[st_slot ?b := None]"])
          (use x(2) in auto)
    qed
  qed
  ultimately have "\<forall>x \<in> set (subscribers ?t). subscriber_ok ?t x"
    using assms(2) by (auto simp: in_set_conv_nth nth_list_update simp del: broadcasts.simps)
  moreover have "sink_conn c' = sink_conn (cl s)" using c' by auto
  ultimately show ?thesis
    using assms(1) keys by (auto simp: subscribers_inv_def connections_ok_def)
qed

lemma subscribers_inv_heard:
  assumes "subscribers_inv s" and "\<And>kind. heard s t kind" and "connections_ok (cl t) (rl t)"
    and "subscribers t = subscribers s"
  shows "subscribers_inv t"
  using assms by (auto simp: subscribers_inv_def intro: subscriber_ok_heard)

lemma subscribers_inv_other:
  fixes s t :: "'e engine"
  assumes "subscribers_inv s" and "public_view (cl t) = public_view (cl s)" and "inbox t = inbox s" and "rl t = rl s"
    and "subscribers t = subscribers s"
  shows "subscribers_inv t"
proof (rule subscribers_inv_heard [OF assms(1)])
  show "subscribers t = subscribers s" by (rule assms(5))
  show "heard s t kind" for kind by (rule heard_other [OF assms(2-4)])
  show "connections_ok (cl t) (rl t)"
    using assms(1,2,4) by (auto simp: subscribers_inv_def public_view_def intro: connections_ok_sink)
qed

lemma subscribers_inv_kept:
  assumes "engine_step cfg P C T s t" and "subscribers_inv s"
  shows "subscribers_inv t"
  using assms(1)
proof (cases rule: engine_step.cases)
  case (read_loop inp c' l')
  have ok: "connections_ok (cl s) (rl s)" using assms(2) by (simp add: subscribers_inv_def)
  show ?thesis unfolding read_loop(1)
    by (rule subscribers_inv_heard [OF assms(2) read_task_heard [OF read_loop(2) ok]])
      (use read_task_connections [OF read_loop(2) ok] in simp_all)
next
  case (subscribe kind slot c')
  then show ?thesis using subscribe_inv [OF assms(2)] by blast
next
  case (subscriber_moves i c' pc')
  then show ?thesis using subscriber_moves_inv [OF assms(2)] by blast
qed (rule subscribers_inv_other [OF assms(2)], (auto intro: public_keepers)[1], simp, simp, simp)+

interpretation subscribing: engine_invariant cfg P C T subscribers_inv for cfg P C T
proof unfold_locales
  show "subscribers_inv (from_transport_with_config cfg)"
    by (simp add: subscribers_inv_def from_transport_with_config_def connections_ok_def new_client_def
        read_loop_start_def)
qed (rule subscribers_inv_kept)

subsection \<open>Properties\<close>

text \<open>A client that is told of a redial while nothing else happens, and one told twice before it looks.\<close>

definition told_schedule :: "nat \<Rightarrow> OCPP1_6Error decision list" where
  "told_schedule n = DSubscribe ReconnectRegistry #
     concat (replicate n (map DRead [RecvEnd, RGo, RGo, Drew 0, DelayOver, RGo, Dialled True, RGo, RGo]))"

definition told_cfg :: client_config where
  "told_cfg = with_reconnect default_reconnect_policy (client_config_new 0)"

definition told_run :: "nat \<Rightarrow> OCPP1_6Error engine" where
  "told_run n = the (perform_all told_cfg protocol_error_1_6 (table_codec []) lenient_types (told_schedule n)
     (from_transport_with_config told_cfg))"

lemmas told_eval = told_run_def told_schedule_def told_cfg_def schedule_eval client_subscribe_cases notify_all_def
  registry_new_def numeral_2_eq_2

lemma told_reach: "engine_reach told_cfg protocol_error_1_6 (table_codec []) lenient_types (told_run 2)"
  unfolding told_run_def by (rule performed_runs) (simp add: told_eval)

lemma told_states:
  "subscribers (told_run 2) =
     [\<lparr>st_registry = ReconnectRegistry, st_slot = 0, st_pc = SWaiting, st_mark = 0, st_fired = 0\<rparr>]"
  "broadcasts ReconnectRegistry (told_run 2) = 2"
  by (simp_all add: told_eval)

text \<open>
  C23. No reconnect and no inbound ping goes unnoticed, and none is invented: in every interleaving a
  subscriber's signal is set exactly when its registry has broadcast since the subscriber's callback
  last started (or since it subscribed), so a subscriber that is waiting then runs its callback next;
  however the broadcasts coalesce, the callback has run at most once for each.
\<close>

theorem broadcasts_reach_subscribers:
  assumes "engine_reach cfg P C T s" and "b \<in> set (subscribers s)" and "st_pc b = SWaiting"
  shows "((\<exists>c'. subscriber_step (st_registry b) (st_slot b) (cl s) SWaiting = Some (c', SCalling))
      \<longleftrightarrow> st_mark b < broadcasts (st_registry b) s)
    \<and> st_fired b \<le> st_mark b \<and> st_mark b \<le> broadcasts (st_registry b) s"
proof -
  have "subscriber_ok s b"
    using subscribing.always [OF assms(1)] assms(2) by (simp add: subscribers_inv_def)
  then show ?thesis
    by (auto simp: subscriber_ok_def subscriber_step_waiting simp del: subscriber_step.simps(1) broadcasts.simps)
qed

theorem broadcasts_reach_subscribers_witness:
  "\<exists>b \<in> set (subscribers (told_run 2)). st_fired b = 0
     \<and> (\<exists>c'. subscriber_step (st_registry b) (st_slot b) (cl (told_run 2)) SWaiting = Some (c', SCalling))"
proof -
  let ?b = "\<lparr>st_registry = ReconnectRegistry, st_slot = 0, st_pc = SWaiting, st_mark = 0, st_fired = 0\<rparr>"
  have mem: "?b \<in> set (subscribers (told_run 2))" unfolding told_states by simp
  from broadcasts_reach_subscribers [OF told_reach mem] told_states(2)
  have "\<exists>c'. subscriber_step (st_registry ?b) (st_slot ?b) (cl (told_run 2)) SWaiting = Some (c', SCalling)"
    by (simp del: subscriber_step.simps broadcasts.simps)
  with mem show ?thesis by (intro bexI [of _ ?b]) simp_all
qed

end
