(* ===== verification/Engine_Redial.thy ===== *)
theory Engine_Redial
  imports Engine_Shutdown Engine_Subscribers
begin

text \<open>
  Redialling in the running client: with a reconnector the read loop stops for a shutdown only and can
  always reach a fresh connection, and a peer that stops answering pings is redialled.
\<close>

subsection \<open>An open client with a reconnector keeps going\<close>

definition going_inv :: "client_config \<Rightarrow> 'e engine \<Rightarrow> bool" where
  "going_inv cfg s \<longleftrightarrow> (cfg_reconnector cfg \<and> \<not> closed (cl s) \<longrightarrow>
     rl_pc (rl s) \<notin> {Exited Shutdown, StopClearing, Stopped})"

lemma read_event_going: "read_event P C ev c = (c', pc) \<Longrightarrow> pc \<notin> {Exited Shutdown, StopClearing, Stopped}"
  by (cases ev) (auto split: prod.splits)

lemma read_task_going:
  assumes "read_task cfg P C inp c l = Some (c', l')" and "cfg_reconnector cfg" and "\<not> closed c"
    and "rl_pc l \<notin> {Exited Shutdown, StopClearing, Stopped}"
  shows "rl_pc l' \<notin> {Exited Shutdown, StopClearing, Stopped}"
  using assms
  by (cases "rl_pc l"; cases inp)
    (auto simp: read_defs take_wake_cases read_woken_def after_exit_def Let_def
      dest: read_event_going split: option.splits prod.splits if_splits)

lemma going_inv_kept:
  assumes "engine_step cfg P C T s t" and "going_inv cfg s"
  shows "going_inv cfg t"
proof (cases "\<exists>inp c' l'. read_task cfg P C inp (cl s) (rl s) = Some (c', l') \<and> rl t = l' \<and> cl t = c'")
  case True
  then obtain inp c' l' where step: "read_task cfg P C inp (cl s) (rl s) = Some (c', l')" "rl t = l'" "cl t = c'"
    by blast
  with read_task_going [OF step(1)] read_task_closed [OF step(1)] assms(2) show ?thesis
    by (auto simp: going_inv_def)
next
  case False
  have "rl t = rl s" using assms(1) False by (cases rule: engine_step.cases) auto
  with assms(2) engine_step_closed [OF assms(1)] show ?thesis by (auto simp: going_inv_def)
qed

interpretation going: engine_invariant cfg P C T "going_inv cfg" for cfg P C T
proof unfold_locales
  show "going_inv cfg (from_transport_with_config cfg)"
    by (simp add: going_inv_def from_transport_with_config_def read_loop_start_def)
qed (rule going_inv_kept)

subsection \<open>The way to a fresh connection\<close>

text \<open>How far a running loop is from reading again, and what it needs to get closer.\<close>

fun reading_measure :: "read_pc \<Rightarrow> nat" where
  "reading_measure (Exited _) = 9"
| "reading_measure CourtesyClose = 8"
| "reading_measure Clearing = 7"
| "reading_measure Delaying = 6"
| "reading_measure (BackingOff _) = 5"
| "reading_measure DialCheck = 4"
| "reading_measure Dialing = 3"
| "reading_measure Installing = 2"
| "reading_measure Reading = 0"
| "reading_measure _ = 1"

fun reading_input :: "read_pc \<Rightarrow> read_input" where
  "reading_input Dialing = Dialled True"
| "reading_input pc = stop_input pc"

lemma read_task_towards_reading:
  assumes "cfg_reconnector cfg" and "\<not> closed c" and "rl_pc l \<notin> {Reading, Exited Shutdown, StopClearing, Stopped}"
    and "connections_ok c l"
  shows "\<exists>c' l'. read_task cfg P C (reading_input (rl_pc l)) c l = Some (c', l')
    \<and> reading_measure (rl_pc l') < reading_measure (rl_pc l) \<and> stream_conn l \<le> stream_conn l'"
  using assms
proof (cases "rl_pc l")
  case (Exited reason)
  with assms show ?thesis by (cases reason) (auto simp: read_defs after_exit_def)
qed (auto simp: read_defs Let_def connections_ok_def)

lemma reaches_reading:
  assumes "cfg_reconnector cfg" and "\<not> closed c" and "rl_pc l \<notin> {Exited Shutdown, StopClearing, Stopped}"
    and "connections_ok c l"
  shows "\<exists>is c' l'. read_run cfg P C is (c, l) = Some (c', l') \<and> rl_pc l' = Reading \<and> \<not> closed c'
    \<and> connections_ok c' l' \<and> stream_conn l \<le> stream_conn l'"
  using assms
proof (induction "reading_measure (rl_pc l)" arbitrary: c l rule: less_induct)
  case less
  show ?case
  proof (cases "rl_pc l = Reading")
    case True
    with less.prems show ?thesis by (intro exI [of _ "[]"]) auto
  next
    case False
    with less.prems obtain c1 l1 where step: "read_task cfg P C (reading_input (rl_pc l)) c l = Some (c1, l1)"
      "reading_measure (rl_pc l1) < reading_measure (rl_pc l)" "stream_conn l \<le> stream_conn l1"
      using read_task_towards_reading [of cfg c l P C] by auto
    have "\<not> closed c1" "rl_pc l1 \<notin> {Exited Shutdown, StopClearing, Stopped}" "connections_ok c1 l1"
      using read_task_closed [OF step(1)] read_task_going [OF step(1)] read_task_connections [OF step(1)] less.prems
      by auto
    with less.hyps [OF step(2) less.prems(1)] obtain "is" c' l' where
      "read_run cfg P C is (c1, l1) = Some (c', l')" "rl_pc l' = Reading" "\<not> closed c'" "connections_ok c' l'"
      "stream_conn l1 \<le> stream_conn l'" by blast
    with step show ?thesis by (intro exI [of _ "reading_input (rl_pc l) # is"]) auto
  qed
qed

text \<open>One round: the stream ends, the loop waits, dials and installs the next connection.\<close>

lemma redial_round:
  assumes "cfg_reconnector cfg" and "\<not> closed c" and "rl_pc l = Reading"
  shows "\<exists>c' l'. read_run cfg P C [RecvEnd, RGo, RGo, Drew u, DelayOver, RGo, Dialled True, RGo, RGo] (c, l) = Some (c', l')
    \<and> rl_pc l' = Reading \<and> stream_conn l' = next_conn l \<and> sink_conn c' = next_conn l \<and> \<not> closed c'"
  using assms by (simp add: read_defs after_exit_def clear_pong_waiters_def Let_def)

lemma recovers:
  assumes "engine_reach cfg P C T s" and "cfg_reconnector cfg" and "\<not> closed (cl s)"
  shows "rl_pc (rl s) \<noteq> Stopped
    \<and> (\<exists>t. engine_runs cfg P C T s t \<and> rl_pc (rl t) = Reading \<and> \<not> closed (cl t)
        \<and> stream_conn (rl s) < stream_conn (rl t) \<and> sink_conn (cl t) = stream_conn (rl t))"
proof -
  have going: "rl_pc (rl s) \<notin> {Exited Shutdown, StopClearing, Stopped}"
    using going.always [OF assms(1)] assms(2,3) by (simp add: going_inv_def)
  have conn: "connections_ok (cl s) (rl s)"
    using subscribing.always [OF assms(1)] by (simp add: subscribers_inv_def)
  obtain is1 c1 l1 where first: "read_run cfg P C is1 (cl s, rl s) = Some (c1, l1)" "rl_pc l1 = Reading"
    "\<not> closed c1" "connections_ok c1 l1" "stream_conn (rl s) \<le> stream_conn l1"
    using reaches_reading [OF assms(2,3) going conn] by blast
  then obtain u where u: "engine_runs cfg P C T s u" "cl u = c1" "rl u = l1" using read_run_runs by blast
  obtain c2 l2 where "read_run cfg P C [RecvEnd, RGo, RGo, Drew 0, DelayOver, RGo, Dialled True, RGo, RGo] (cl u, rl u)
      = Some (c2, l2)" and l2: "rl_pc l2 = Reading" "stream_conn l2 = next_conn l1" "sink_conn c2 = next_conn l1" "\<not> closed c2"
    using redial_round [OF assms(2) first(3,2)] u by blast
  then obtain t where t: "engine_runs cfg P C T u t" "cl t = c2" "rl t = l2" using read_run_runs by blast
  have "engine_runs cfg P C T s t" by (rule engine_runs_trans [OF u(1) t(1)])
  moreover have "stream_conn (rl s) < next_conn l1" using first(4,5) by (simp add: connections_ok_def)
  ultimately show ?thesis using t l2 going by auto
qed

subsection \<open>Properties\<close>

text \<open>
  A client with a reconnector never gives up on its own: as long as nobody disconnects it, its read
  loop has not stopped, whatever the transport, the keepalive task and the callers did, and from where
  it is it can reach a newer connection and read from it, with the sink switched to the same one.
\<close>

lemma reconnecting_client_recovers:
  assumes "engine_reach cfg P C T s" and "cfg_reconnector cfg" and "\<not> closed (cl s)"
  shows "rl_pc (rl s) \<noteq> Stopped
    \<and> (\<exists>t. engine_runs cfg P C T s t \<and> rl_pc (rl t) = Reading \<and> \<not> closed (cl t)
        \<and> stream_conn (rl s) < stream_conn (rl t) \<and> sink_conn (cl t) = stream_conn (rl t))"
  by (rule recovers [OF assms])

lemma reconnecting_client_recovers_example:
  "\<exists>t. engine_runs redial_cfg protocol_error_1_6 (table_codec []) lenient_types
       (redial_run (table_codec []) lenient_types force_while_dialing) t
     \<and> rl_pc (rl t) = Reading \<and> 1 < stream_conn (rl t)"
proof -
  let ?s = "redial_run (table_codec []) lenient_types force_while_dialing"
  have "cfg_reconnector redial_cfg" "\<not> closed (cl ?s)" "stream_conn (rl ?s) = 1"
    by (simp_all add: redial_eval)
  with reconnecting_client_recovers [OF redial_reach(4) this(1,2)] show ?thesis by auto
qed

text \<open>
  C20. A dead peer is redialled: when the keepalive task's last tolerated ping fails on an open client
  with a reconnector, it latches the wake signal, and the read loop, parked in a receive that may never
  return, abandons that connection: it closes it (whatever the close returns), drops its pong waiters,
  waits out the backoff and dials, while pending calls keep their entries.
\<close>

theorem dead_peer_is_redialled:
  assumes "cfg_reconnector cfg" and "\<not> closed c" and "rl_pc l = Reading"
    and "ka_pc k = KaPinging (PingReturned (Err e))"
    and "misses_allowed (policy (keepalive c)) \<le> saturating_add (missed k) 1"
  shows "\<exists>c1 k1 c2 l2. ka_step KGo c k = Some (c1, k1) \<and> missed k1 = 0
    \<and> read_run cfg P C [Woken, RGo, RSink r, RGo, Drew u, DelayOver, RGo] (c1, l) = Some (c2, l2)
    \<and> rl_pc l2 = Dialing \<and> wire c2 = wire c @ [(sink_conn c, CloseOp, accepted r)]
    \<and> pong_waiters c2 = Map.empty \<and> pending_responses c2 = pending_responses c
    \<and> waits l2 = waits l @ [jittered_delay_for (cfg_reconnect_policy cfg) (attempt l) u]"
proof -
  let ?c1 = "c\<lparr>force_reconnect := Some ()\<rparr>"
  have "ka_step KGo c k = Some (?c1, k\<lparr>ka_pc := KaTop, missed := 0\<rparr>)"
    using assms by (simp add: ka_step_def ka_at_ping_def ka_finish_def client_force_reconnect_def signal_defs Let_def)
  moreover have "\<exists>c2 l2. read_run cfg P C [Woken, RGo, RSink r, RGo, Drew u, DelayOver, RGo] (?c1, l) = Some (c2, l2)
    \<and> rl_pc l2 = Dialing \<and> wire c2 = wire c @ [(sink_conn c, CloseOp, accepted r)]
    \<and> pong_waiters c2 = Map.empty \<and> pending_responses c2 = pending_responses c
    \<and> waits l2 = waits l @ [jittered_delay_for (cfg_reconnect_policy cfg) (attempt l) u]"
    using assms(1-3)
    by (simp add: read_defs take_wake_cases read_woken_def after_exit_def clear_pong_waiters_def sink_write_def Let_def)
  ultimately show ?thesis by force
qed

theorem dead_peer_is_redialled_witness:
  "\<exists>c1 k1 c2 l2. ka_step KGo (new_client redial_cfg :: OCPP1_6Error client)
       \<lparr>ka_pc = KaPinging (PingReturned (Err Timeout)), missed = 1\<rparr> = Some (c1, k1)
     \<and> read_run redial_cfg protocol_error_1_6 (table_codec [])
         [Woken, RGo, RSink (Err ''dead''), RGo, Drew 0, DelayOver, RGo] (c1, read_loop_start) = Some (c2, l2)
     \<and> rl_pc l2 = Dialing \<and> wire c2 = [(0, CloseOp, False)]"
proof -
  let ?c = "new_client redial_cfg :: OCPP1_6Error client"
  let ?k = "\<lparr>ka_pc = KaPinging (PingReturned (Err Timeout)), missed = 1\<rparr> :: OCPP1_6Error ka_task"
  have "cfg_reconnector redial_cfg" "\<not> closed ?c" "rl_pc read_loop_start = Reading"
    "ka_pc ?k = KaPinging (PingReturned (Err Timeout))"
    by (simp_all add: redial_cfg_def with_reconnect_def new_client_def read_loop_start_def)
  moreover have "misses_allowed (policy (keepalive ?c)) \<le> saturating_add (missed ?k) 1"
    by (simp add: new_client_def redial_cfg_def with_reconnect_def client_config_new_def new_keepalive_state_def
        misses_allowed_def default_keepalive_policy_def saturating_add_def)
  ultimately show ?thesis
    using dead_peer_is_redialled [of redial_cfg ?c read_loop_start ?k Timeout protocol_error_1_6 "table_codec []" "Err ''dead''" 0]
    by (force simp: new_client_def)
qed

end
