(* ===== verification/Engine_Sink.thy ===== *)
theory Engine_Sink
  imports Engine_Redial
begin

text \<open>
  The mutex around the sink. \<open>Engine\<close> takes every write as one step; in the code a writer locks
  \<open>Client::sink\<close>, then awaits the transport with the guard in hand, and the read loop locks it once more to
  put a redialled sink in place. Here the guard is part of the state: a writer first acquires the mutex,
  keeps it until the transport has answered, and gives it back when its future is dropped.
\<close>

subsection \<open>Who writes\<close>

datatype sink_user = UCall nat | UPing nat | UKeepalive | URead | UHandler nat | USend nat | UDisconnect

fun loop_writes :: "read_pc \<Rightarrow> bool" where
  "loop_writes (Dispatching (ReplyWith _)) = True"
| "loop_writes (Ponging _) = True"
| "loop_writes CourtesyClose = True"
| "loop_writes _ = False"

fun call_writes :: "'e call_pc \<Rightarrow> bool" where
  "call_writes (CallRegistered _ _ _ _) = True"
| "call_writes _ = False"

fun ping_writes :: "'e ping_pc \<Rightarrow> bool" where
  "ping_writes (PingRegistered _ _) = True"
| "ping_writes _ = False"

fun ka_writes :: "'e ka_pc \<Rightarrow> bool" where
  "ka_writes (KaPinging pc) = ping_writes pc"
| "ka_writes _ = False"

fun send_writes :: "'e send_pc \<Rightarrow> bool" where
  "send_writes (SendPrepared _) = True"
| "send_writes _ = False"

text \<open>A response that cannot be encoded is logged without locking the sink.\<close>

fun handler_writes :: "'e protocol_error \<Rightarrow> codec \<Rightarrow> 'e handler_pc \<Rightarrow> bool" where
  "handler_writes P C (HReplying message_id response) = (response_frame P C response message_id \<noteq> None)"
| "handler_writes P C _ = False"

fun awaits_sink :: "'e protocol_error \<Rightarrow> codec \<Rightarrow> sink_user \<Rightarrow> 'e engine \<Rightarrow> bool" where
  "awaits_sink P C (UCall i) s =
     (i < length (calls s) \<and> \<not> ct_dropped (calls s ! i) \<and> call_writes (ct_pc (calls s ! i)))"
| "awaits_sink P C (UPing i) s =
     (i < length (pings s) \<and> \<not> pt_dropped (pings s ! i) \<and> ping_writes (pt_pc (pings s ! i)))"
| "awaits_sink P C UKeepalive s = ka_writes (ka_pc (ka s))"
| "awaits_sink P C URead s = loop_writes (rl_pc (rl s))"
| "awaits_sink P C (UHandler i) s = (i < length (handlers s) \<and> handler_writes P C (ht_pc (handlers s ! i)))"
| "awaits_sink P C (USend i) s =
     (i < length (sends s) \<and> \<not> sn_dropped (sends s ! i) \<and> send_writes (sn_pc (sends s ! i)))"
| "awaits_sink P C UDisconnect s = (0 < closing s)"

text \<open>Whose write a decision completes, and whose future it drops.\<close>

fun writer :: "'e protocol_error \<Rightarrow> codec \<Rightarrow> 'e decision \<Rightarrow> 'e engine \<Rightarrow> sink_user option" where
  "writer P C (DRead (RSink _)) s = (if loop_writes (rl_pc (rl s)) then Some URead else None)"
| "writer P C (DKeepalive (KPing (SinkAnswers _))) s = Some UKeepalive"
| "writer P C (DCallMoves i (SinkAnswers _)) s = Some (UCall i)"
| "writer P C (DPingMoves i (SinkAnswers _)) s = Some (UPing i)"
| "writer P C (DHandlerMoves i (HSink _)) s =
     (if handler_writes P C (ht_pc (handlers s ! i)) then Some (UHandler i) else None)"
| "writer P C (DNotifyMoves i (SinkAnswers _)) s = Some (USend i)"
| "writer P C (DDisconnectCloses _) s = Some UDisconnect"
| "writer P C _ s = None"

fun abandons :: "'e decision \<Rightarrow> sink_user option" where
  "abandons (DDropCall i) = Some (UCall i)"
| "abandons (DDropPing i) = Some (UPing i)"
| "abandons (DDropNotify i) = Some (USend i)"
| "abandons DDropDisconnect = Some UDisconnect"
| "abandons _ = None"

fun installs :: "'e decision \<Rightarrow> 'e engine \<Rightarrow> bool" where
  "installs (DRead RGo) s = (rl_pc (rl s) = Installing)"
| "installs _ s = False"

subsection \<open>The engine with its mutex\<close>

record 'e locked =
  eng :: "'e engine"
  holder :: "sink_user option"

datatype 'e lock_decision = Acquire sink_user | Act "'e decision"

definition may_act :: "'e protocol_error \<Rightarrow> codec \<Rightarrow> 'e decision \<Rightarrow> 'e locked \<Rightarrow> bool" where
  "may_act P C d s =
     (case writer P C d (eng s) of
        Some u \<Rightarrow> holder s = Some u
      | None \<Rightarrow> (installs d (eng s) \<longrightarrow> holder s = None))"

definition released :: "'e protocol_error \<Rightarrow> codec \<Rightarrow> 'e decision \<Rightarrow> 'e locked \<Rightarrow> sink_user option" where
  "released P C d s =
     (if writer P C d (eng s) \<noteq> None \<or> abandons d = holder s then None else holder s)"

fun locked_perform ::
  "client_config \<Rightarrow> 'e protocol_error \<Rightarrow> codec \<Rightarrow> payload_types \<Rightarrow> 'e lock_decision \<Rightarrow> 'e locked \<Rightarrow> 'e locked option" where
  "locked_perform cfg P C T (Acquire u) s =
     (if holder s = None \<and> awaits_sink P C u (eng s) then Some (s\<lparr>holder := Some u\<rparr>) else None)"
| "locked_perform cfg P C T (Act d) s =
     (if may_act P C d s then
        (case perform cfg P C T d (eng s) of
           Some e \<Rightarrow> Some \<lparr>eng = e, holder = released P C d s\<rparr>
         | None \<Rightarrow> None)
      else None)"

fun locked_run ::
  "client_config \<Rightarrow> 'e protocol_error \<Rightarrow> codec \<Rightarrow> payload_types \<Rightarrow> 'e lock_decision list \<Rightarrow> 'e locked \<Rightarrow> 'e locked option" where
  "locked_run cfg P C T [] s = Some s"
| "locked_run cfg P C T (d # ds) s =
     (case locked_perform cfg P C T d s of Some t \<Rightarrow> locked_run cfg P C T ds t | None \<Rightarrow> None)"

definition locked_start :: "client_config \<Rightarrow> 'e locked" where
  "locked_start cfg = \<lparr>eng = from_transport_with_config cfg, holder = None\<rparr>"

subsection \<open>Writers\<close>

lemma ka_step_sink:
  "ka_step (KPing (SinkAnswers r)) c k = Some (c', k') \<Longrightarrow> ka_writes (ka_pc k)"
  by (auto simp: ka_step_def ka_at_ping_def elim!: ping_step_SomeE
      split: ka_pc.splits ping_pc.splits option.splits)

lemma writer_awaits:
  assumes "perform cfg P C T d s = Some t" and "writer P C d s = Some u"
  shows "awaits_sink P C u s"
  using assms
  by (induction P C d s rule: writer.induct)
    (auto simp: ka_step_sink elim!: call_step_SomeE ping_step_SomeE send_step_SomeE
      split: if_splits option.splits nat.splits)

text \<open>Every other step leaves the wire alone, and all but the installation leave the connection alone.\<close>

lemma call_step_quiet:
  "call_step T inp c pc = Some (c', pc') \<Longrightarrow> \<forall>r. inp \<noteq> SinkAnswers r \<Longrightarrow> wire c' = wire c"
  by (erule call_step_SomeE)
    (auto simp: call_wait_cases register_pending_def forget_pending_def Let_def split: option.splits if_splits)

lemma ping_step_quiet:
  "ping_step inp c pc = Some (c', pc') \<Longrightarrow> \<forall>r. inp \<noteq> SinkAnswers r \<Longrightarrow> wire c' = wire c"
  by (erule ping_step_SomeE)
    (auto simp: ping_wait_cases register_ping_def forget_ping_def Let_def split: option.splits if_splits)

lemma ka_step_quiet:
  assumes "ka_step inp c k = Some (c', k')" and "\<forall>r. inp \<noteq> KPing (SinkAnswers r)"
  shows "wire c' = wire c"
proof (cases inp)
  case (KPing ti)
  with assms(2) have "\<forall>r. ti \<noteq> SinkAnswers r" by blast
  with KPing assms(1) show ?thesis
    by (auto simp: ka_step_def ka_at_ping_def ka_reconfigured_def take_changed_cases dest!: ping_step_quiet
        split: ka_pc.splits ping_pc.splits option.splits if_splits)
qed (use assms(1) in \<open>auto simp: ka_step_def ka_at_ping_def ka_reconfigured_def take_changed_cases ka_finish_def
      client_force_reconnect_def split: ka_pc.splits ping_pc.splits option.splits if_splits prod.splits\<close>)

lemma handler_step_quiet:
  assumes "handler_step P C T a n inp c pc = Some (c', pc')"
    and "\<forall>r. inp = HSink r \<longrightarrow> \<not> handler_writes P C pc"
  shows "wire c' = wire c"
  using assms by (induction P C T a n inp c pc rule: handler_step.induct)
    (auto simp: do_send_response_wire split: recv_outcome.splits option.splits prod.splits)

lemma read_event_wire: "read_event P C ev c = (c', pc) \<Longrightarrow> wire c' = wire c"
  using wire_route_frame [of P C _ c]
  by (cases ev) (auto simp: split_beta resolve_pong_def split: option.splits)

lemma deliver_quiet: "\<not> loop_writes (Dispatching d) \<Longrightarrow> wire (deliver d r c) = wire c"
  by (cases d) simp_all

lemma read_task_quiet:
  assumes "read_task cfg P C inp c l = Some (c', l')" and "\<forall>r. inp = RSink r \<longrightarrow> \<not> loop_writes (rl_pc l)"
  shows "wire c' = wire c"
  using assms
  by (cases "rl_pc l"; cases inp)
    (auto simp: read_defs take_wake_cases clear_pong_waiters_def deliver_quiet Let_def
      dest: read_event_wire split: option.splits prod.splits if_splits)

lemma read_task_same_connection:
  assumes "read_task cfg P C inp c l = Some (c', l')" and "rl_pc l \<noteq> Installing"
  shows "sink_conn c' = sink_conn c \<and> next_conn l' = next_conn l"
proof -
  have "sink_conn (deliver d r c) = sink_conn c" for d r
    using public_view_deliver [of d r c] by (simp add: public_view_def)
  with assms show ?thesis
    by (cases "rl_pc l"; cases inp)
      (auto simp: read_defs take_wake_cases clear_pong_waiters_def sink_write_def Let_def
        dest: read_event_pc_kinds(3) split: option.splits prod.splits if_splits)
qed

lemma writer_None:
  "writer P C (DRead ri) s = None \<longleftrightarrow> (\<forall>r. ri = RSink r \<longrightarrow> \<not> loop_writes (rl_pc (rl s)))"
  "writer P C (DKeepalive ki) s = None \<longleftrightarrow> (\<forall>r. ki \<noteq> KPing (SinkAnswers r))"
  "writer P C (DCallMoves i inp) s = None \<longleftrightarrow> (\<forall>r. inp \<noteq> SinkAnswers r)"
  "writer P C (DPingMoves i inp) s = None \<longleftrightarrow> (\<forall>r. inp \<noteq> SinkAnswers r)"
  "writer P C (DHandlerMoves i hi) s = None \<longleftrightarrow>
     (\<forall>r. hi = HSink r \<longrightarrow> \<not> handler_writes P C (ht_pc (handlers s ! i)))"
  "writer P C (DNotifyMoves i inp) s = None \<longleftrightarrow> (\<forall>r. inp \<noteq> SinkAnswers r)"
proof -
  show "writer P C (DKeepalive ki) s = None \<longleftrightarrow> (\<forall>r. ki \<noteq> KPing (SinkAnswers r))"
  proof (cases ki)
    case (KPing ti)
    then show ?thesis by (cases ti) auto
  qed auto
qed ((cases ri; auto)[1], (cases inp; auto)[1], (cases inp; auto)[1], (cases hi; auto)[1], (cases inp; auto)[1])

lemma wire_kept [simp]:
  "wire (snd (client_on a c)) = wire c" "wire (snd (client_on_notification a c)) = wire c"
  "wire (snd (client_subscribe kind c)) = wire c" "wire (client_set_ping_interval i c) = wire c"
  "wire (client_force_reconnect c) = wire c"
  by (cases kind; simp add: client_on_def client_on_notification_def client_defs Let_def split: option.split)+

lemma wire_kept_steps:
  "notification_step T a n c pc = Some (c', pc') \<Longrightarrow> wire c' = wire c"
  "subscriber_step kind slot c spc = Some (c', spc') \<Longrightarrow> wire c' = wire c"
  "disconnect_begin c = Some c' \<Longrightarrow> wire c' = wire c"
proof -
  show "notification_step T a n c pc = Some (c', pc') \<Longrightarrow> wire c' = wire c"
    by (cases pc) (auto split: recv_outcome.splits option.splits prod.splits)
  show "subscriber_step kind slot c spc = Some (c', spc') \<Longrightarrow> wire c' = wire c"
    by (cases spc; cases kind) (auto simp: subscriber_step_waiting simp del: subscriber_step.simps(1))
  show "disconnect_begin c = Some c' \<Longrightarrow> wire c' = wire c"
    by (auto simp: disconnect_begin_def split: if_splits)
qed

lemmas quiet_steps = read_task_quiet ka_step_quiet call_step_quiet ping_step_quiet handler_step_quiet wire_kept_steps

lemma quiet_wire:
  assumes "perform cfg P C T d s = Some t" and "writer P C d s = None"
  shows "wire (cl t) = wire (cl s)"
  using assms
  by (cases d)
    (auto simp: writer_None dest: quiet_steps elim: send_step_SomeE split: option.splits if_splits nat.splits)

subsection \<open>The critical section\<close>

text \<open>A writer at the sink makes no other step than its write, and no other task moves it.\<close>

lemma others_stay:
  assumes "perform cfg P C T d s = Some t"
  shows "rl t = rl s \<or> (\<exists>inp. d = DRead inp)" "ka t = ka s \<or> (\<exists>inp. d = DKeepalive inp)"
    "i < length (calls s) \<Longrightarrow> i < length (calls t) \<and>
      (calls t ! i = calls s ! i \<or> (\<exists>inp. d = DCallMoves i inp) \<or> d = DDropCall i)"
    "i < length (pings s) \<Longrightarrow> i < length (pings t) \<and>
      (pings t ! i = pings s ! i \<or> (\<exists>inp. d = DPingMoves i inp) \<or> d = DDropPing i)"
    "i < length (sends s) \<Longrightarrow> i < length (sends t) \<and>
      (sends t ! i = sends s ! i \<or> (\<exists>inp. d = DNotifyMoves i inp) \<or> d = DDropNotify i)"
    "i < length (handlers s) \<Longrightarrow> i < length (handlers t) \<and>
      (handlers t ! i = handlers s ! i \<or> (\<exists>inp. d = DHandlerMoves i inp))"
    "closing s \<le> closing t \<or> (\<exists>r. d = DDisconnectCloses r) \<or> d = DDropDisconnect"
  using assms by (cases d; auto simp: nth_append nth_list_update split: option.splits if_splits nat.splits)+

lemma writes_only:
  "loop_writes (rl_pc l) \<Longrightarrow> read_task cfg P C ri c l = Some (c', l') \<Longrightarrow> \<exists>r. ri = RSink r"
  "ka_writes (ka_pc k) \<Longrightarrow> ka_step ki c k = Some (c', k') \<Longrightarrow> \<exists>r. ki = KPing (SinkAnswers r)"
  "call_writes cpc \<Longrightarrow> call_step T inp c cpc = Some (c', cpc') \<Longrightarrow> \<exists>r. inp = SinkAnswers r"
  "ping_writes ppc \<Longrightarrow> ping_step inp c ppc = Some (c', ppc') \<Longrightarrow> \<exists>r. inp = SinkAnswers r"
  "send_writes spc \<Longrightarrow> send_step inp c spc = Some (c', spc') \<Longrightarrow> \<exists>r. inp = SinkAnswers r"
  "handler_writes P C hpc \<Longrightarrow> handler_step P C T a n hi c hpc = Some (c', hpc') \<Longrightarrow> \<exists>r. hi = HSink r"
proof -
  show "loop_writes (rl_pc l) \<Longrightarrow> read_task cfg P C ri c l = Some (c', l') \<Longrightarrow> \<exists>r. ri = RSink r"
    by (cases "rl_pc l"; cases ri) (auto simp: read_defs)
  show "ka_writes (ka_pc k) \<Longrightarrow> ka_step ki c k = Some (c', k') \<Longrightarrow> \<exists>r. ki = KPing (SinkAnswers r)"
    by (cases "ka_pc k") (auto simp: ka_step_def ka_at_ping_def elim!: ping_step_SomeE
        split: ka_input.splits ping_pc.splits option.splits if_splits)
qed ((cases cpc; cases inp; auto)[1], (cases ppc; cases inp; auto)[1], (cases spc; cases inp; auto)[1], (cases hpc; cases hi; auto)[1])

lemma waiting_writer_stays:
  assumes "perform cfg P C T d s = Some t" and "awaits_sink P C u s"
    and "writer P C d s \<noteq> Some u" and "abandons d \<noteq> Some u"
  shows "awaits_sink P C u t"
proof (cases u)
  case (UCall i)
  with assms others_stay(3) [OF assms(1), of i] show ?thesis
    by (auto split: if_splits option.splits) (frule (1) writes_only(3), auto)+
next
  case (UPing i)
  with assms others_stay(4) [OF assms(1), of i] show ?thesis
    by (auto split: if_splits option.splits) (frule (1) writes_only(4), auto)+
next
  case UKeepalive
  with assms others_stay(2) [OF assms(1)] show ?thesis
    by (auto split: option.splits) (frule (1) writes_only(2), auto)+
next
  case URead
  with assms others_stay(1) [OF assms(1)] show ?thesis
    by (auto split: option.splits) (frule (1) writes_only(1), auto)+
next
  case (UHandler i)
  with assms others_stay(6) [OF assms(1), of i] show ?thesis
    by (auto split: if_splits option.splits) (frule (1) writes_only(6), auto)+
next
  case (USend i)
  with assms others_stay(5) [OF assms(1), of i] show ?thesis
    by (auto split: if_splits option.splits) (frule (1) writes_only(5), auto)+
next
  case UDisconnect
  with assms others_stay(7) [OF assms(1)] show ?thesis by auto
qed

text \<open>The decisions that end a writer's turn: the transport answers it, or its future is dropped.\<close>

fun answered :: "'e decision \<Rightarrow> sink_user option" where
  "answered (DRead (RSink _)) = Some URead"
| "answered (DKeepalive (KPing (SinkAnswers _))) = Some UKeepalive"
| "answered (DCallMoves i (SinkAnswers _)) = Some (UCall i)"
| "answered (DPingMoves i (SinkAnswers _)) = Some (UPing i)"
| "answered (DHandlerMoves i (HSink _)) = Some (UHandler i)"
| "answered (DNotifyMoves i (SinkAnswers _)) = Some (USend i)"
| "answered (DDisconnectCloses _) = Some UDisconnect"
| "answered _ = None"

fun finishes :: "sink_user \<Rightarrow> 'e lock_decision \<Rightarrow> bool" where
  "finishes u (Act d) = (answered d = Some u \<or> abandons d = Some u)"
| "finishes u (Acquire _) = False"

lemma writer_answered: "writer P C d s = Some u \<Longrightarrow> answered d = Some u"
  by (induction P C d s rule: writer.induct) (auto split: if_splits)

text \<open>The part of the state that only the holder of the mutex may change.\<close>

definition line :: "'e locked \<Rightarrow> (nat \<times> sink_op \<times> bool) list \<times> nat \<times> nat" where
  "line s = (wire (cl (eng s)), sink_conn (cl (eng s)), next_conn (rl (eng s)))"

lemmas sink_keepers = public_keepers [THEN arg_cong [of _ _ fst], unfolded public_view_def fst_conv]

lemma sink_conn_kept [simp]:
  "sink_conn (snd (client_on a c)) = sink_conn c" "sink_conn (snd (client_on_notification a c)) = sink_conn c"
  "sink_conn (with_registry kind r c) = sink_conn c" "sink_conn (client_set_ping_interval i c) = sink_conn c"
  "sink_conn (client_force_reconnect c) = sink_conn c" "sink_conn (sink_write op out c) = sink_conn c"
  by (cases kind; simp add: client_on_def client_on_notification_def client_defs Let_def split: option.split)+

lemma sink_conn_subscriber:
  "subscriber_step kind slot c pc = Some (c', pc') \<Longrightarrow> sink_conn c' = sink_conn c"
  by (cases pc) (auto simp: subscriber_step_waiting simp del: subscriber_step.simps(1))

lemma same_connection:
  assumes "perform cfg P C T d s = Some t" and "\<not> installs d s"
  shows "sink_conn (cl t) = sink_conn (cl s) \<and> next_conn (rl t) = next_conn (rl s)"
proof (cases "\<exists>inp. d = DRead inp")
  case True
  then obtain inp c' l' where step: "read_task cfg P C inp (cl s) (rl s) = Some (c', l')"
    "t = read_moves inp c' l' s" "d = DRead inp"
    using assms(1) by (auto split: option.splits)
  then have "rl_pc (rl s) \<noteq> Installing"
    using assms(2) by (cases inp) (auto simp: read_defs)
  with read_task_same_connection [OF step(1)] step(2) show ?thesis by simp
next
  case False
  from False assms(1) have "rl t = rl s" using others_stay(1) by blast
  moreover have "sink_conn (cl t) = sink_conn (cl s)"
    using assms(1) False
    by (cases d) (auto simp: client_subscribe_cases disconnect_close_def dest: sink_keepers sink_conn_subscriber
        split: option.splits if_splits nat.splits)
  ultimately show ?thesis by simp
qed

lemma critical_step:
  assumes "locked_perform cfg P C T d s = Some t" and "holder s = Some u" and "awaits_sink P C u (eng s)"
    and "\<not> finishes u d"
  shows "holder t = Some u \<and> awaits_sink P C u (eng t) \<and> line t = line s"
proof (cases d)
  case (Act a)
  have "writer P C a (eng s) = None"
    using assms Act writer_answered [of P C a "eng s"]
    by (cases "writer P C a (eng s)") (auto simp: may_act_def split: if_splits)
  moreover from this have "\<not> installs a (eng s)" "abandons a \<noteq> Some u"
    using assms Act by (auto simp: may_act_def split: if_splits)
  moreover obtain e where "perform cfg P C T a (eng s) = Some e" "t = \<lparr>eng = e, holder = released P C a s\<rparr>"
    using assms(1) Act by (auto split: if_splits option.splits)
  ultimately show ?thesis
    using assms(2) waiting_writer_stays [of cfg P C T a "eng s" e u] assms(3)
    by (auto simp: line_def released_def quiet_wire same_connection)
qed (use assms in auto)

lemma critical_section:
  assumes "locked_run cfg P C T ds s = Some t" and "holder s = Some u" and "awaits_sink P C u (eng s)"
    and "list_all (\<lambda>d. \<not> finishes u d) ds"
  shows "holder t = Some u \<and> awaits_sink P C u (eng t) \<and> line t = line s"
  using assms
proof (induction ds arbitrary: s)
  case (Cons d ds)
  then obtain v where v: "locked_perform cfg P C T d s = Some v" "locked_run cfg P C T ds v = Some t"
    by (auto split: option.splits)
  with critical_step [OF v(1)] Cons.prems Cons.IH [OF v(2)] show ?case by auto
qed simp

subsection \<open>The engine is the mutex seen from outside\<close>

definition holder_ok :: "'e protocol_error \<Rightarrow> codec \<Rightarrow> 'e locked \<Rightarrow> bool" where
  "holder_ok P C s = (case holder s of None \<Rightarrow> True | Some u \<Rightarrow> awaits_sink P C u (eng s))"

lemma holder_ok_step:
  assumes "locked_perform cfg P C T d s = Some t" and "holder_ok P C s"
  shows "holder_ok P C t"
proof (cases d)
  case (Act a)
  then obtain e where e: "perform cfg P C T a (eng s) = Some e" "t = \<lparr>eng = e, holder = released P C a s\<rparr>"
    using assms(1) by (auto split: if_splits option.splits)
  with assms(2) waiting_writer_stays [OF e(1)] show ?thesis
    by (auto simp: holder_ok_def released_def split: option.splits if_splits)
qed (use assms in \<open>auto simp: holder_ok_def split: if_splits\<close>)

lemma locked_run_append:
  "locked_run cfg P C T (ds @ es) s =
     (case locked_run cfg P C T ds s of Some t \<Rightarrow> locked_run cfg P C T es t | None \<Rightarrow> None)"
  by (induction ds arbitrary: s) (auto split: option.split)

lemma locked_run_keeps:
  assumes "locked_run cfg P C T ds s = Some t"
  shows "engine_runs cfg P C T (eng s) (eng t)" and "holder_ok P C s \<Longrightarrow> holder_ok P C t"
proof -
  have step: "engine_runs cfg P C T (eng s) (eng t)" if "locked_perform cfg P C T d s = Some t" for d s t
    using that perform_step by (cases d) (fastforce intro: engine_runs.intros split: if_splits option.splits)+
  show "engine_runs cfg P C T (eng s) (eng t)"
    using assms by (induction ds arbitrary: s)
      (auto intro: engine_runs.stay engine_runs_trans step split: option.splits)
  show "holder_ok P C t" if "holder_ok P C s"
    using assms that by (induction ds arbitrary: s) (auto dest: holder_ok_step split: option.splits)
qed

lemma lifted_step:
  assumes "perform cfg P C T d e = Some e'"
  shows "\<exists>ds. locked_run cfg P C T ds \<lparr>eng = e, holder = None\<rparr> = Some \<lparr>eng = e', holder = None\<rparr>"
proof (cases "writer P C d e")
  case None
  with assms show ?thesis by (intro exI [of _ "[Act d]"]) (simp add: may_act_def released_def)
next
  case (Some u)
  with assms writer_awaits [OF assms Some] show ?thesis
    by (intro exI [of _ "[Acquire u, Act d]"]) (simp add: may_act_def released_def)
qed

lemma lifted_runs:
  assumes "engine_runs cfg P C T e e'"
  shows "\<exists>ds. locked_run cfg P C T ds \<lparr>eng = e, holder = None\<rparr> = Some \<lparr>eng = e', holder = None\<rparr>"
  using assms
proof (induction rule: engine_runs.induct)
  case stay
  show ?case by (intro exI [of _ "[]"]) simp
next
  case (go t u)
  obtain d where "perform cfg P C T d t = Some u" using step_performed [OF go.hyps(2)] ..
  from lifted_step [OF this] go.IH obtain ds es where
    "locked_run cfg P C T ds \<lparr>eng = e, holder = None\<rparr> = Some \<lparr>eng = t, holder = None\<rparr>"
    "locked_run cfg P C T es \<lparr>eng = t, holder = None\<rparr> = Some \<lparr>eng = u, holder = None\<rparr>" by blast
  then show ?case by (intro exI [of _ "ds @ es"]) (simp add: locked_run_append)
qed

subsection \<open>A write that is answered\<close>

fun answer :: "sink_user \<Rightarrow> 'e decision" where
  "answer (UCall i) = DCallMoves i (SinkAnswers (Ok ()))"
| "answer (UPing i) = DPingMoves i (SinkAnswers (Ok ()))"
| "answer UKeepalive = DKeepalive (KPing (SinkAnswers (Ok ())))"
| "answer URead = DRead (RSink (Ok ()))"
| "answer (UHandler i) = DHandlerMoves i (HSink (Ok ()))"
| "answer (USend i) = DNotifyMoves i (SinkAnswers (Ok ()))"
| "answer UDisconnect = DDisconnectCloses (Ok ())"

lemma writes_can_finish:
  "loop_writes (rl_pc l) \<Longrightarrow> \<exists>c' l'. read_task cfg P C (RSink r) c l = Some (c', l')"
  "ka_writes (ka_pc k) \<Longrightarrow> \<exists>c' k'. ka_step (KPing (SinkAnswers r)) c k = Some (c', k')"
  "call_writes cpc \<Longrightarrow> \<exists>c' pc'. call_step T (SinkAnswers r) c cpc = Some (c', pc')"
  "ping_writes ppc \<Longrightarrow> \<exists>c' pc'. ping_step (SinkAnswers r) c ppc = Some (c', pc')"
  "send_writes spc \<Longrightarrow> \<exists>c' pc'. send_step (SinkAnswers r) c spc = Some (c', pc')"
  "handler_writes P C hpc \<Longrightarrow> \<exists>c' pc'. handler_step P C T a n (HSink r) c hpc = Some (c', pc')"
proof -
  show "ka_writes (ka_pc k) \<Longrightarrow> \<exists>c' k'. ka_step (KPing (SinkAnswers r)) c k = Some (c', k')"
    by (cases "ka_pc k") (auto simp: ka_step_def ka_at_ping_def split: ping_pc.split)
qed ((cases "rl_pc l"; auto simp: read_defs)[1], (cases cpc; auto)[1], (cases ppc; auto)[1],
    (cases spc; auto)[1], (cases hpc; auto)[1])

lemma holder_can_finish:
  assumes "awaits_sink P C u e"
  shows "\<exists>e'. perform cfg P C T (answer u) e = Some e' \<and> writer P C (answer u) e = Some u"
proof (cases u)
  case (UCall i)
  with assms writes_can_finish(3) [of "ct_pc (calls e ! i)" T "Ok ()" "cl e"] show ?thesis by auto
next
  case (UPing i)
  with assms writes_can_finish(4) [of "pt_pc (pings e ! i)" "Ok ()" "cl e"] show ?thesis by auto
next
  case UKeepalive
  with assms writes_can_finish(2) [of "ka e" "Ok ()" "cl e"] show ?thesis by auto
next
  case URead
  with assms writes_can_finish(1) [of "rl e" cfg P C "Ok ()" "cl e"] show ?thesis by auto
next
  case (UHandler i)
  with assms writes_can_finish(6) [of P C "ht_pc (handlers e ! i)" T "ht_action (handlers e ! i)"
      "ht_chan (handlers e ! i)" "Ok ()" "cl e"] show ?thesis by auto
next
  case (USend i)
  with assms writes_can_finish(5) [of "sn_pc (sends e ! i)" "Ok ()" "cl e"] show ?thesis by auto
qed (use assms in \<open>auto split: nat.split\<close>)

lemma answer_keeps_open:
  assumes "perform cfg P C T d s = Some t" and "answered d \<noteq> None"
  shows "closed (cl t) = closed (cl s)"
  using assms
  by (induction d rule: answered.induct)
    (auto simp: read_task_closed ka_step_closed control_view_def disconnect_close_def
      dest: call_step_control ping_step_control views_steps split: option.splits if_splits nat.splits)

lemma reached_with_mutex:
  assumes "engine_reach cfg P C T (eng s)" and "holder_ok P C s"
  shows "\<exists>ds. locked_run cfg P C T ds (locked_start cfg) = Some s"
proof -
  obtain ds where ds: "locked_run cfg P C T ds (locked_start cfg) = Some \<lparr>eng = eng s, holder = None\<rparr>"
    using lifted_runs [OF assms(1)] by (auto simp: locked_start_def)
  show ?thesis
  proof (cases "holder s")
    case None
    with ds show ?thesis by (cases s) auto
  next
    case (Some u)
    with ds assms(2) show ?thesis
      by (intro exI [of _ "ds @ [Acquire u]"]) (cases s, auto simp: locked_run_append holder_ok_def)
  qed
qed

lemma reaches_with_mutex:
  assumes "locked_run cfg P C T ds (locked_start cfg) = Some s"
  shows "engine_reach cfg P C T (eng s)" and "holder_ok P C s"
  using locked_run_keeps [OF assms] by (simp_all add: locked_start_def holder_ok_def)

text \<open>Finishing the write in progress, if there is one, frees the mutex and changes no connection.\<close>

lemma mutex_can_be_freed:
  assumes "holder_ok P C s"
  shows "\<exists>ds e. locked_run cfg P C T ds s = Some \<lparr>eng = e, holder = None\<rparr> \<and> closed (cl e) = closed (cl (eng s))
    \<and> sink_conn (cl e) = sink_conn (cl (eng s))"
proof (cases "holder s")
  case None
  then show ?thesis by (intro exI [of _ "[]"] exI [of _ "eng s"]) (cases s, simp)
next
  case (Some u)
  then obtain e where e: "perform cfg P C T (answer u) (eng s) = Some e" "writer P C (answer u) (eng s) = Some u"
    using holder_can_finish [of P C u "eng s"] assms by (auto simp: holder_ok_def)
  have "\<not> installs (answer u) (eng s)" "answered (answer u) \<noteq> None" by (cases u; simp)+
  with same_connection [OF e(1)] answer_keeps_open [OF e(1)] e Some show ?thesis
    by (intro exI [of _ "[Act (answer u)]"] exI [of _ e]) (simp add: may_act_def released_def)
qed

lemma keepalive_parked:
  assumes "locked_run cfg P C T ds s = Some t" and "holder s = Some u" and "awaits_sink P C u (eng s)"
    and "list_all (\<lambda>d. \<not> finishes u d) ds" and "ka_writes (ka_pc (ka (eng s)))"
  shows "ka (eng t) = ka (eng s)"
  using assms
proof (induction ds arbitrary: s)
  case (Cons d ds)
  then obtain v where v: "locked_perform cfg P C T d s = Some v" "locked_run cfg P C T ds v = Some t"
    by (auto split: option.splits)
  have "ka (eng v) = ka (eng s)"
  proof (cases d)
    case (Act a)
    with v(1) obtain e where e: "perform cfg P C T a (eng s) = Some e" "eng v = e" "may_act P C a s"
      by (auto split: if_splits option.splits)
    have "a \<noteq> DKeepalive inp" for inp
    proof
      assume a: "a = DKeepalive inp"
      with e(1) obtain c' k' where "ka_step inp (cl (eng s)) (ka (eng s)) = Some (c', k')"
        by (auto split: option.splits)
      then obtain r where "inp = KPing (SinkAnswers r)" using writes_only(2) [OF Cons.prems(5)] by blast
      with a e(3) Act Cons.prems(2,4) show False by (auto simp: may_act_def)
    qed
    with others_stay(2) [OF e(1)] e(2) show ?thesis by blast
  qed (use v(1) in \<open>auto split: if_splits\<close>)
  with critical_step [OF v(1)] Cons.prems Cons.IH [OF v(2)] show ?case by auto
qed simp

subsection \<open>Properties\<close>

text \<open>
  C11. Taking a write as one step, as the engine does, hides nothing of the mutex: with the guard of the
  sink modelled, from its acquisition to its release, the client reaches exactly the states the engine
  reaches, with the mutex free or in the hands of any one task that is suspended at a write.
\<close>

theorem sink_mutex_is_transparent:
  "(\<exists>ds. locked_run cfg P C T ds (locked_start cfg) = Some s) \<longleftrightarrow>
     engine_reach cfg P C T (eng s) \<and> holder_ok P C s"
  using reached_with_mutex reaches_with_mutex by blast

text \<open>
  C22. A write the transport does not answer blocks the client's recovery. Apart from the courtesy close no
  write is bounded by a timeout, and each keeps the sink's mutex: while one is pending, whoever it belongs to and whatever else
  happens, nothing is written, no new connection is put in place, and a keepalive task that has come to
  its own ping stays there, so it counts no miss and forces no redial.
\<close>

theorem stalled_write_blocks_recovery:
  assumes "locked_run cfg P C T ds (locked_start cfg) = Some s" and "holder s = Some u"
    and "locked_run cfg P C T es s = Some t" and "list_all (\<lambda>d. \<not> finishes u d) es"
  shows "holder t = Some u \<and> wire (cl (eng t)) = wire (cl (eng s))
    \<and> sink_conn (cl (eng t)) = sink_conn (cl (eng s)) \<and> next_conn (rl (eng t)) = next_conn (rl (eng s))
    \<and> (ka_writes (ka_pc (ka (eng s))) \<longrightarrow> ka (eng t) = ka (eng s))"
proof -
  have "awaits_sink P C u (eng s)"
    using reaches_with_mutex(2) [OF assms(1)] assms(2) by (simp add: holder_ok_def)
  with critical_section [OF assms(3,2) _ assms(4)] keepalive_parked [OF assms(3,2) _ assms(4)] show ?thesis
    by (simp add: line_def)
qed

text \<open>
  A client that pings: its first keepalive ping is stuck in the transport when a redial is forced, and
  the read loop comes to the courtesy close that would announce it.
\<close>

definition stall_cfg :: client_config where
  "stall_cfg = with_keepalive (KeepaliveEnabled (every (from_millis 2))) redial_cfg"

definition stall_prefix :: "OCPP1_6Error lock_decision list" where
  "stall_prefix = map (Act \<circ> DKeepalive) [KGo, KElapsed, KGo, KPing Proceed] @ [Acquire UKeepalive]"

definition stall_rest :: "OCPP1_6Error lock_decision list" where
  "stall_rest = [Act DForce, Act (DRead Woken), Act (DRead RGo)]"

definition stall_run :: "OCPP1_6Error lock_decision list \<Rightarrow> OCPP1_6Error locked" where
  "stall_run ds = the (locked_run stall_cfg protocol_error_1_6 (table_codec []) lenient_types ds (locked_start stall_cfg))"

lemma stall_keepalive [simp]:
  "read_interval (new_keepalive_state (KeepaliveEnabled (every (from_millis 2)))) = Some (from_millis 2)"
  "changed (new_keepalive_state (KeepaliveEnabled (every (from_millis 2)))) = None"
  by (simp_all add: new_keepalive_state_def read_interval_def every_def default_keepalive_policy_def
      store_millis_def from_millis_def as_millis_def)

lemmas stall_eval = stall_run_def stall_cfg_def redial_cfg_def stall_prefix_def stall_rest_def locked_start_def
  may_act_def released_def ka_step_def ka_at_top_def ka_at_awake_def ka_at_ping_def ka_reconfigured_def
  schedule_eval

lemma stall_runs:
  "locked_run stall_cfg protocol_error_1_6 (table_codec []) lenient_types stall_prefix (locked_start stall_cfg)
     = Some (stall_run stall_prefix)"
  "locked_run stall_cfg protocol_error_1_6 (table_codec []) lenient_types stall_rest (stall_run stall_prefix)
     = Some (stall_run (stall_prefix @ stall_rest))"
  by (simp_all add: stall_eval)

lemma stall_ends:
  "holder (stall_run stall_prefix) = Some UKeepalive" "ka_writes (ka_pc (ka (eng (stall_run stall_prefix))))"
  "rl_pc (rl (eng (stall_run (stall_prefix @ stall_rest)))) = CourtesyClose"
  "missed (ka (eng (stall_run stall_prefix))) = 0" "next_conn (rl (eng (stall_run stall_prefix))) = 1"
  by (simp_all add: stall_eval)

theorem stalled_write_blocks_recovery_witness:
  "let t = stall_run (stall_prefix @ stall_rest) in
   rl_pc (rl (eng t)) = CourtesyClose \<and> holder t = Some UKeepalive
   \<and> missed (ka (eng t)) = 0 \<and> next_conn (rl (eng t)) = 1"
proof -
  have "list_all (\<lambda>d. \<not> finishes UKeepalive d) stall_rest" by (simp add: stall_rest_def)
  from stalled_write_blocks_recovery [OF stall_runs(1) stall_ends(1) stall_runs(2) this] stall_ends show ?thesis
    by simp
qed

text \<open>
  C15. When writes are answered the mutex is no obstacle: an open client with a reconnector can reach a newer
  connection from every state, whoever holds the sink's mutex in it.
\<close>

theorem answered_writes_recover:
  assumes "locked_run cfg P C T ds (locked_start cfg) = Some s" and "cfg_reconnector cfg"
    and "\<not> closed (cl (eng s))"
  shows "\<exists>es t. locked_run cfg P C T es s = Some t \<and> holder t = None \<and> rl_pc (rl (eng t)) = Reading
    \<and> \<not> closed (cl (eng t)) \<and> sink_conn (cl (eng s)) < sink_conn (cl (eng t))"
proof -
  obtain fs e where fs: "locked_run cfg P C T fs s = Some \<lparr>eng = e, holder = None\<rparr>"
    "closed (cl e) = closed (cl (eng s))" "sink_conn (cl e) = sink_conn (cl (eng s))"
    using mutex_can_be_freed [OF reaches_with_mutex(2) [OF assms(1)]] by blast
  have "locked_run cfg P C T (ds @ fs) (locked_start cfg) = Some \<lparr>eng = e, holder = None\<rparr>"
    using assms(1) fs(1) by (simp add: locked_run_append)
  then have reach: "engine_reach cfg P C T e" using reaches_with_mutex(1) by fastforce
  have "sink_conn (cl e) = stream_conn (rl e)"
    using subscribing.always [OF reach] by (simp add: subscribers_inv_def connections_ok_def)
  moreover obtain t where t: "engine_runs cfg P C T e t" "rl_pc (rl t) = Reading" "\<not> closed (cl t)"
    "stream_conn (rl e) < stream_conn (rl t)" "sink_conn (cl t) = stream_conn (rl t)"
    using recovers [OF reach assms(2)] fs(2) assms(3) by auto
  moreover obtain gs where "locked_run cfg P C T gs \<lparr>eng = e, holder = None\<rparr> = Some \<lparr>eng = t, holder = None\<rparr>"
    using lifted_runs [OF t(1)] by blast
  ultimately show ?thesis using fs
    by (intro exI [of _ "fs @ gs"] exI [of _ "\<lparr>eng = t, holder = None\<rparr>"]) (simp add: locked_run_append)
qed

theorem answered_writes_recover_witness:
  "\<exists>es t. locked_run stall_cfg protocol_error_1_6 (table_codec []) lenient_types es (stall_run stall_prefix) = Some t
     \<and> holder t = None \<and> \<not> closed (cl (eng t)) \<and> 0 < sink_conn (cl (eng t))"
proof -
  have "cfg_reconnector stall_cfg" "\<not> closed (cl (eng (stall_run stall_prefix)))"
    "sink_conn (cl (eng (stall_run stall_prefix))) = 0"
    by (simp_all add: stall_eval)
  from answered_writes_recover [OF stall_runs(1) this(1,2)] this(3) show ?thesis by metis
qed

end
