(* ===== verification/Engine_Lost.thy ===== *)
theory Engine_Lost
  imports Engine_Sink Engine_Answers
begin

text \<open>
  Two ways in which the running client loses something, each from every state with the shape that leads
  to it: a shutdown during a redial leaves the new connection open, and a CALL that is being dispatched
  while its handler is replaced is never answered.
\<close>

subsection \<open>Who closes a connection\<close>

text \<open>A step writes at most one operation, to the current sink, and a close only from the two places that send one.\<close>

definition wrote :: "bool \<Rightarrow> 'e client \<Rightarrow> 'e client \<Rightarrow> bool" where
  "wrote closes c c' \<longleftrightarrow> wire c' = wire c
     \<or> (\<exists>op ok. wire c' = wire c @ [(sink_conn c, op, ok)] \<and> (op = CloseOp \<longrightarrow> closes))"

lemma wrote_write [intro]: "op \<noteq> CloseOp \<or> closes \<Longrightarrow> wrote closes c (sink_write op r c)"
  by (auto simp: wrote_def sink_write_def)

lemma wrote_quiet: "wire c' = wire c \<Longrightarrow> wrote closes c c'"
  by (simp add: wrote_def)

lemma ping_step_wrote: "ping_step inp c pc = Some (c', pc') \<Longrightarrow> wrote closes c c'"
  by (cases "\<exists>r. inp = SinkAnswers r")
    (auto dest: ping_step_quiet [THEN wrote_quiet] elim!: ping_step_SomeE [of "SinkAnswers r" for r])

lemma handler_step_wrote:
  "handler_step P C T a n (HSink r) c pc = Some (c', pc') \<Longrightarrow> wrote closes c c'"
  by (cases pc) (auto simp: do_send_response_def wrote_quiet split: option.split)

lemma perform_wrote:
  assumes "perform cfg P C T d s = Some t"
  shows "wrote (closing s \<noteq> 0 \<or> rl_pc (rl s) = CourtesyClose) (cl s) (cl t)"
proof (cases "writer P C d s")
  case None
  then show ?thesis by (intro wrote_quiet quiet_wire [OF assms])
next
  case (Some u)
  then show ?thesis using assms
    by (induction P C d s rule: writer.induct)
      (auto simp: ka_step_def ka_at_ping_def disconnect_close_def ping_step_wrote handler_step_wrote read_defs
        elim!: call_step_SomeE send_step_SomeE loop_writes.elims
        split: if_splits option.splits nat.splits ka_pc.splits ping_pc.splits handler_pc.splits)
qed

text \<open>Nothing is ever written to a connection that is not installed yet.\<close>

definition written_below :: "'e engine \<Rightarrow> bool" where
  "written_below s \<longleftrightarrow> subscribers_inv s \<and> (\<forall>w \<in> set (wire (cl s)). fst w \<le> sink_conn (cl s))"

lemma sink_conn_grows:
  assumes "perform cfg P C T d s = Some t" and "connections_ok (cl s) (rl s)"
  shows "sink_conn (cl s) \<le> sink_conn (cl t)"
proof (cases "installs d s")
  case True
  then obtain inp where "d = DRead inp" by (cases d) auto
  with assms True show ?thesis by (cases inp) (auto simp: read_defs connections_ok_def)
qed (use same_connection [OF assms(1)] in auto)

interpretation below: engine_invariant cfg P C T written_below for cfg P C T
proof unfold_locales
  show "written_below (from_transport_with_config cfg)"
    using subscribing.initially [of cfg] by (simp add: written_below_def)
      (simp add: from_transport_with_config_def new_client_def)
next
  fix s t assume step: "engine_step cfg P C T s t" and inv: "written_below s"
  obtain d where d: "perform cfg P C T d s = Some t" using step_performed [OF step] ..
  from inv have "connections_ok (cl s) (rl s)" by (simp add: written_below_def subscribers_inv_def)
  note grows = sink_conn_grows [OF d this]
  have "fst w \<le> sink_conn (cl t)" if "w \<in> set (wire (cl t))" for w
  proof -
    from that perform_wrote [OF d] have "w \<in> set (wire (cl s)) \<or> fst w = sink_conn (cl s)"
      by (auto simp: wrote_def)
    then show ?thesis using inv grows by (auto simp: written_below_def)
  qed
  with subscribing.kept [OF step] inv show "written_below t" by (simp add: written_below_def)
qed

text \<open>A closed client whose shutdown has sent its close sends no other.\<close>

definition no_more_closes :: "'e engine \<Rightarrow> bool" where
  "no_more_closes s \<longleftrightarrow> closed (cl s) \<and> closing s = 0 \<and> rl_pc (rl s) \<noteq> CourtesyClose"

lemma read_event_courtesy: "read_event P C ev c = (c', pc) \<Longrightarrow> pc \<noteq> CourtesyClose"
  by (cases ev) (auto split: prod.splits)

lemma read_task_courtesy:
  assumes "read_task cfg P C inp c l = Some (c', l')" and "closed c"
  shows "rl_pc l' \<noteq> CourtesyClose"
  using assms
  by (cases "rl_pc l"; cases inp)
    (auto simp: read_defs take_wake_cases read_woken_def after_exit_def Let_def
      dest: read_event_courtesy split: option.splits prod.splits if_splits)

lemma no_more_closes_step:
  assumes "engine_step cfg P C T s t" and "no_more_closes s"
  shows "no_more_closes t"
proof -
  have "closed (cl t)" using engine_step_closed [OF assms(1)] assms(2) by (simp add: no_more_closes_def)
  moreover from assms(1) have "closing t = 0 \<and> rl_pc (rl t) \<noteq> CourtesyClose"
  proof (cases rule: engine_step.cases)
    case (read_loop inp c' l')
    with read_task_courtesy [OF read_loop(2)] assms(2) show ?thesis by (simp add: no_more_closes_def)
  qed (use assms(2) in \<open>auto simp: no_more_closes_def disconnect_begin_def\<close>)
  ultimately show ?thesis by (simp add: no_more_closes_def)
qed

lemma closes_kept:
  assumes "engine_runs cfg P C T s t" and "no_more_closes s"
  shows "no_more_closes t \<and> ((k, CloseOp, ok) \<in> set (wire (cl t)) \<longrightarrow> (k, CloseOp, ok) \<in> set (wire (cl s)))"
  using assms
proof (induction rule: engine_runs.induct)
  case (go t u)
  obtain d where "perform cfg P C T d t = Some u" using step_performed [OF go(2)] ..
  from perform_wrote [OF this] go no_more_closes_step [OF go(2)] show ?case
    by (auto simp: wrote_def no_more_closes_def)
qed simp

text \<open>The dial that is under way succeeds, and the loop finds itself shut down.\<close>

lemma dial_completes:
  assumes "engine_reach cfg P C T s" and "closed (cl s)" and "rl_pc (rl s) = Dialing"
  shows "\<exists>t. engine_runs cfg P C T s t \<and> rl_pc (rl t) = Stopped \<and> sink_conn (cl t) = next_conn (rl s)"
proof -
  have "force_reconnect (cl s) = Some ()"
    using control.always [OF assms(1)] assms(2,3) by (simp add: control_inv_def wake_inv_def)
  then obtain c' l' where "read_run cfg P C [Dialled True, RGo, RGo, Woken, RGo, RGo] (cl s, rl s) = Some (c', l')"
    "rl_pc l' = Stopped" "sink_conn c' = next_conn (rl s)"
    using assms(2,3) by (auto simp: read_defs take_wake_cases read_woken_def after_exit_def clear_pong_waiters_def)
  with read_run_runs [of cfg P C _ s c' l' T] show ?thesis by blast
qed

text \<open>
  C38. A shutdown that arrives while a redial is in progress leaves the new connection open: from every
  state in which the client is closed, the shutdown's own close is done and a dial is under way, the dial
  can complete, its connection becomes the sink and the read loop ends; and in no run from there does any
  task ever close that connection.
\<close>

theorem disconnect_during_dial_leaves_connection_open:
  assumes "engine_reach cfg P C T s" and "closed (cl s)" and "closing s = 0" and "rl_pc (rl s) = Dialing"
  shows "(\<exists>t. engine_runs cfg P C T s t \<and> rl_pc (rl t) = Stopped \<and> sink_conn (cl t) = next_conn (rl s))
    \<and> (\<forall>t ok. engine_runs cfg P C T s t \<longrightarrow> (next_conn (rl s), CloseOp, ok) \<notin> set (wire (cl t)))"
proof (intro conjI allI impI dial_completes [OF assms(1,2,4)])
  fix t ok assume run: "engine_runs cfg P C T s t"
  have "written_below s" by (rule below.always [OF assms(1)])
  then have "(next_conn (rl s), CloseOp, ok) \<notin> set (wire (cl s))"
    by (auto simp: written_below_def subscribers_inv_def connections_ok_def)
  with closes_kept [OF run] assms(2-4) show "(next_conn (rl s), CloseOp, ok) \<notin> set (wire (cl t))"
    by (auto simp: no_more_closes_def)
qed

theorem disconnect_during_dial_leaves_connection_open_witness:
  "let s = redial_run (table_codec []) lenient_types (to_dialing @ [DDisconnect, DDisconnectCloses (Ok ())])
   in wire (cl s) = [(0, CloseOp, True)] \<and> next_conn (rl s) = 1
    \<and> (\<exists>t. engine_runs redial_cfg protocol_error_1_6 (table_codec []) lenient_types s t \<and> rl_pc (rl t) = Stopped
        \<and> sink_conn (cl t) = 1 \<and> (1, CloseOp, True) \<notin> set (wire (cl t)))"
proof -
  define s where "s = redial_run (table_codec []) lenient_types (to_dialing @ [DDisconnect, DDisconnectCloses (Ok ())])"
  have "engine_reach redial_cfg protocol_error_1_6 (table_codec []) lenient_types s"
    unfolding s_def redial_run_def by (rule performed_runs) (simp add: redial_eval)
  moreover have s: "closed (cl s)" "closing s = 0" "rl_pc (rl s) = Dialing" "wire (cl s) = [(0, CloseOp, True)]"
    "next_conn (rl s) = 1"
    by (simp_all add: s_def redial_eval)
  ultimately show ?thesis
    using disconnect_during_dial_leaves_connection_open [of redial_cfg protocol_error_1_6 "table_codec []" lenient_types s]
    unfolding s_def [symmetric] Let_def by metis
qed

subsection \<open>A CALL for a replaced handler\<close>

lemma ended_handler_stays:
  assumes "engine_runs cfg P C T s t" and "i < length (handlers s)" and "ht_pc (handlers s ! i) = HEnded"
  shows "i < length (handlers t) \<and> handlers t ! i = handlers s ! i"
  using assms
proof (induction rule: engine_runs.induct)
  case stay
  then show ?case by simp
next
  case (go t u)
  then have t: "i < length (handlers t)" "handlers t ! i = handlers s ! i" "ht_pc (handlers t ! i) = HEnded" by auto
  from go(2) show ?case
  proof (cases rule: engine_step.cases)
    case (on a chan c')
    with t show ?thesis by (simp add: nth_append)
  next
    case (handler_moves j inp c' pc')
    then have "j \<noteq> i" using t(3) by auto
    with handler_moves t show ?thesis by simp
  qed (use t in auto)
qed

lemma delivered_grows: "engine_runs cfg P C T s t \<Longrightarrow> \<exists>more. delivered t = delivered s @ more"
proof (induction rule: engine_runs.induct)
  case (go t u)
  from go(2) have "\<exists>more. delivered u = delivered t @ more"
    by (cases rule: engine_step.cases) auto
  with go.IH show ?case by auto
qed simp

text \<open>Once its handler has ended, what is queued on a channel stays there.\<close>

lemma stranded:
  assumes "engine_reach cfg P C T t" and "i < length (handlers t)" and "ht_pc (handlers t ! i) = HEnded"
    and "ht_chan (handlers t ! i) = chan" and "queue (call_chans (cl t) chan) = m # later" and "engine_runs cfg P C T t u"
  shows "(\<exists>later. queue (call_chans (cl u) chan) = m # later)
    \<and> (\<forall>h \<in> set (handlers u). ht_chan h = chan \<longrightarrow> ht_pc h = HEnded)"
proof -
  have reach: "engine_reach cfg P C T u" by (rule engine_runs_trans [OF assms(1,6)])
  have u: "i < length (handlers u)" "handlers u ! i = handlers t ! i" using ended_handler_stays [OF assms(6,2,3)] by auto
  have conserve: "handed_to chan s = rd_taken (handler_reader (handlers t ! i)) @ queue (call_chans (cl s) chan)"
    if "engine_reach cfg P C T s" "i < length (handlers s)" "handlers s ! i = handlers t ! i" for s
    using call_mail.nothing_lost [OF that(1), of "handler_reader (handlers s ! i)"] that(2,3) assms(4) nth_mem [OF that(2)]
    by (simp add: handed_to_room)
  obtain more where "handed_to chan u = handed_to chan t @ more"
    using delivered_grows [OF assms(6)] by (auto simp: handed_to_def)
  with conserve [OF assms(1,2)] conserve [OF reach u] assms(5)
  have "queue (call_chans (cl u) chan) = m # later @ more" by simp
  moreover have "ht_pc h = HEnded" if h: "h \<in> set (handlers u)" "ht_chan h = chan" for h
  proof -
    have "distinct (map ht_chan (handlers u))"
      using call_mail.view_inv [OF reach] by (simp add: room_inv_def comp_def)
    moreover obtain j where "j < length (handlers u)" "h = handlers u ! j" using h(1) by (auto simp: in_set_conv_nth)
    ultimately have "handlers u ! j = handlers u ! i"
      using u h(2) assms(4) nth_eq_iff_index_eq [of "map ht_chan (handlers u)" i j] by simp
    with \<open>h = handlers u ! j\<close> u(2) assms(3) show ?thesis by simp
  qed
  ultimately show ?thesis by blast
qed

text \<open>An idle handler whose channel is closed ends, in one step or two.\<close>

lemma closed_handler_checks:
  assumes "i < length (handlers s)" and "ht_pc (handlers s ! i) = HChecking" and "ht_chan (handlers s ! i) = chan"
    and "queue (call_chans (cl s) chan) = []" and "is_closed_chan (call_chans (cl s) chan)"
  shows "\<exists>t. engine_runs cfg P C T s t \<and> rl t = rl s \<and> inbox t = inbox s \<and> i < length (handlers t)
    \<and> ht_chan (handlers t ! i) = chan \<and> ht_pc (handlers t ! i) = HEnded \<and> queue (call_chans (cl t) chan) = []"
proof -
  define t where "t = the (perform cfg P C T (DHandlerMoves i HProceed) s)"
  have "perform cfg P C T (DHandlerMoves i HProceed) s = Some t"
    and t: "rl t = rl s" "inbox t = inbox s" "i < length (handlers t)" "ht_chan (handlers t ! i) = chan"
      "ht_pc (handlers t ! i) = HEnded" "queue (call_chans (cl t) chan) = []"
    using assms by (simp_all add: t_def chan_check_cases)
  then have "engine_runs cfg P C T s t" by (blast intro: engine_runs.intros perform_step)
  with t show ?thesis by blast
qed

lemma closed_handler_ends:
  assumes "i < length (handlers s)" and "ht_pc (handlers s ! i) \<in> {HChecking, HParked}" and "ht_chan (handlers s ! i) = chan"
    and "queue (call_chans (cl s) chan) = []" and "is_closed_chan (call_chans (cl s) chan)"
    and "wakeup (call_chans (cl s) chan) = Some ()"
  shows "\<exists>t. engine_runs cfg P C T s t \<and> rl t = rl s \<and> inbox t = inbox s \<and> i < length (handlers t)
    \<and> ht_chan (handlers t ! i) = chan \<and> ht_pc (handlers t ! i) = HEnded \<and> queue (call_chans (cl t) chan) = []"
proof (cases "ht_pc (handlers s ! i) = HParked")
  case True
  define u where "u = the (perform cfg P C T (DHandlerMoves i HProceed) s)"
  have "perform cfg P C T (DHandlerMoves i HProceed) s = Some u"
    and u: "rl u = rl s" "inbox u = inbox s" "i < length (handlers u)" "ht_pc (handlers u ! i) = HChecking"
      "ht_chan (handlers u ! i) = chan" "queue (call_chans (cl u) chan) = []" "is_closed_chan (call_chans (cl u) chan)"
    using assms True by (simp_all add: u_def signal_poll_def)
  then have "engine_runs cfg P C T s u" by (blast intro: engine_runs.intros perform_step)
  with closed_handler_checks [OF u(3-7), of cfg P C T] u(1,2) engine_runs_trans show ?thesis by metis
qed (use assms closed_handler_checks [of i s chan] in auto)

text \<open>The handler of a bound action, run until it has nothing left to do, replaced, and run to its end.\<close>

lemma replaced_handler_ends:
  assumes "engine_reach cfg P C T s" and "request_senders (cl s) action = Some chan"
  shows "\<exists>t i. engine_runs cfg P C T s t \<and> rl t = rl s \<and> inbox t = inbox s \<and> i < length (handlers t)
    \<and> ht_chan (handlers t ! i) = chan \<and> ht_pc (handlers t ! i) = HEnded \<and> queue (call_chans (cl t) chan) = []"
proof -
  obtain i where i: "i < length (handlers s)" "ht_chan (handlers s ! i) = chan" "ht_pc (handlers s ! i) \<noteq> HEnded"
    using call_mail.bound_is_attended [OF assms(1), of action chan] assms(2) by (fastforce simp: in_set_conv_nth)
  obtain u where u: "engine_runs cfg P C T s u" "rl u = rl s" "inbox u = inbox s"
      "request_senders (cl u) = request_senders (cl s)" "i < length (handlers u)"
      "ht_pc (handlers u ! i) \<in> {HChecking, HParked}" "ht_chan (handlers u ! i) = chan"
      "queue (call_chans (cl u) chan) = []"
    using handler_catches_up_run [OF assms(1) i(1,3), of "\<lambda>_. Ok (Ok JNull)"] i(2) by auto
  define v where "v = the (perform cfg P C T (DOn action) u)"
  have run: "engine_runs cfg P C T s v"
    using perform_all_runs [of cfg P C T "[DOn action]" u v] engine_runs_trans [OF u(1)] by (simp add: v_def)
  have "well_registered (request_senders (cl u)) (next_call_chan (cl u))"
    using call_mail.view_inv [OF engine_runs_trans [OF assms(1) u(1)]] by (simp add: room_inv_def)
  then have "call_chans (cl v) chan = chan_close (call_chans (cl u) chan)"
    using requests.replaced_is_closed [of "cl u" action chan] assms(2) u(4) by (simp add: v_def)
  then have v: "rl v = rl s" "inbox v = inbox s" "handlers v ! i = handlers u ! i" "i < length (handlers v)"
    "queue (call_chans (cl v) chan) = []" "is_closed_chan (call_chans (cl v) chan)"
    "wakeup (call_chans (cl v) chan) = Some ()"
    using u by (simp_all add: v_def nth_append chan_close_def chan_wake_def chan_mark_closed_def signal_put_def)
  obtain t where "engine_runs cfg P C T v t" "rl t = rl v" "inbox t = inbox v" "i < length (handlers t)"
      "ht_chan (handlers t ! i) = chan" "ht_pc (handlers t ! i) = HEnded" "queue (call_chans (cl t) chan) = []"
    using closed_handler_ends [of i v chan cfg P C T] v u(6,7) by auto
  with v(1,2) engine_runs_trans [OF run] show ?thesis by metis
qed

text \<open>
  C39. A CALL can be lost for good when its handler is replaced while the CALL is being dispatched: from
  every state in which the client is reading, for every CALL whose action has a handler, there is a run
  in which the CALL arrives and ends up at the head of the queue of a channel that only a handler which
  has ended ever reads, and there it stays in every continuation, unanswered.
\<close>

theorem call_to_replaced_handler_is_lost:
  assumes "engine_reach cfg P C T s" and "rl_pc (rl s) = Reading" and "request_senders (cl s) action = Some chan"
    and "from_str C frame = Some (call_value (RawCall MESSAGE_TYPE_CALL mid action payload))"
  shows "\<exists>t. engine_runs cfg P C T s t \<and> inbox t = inbox s @ [Frame frame]
    \<and> (\<forall>u. engine_runs cfg P C T t u \<longrightarrow>
        (\<exists>later. queue (call_chans (cl u) chan) = (mid, payload) # later)
        \<and> (\<forall>h \<in> set (handlers u). ht_chan h = chan \<longrightarrow> ht_pc h = HEnded))"
proof -
  define v where "v = the (perform cfg P C T (DRead (RecvEvent (Frame frame))) s)"
  have "perform cfg P C T (DRead (RecvEvent (Frame frame))) s = Some v"
    and v: "rl_pc (rl v) = Dispatching (ToHandler chan (mid, payload))" "inbox v = inbox s @ [Frame frame]"
      "request_senders (cl v) action = Some chan"
    using assms(2,3) route_frame_call [OF assms(4), of P "cl s"] by (simp_all add: v_def read_defs)
  then have looked_up: "engine_runs cfg P C T s v" by (blast intro: engine_runs.intros perform_step)
  obtain w i where w: "engine_runs cfg P C T v w" "rl w = rl v" "inbox w = inbox v" "i < length (handlers w)"
      "ht_chan (handlers w ! i) = chan" "ht_pc (handlers w ! i) = HEnded" "queue (call_chans (cl w) chan) = []"
    using replaced_handler_ends [OF engine_runs_trans [OF assms(1) looked_up] v(3)] by blast
  define t where "t = the (perform cfg P C T (DRead (RSink (Ok ()))) w)"
  have "perform cfg P C T (DRead (RSink (Ok ()))) w = Some t"
    and t: "inbox t = inbox v" "handlers t = handlers w" "queue (call_chans (cl t) chan) = [(mid, payload)]"
    using w v(1) by (simp_all add: t_def read_defs)
  then have "engine_runs cfg P C T v t" using w(1) by (blast intro: engine_runs.go perform_step)
  then have run: "engine_runs cfg P C T s t" by (rule engine_runs_trans [OF looked_up])
  have "engine_reach cfg P C T t" by (rule engine_runs_trans [OF assms(1) run])
  note stays = stranded [OF this, of i chan "(mid, payload)" "[]"]
  show ?thesis using run t(1) v(2) stays w(4-6) t(2,3) by (intro exI [of _ t]) simp
qed

theorem call_to_replaced_handler_is_lost_witness:
  "\<exists>t. engine_runs (client_config_new 0) protocol_error_1_6 reset_codec lenient_types (reset_run [DOn ''Reset'']) t
     \<and> inbox t = [Frame ''[2,m,Reset,null]''] \<and> hd (queue (call_chans (cl t) 0)) = (''m'', JNull)
     \<and> \<not> list_ex (\<lambda>h. ht_chan h = 0 \<and> ht_pc h \<noteq> HEnded) (handlers t)"
proof -
  define s where "s = reset_run [DOn ''Reset'']"
  have "engine_reach (client_config_new 0) protocol_error_1_6 reset_codec lenient_types s"
    unfolding s_def reset_run_def by (rule performed_runs) (simp add: reset_eval)
  moreover have s: "rl_pc (rl s) = Reading" "request_senders (cl s) ''Reset'' = Some 0" "inbox s = []"
    by (simp_all add: s_def reset_eval)
  ultimately obtain t where t: "engine_runs (client_config_new 0) protocol_error_1_6 reset_codec lenient_types s t"
    "inbox t = [Frame ''[2,m,Reset,null]'']"
    "\<forall>u. engine_runs (client_config_new 0) protocol_error_1_6 reset_codec lenient_types t u \<longrightarrow>
       (\<exists>later. queue (call_chans (cl u) 0) = (''m'', JNull) # later)
       \<and> (\<forall>h \<in> set (handlers u). ht_chan h = 0 \<longrightarrow> ht_pc h = HEnded)"
    using call_to_replaced_handler_is_lost [OF _ s(1,2) reset_codec_simps(1), of "client_config_new 0" protocol_error_1_6
        lenient_types] unfolding s(3) append_Nil by blast
  with spec [OF t(3), of t] show ?thesis
    unfolding s_def [symmetric] by (intro exI [of _ t]) (auto simp: list_ex_iff intro: engine_runs.stay)
qed

end
