(* ===== verification/Transport.thy ===== *)
theory Transport
  imports Client_State
begin

text \<open>
  The two transports: the WebSocket adapter over \<open>tokio-tungstenite\<close> (\<^verbatim>\<open>src/transport/websocket.rs\<close>)
  and the embassy one over \<open>embedded-websocket\<close>
  (\<^verbatim>\<open>crates/ocpp-transport-embassy-net/src/transport.rs\<close>). The protocol libraries and the sockets are
  outside the repository: what they deliver is a parameter (a script of messages or of socket reads,
  the frame decoder, the handshake check).

  A Rust \<open>String\<close> is the list of its UTF-8 bytes; \<open>from_utf8\<close> is the check of the standard library.
\<close>

subsection \<open>UTF-8\<close>

definition cont_byte :: "nat \<Rightarrow> bool" where
  "cont_byte b \<longleftrightarrow> 128 \<le> b \<and> b < 192"

text \<open>The second byte allowed after a three-byte lead, and after a four-byte lead.\<close>

definition second_of_3 :: "nat \<Rightarrow> nat \<Rightarrow> bool" where
  "second_of_3 a b \<longleftrightarrow>
     (if a = 224 then 160 \<le> b \<and> b < 192 else if a = 237 then 128 \<le> b \<and> b < 160 else cont_byte b)"

definition second_of_4 :: "nat \<Rightarrow> nat \<Rightarrow> bool" where
  "second_of_4 a b \<longleftrightarrow>
     (if a = 240 then 144 \<le> b \<and> b < 192 else if a = 244 then 128 \<le> b \<and> b < 144 else cont_byte b)"

fun utf8_ok :: "nat list \<Rightarrow> bool" where
  "utf8_ok [] = True"
| "utf8_ok (a # rest) =
     (if a < 128 then utf8_ok rest
      else if 194 \<le> a \<and> a < 224 then
        (case rest of b # rest' \<Rightarrow> cont_byte b \<and> utf8_ok rest' | _ \<Rightarrow> False)
      else if 224 \<le> a \<and> a < 240 then
        (case rest of b # c # rest' \<Rightarrow> second_of_3 a b \<and> cont_byte c \<and> utf8_ok rest' | _ \<Rightarrow> False)
      else if 240 \<le> a \<and> a < 245 then
        (case rest of b # c # d # rest' \<Rightarrow> second_of_4 a b \<and> cont_byte c \<and> cont_byte d \<and> utf8_ok rest' | _ \<Rightarrow> False)
      else False)"

definition from_utf8 :: "byte list \<Rightarrow> (string, string) result" where
  "from_utf8 bs = (if utf8_ok (map unat bs) then Ok (map (\<lambda>b. char_of (unat b)) bs) else Err ''FromUtf8Error'')"

subsection \<open>The WebSocket adapter\<close>

datatype ws_message =
    WsText string
  | WsBinary "byte list"
  | WsPing "byte list"
  | WsPong "byte list"
  | WsClose
  | WsFrame "byte list"

text \<open>What \<open>next()\<close> yields: the end, an error, or a message.\<close>

datatype ws_next = WsEnd | WsErr string | WsMsg ws_message

fun ws_sink_message :: "sink_op \<Rightarrow> ws_message" where
  "ws_sink_message (SendOp frame) = WsText frame"
| "ws_sink_message (PingOp payload) = WsPing payload"
| "ws_sink_message (PongOp payload) = WsPong payload"
| "ws_sink_message CloseOp = WsClose"

text \<open>\<open>recv\<close> on the items to come; \<open>None\<close> where it is still waiting for one.\<close>

fun ws_recv :: "ws_next list \<Rightarrow> ((transport_event option, string) result \<times> ws_next list) option" where
  "ws_recv [] = None"
| "ws_recv (WsEnd # rest) = Some (Ok None, rest)"
| "ws_recv (WsErr e # rest) = Some (Err e, rest)"
| "ws_recv (WsMsg (WsText t) # rest) = Some (Ok (Some (Frame t)), rest)"
| "ws_recv (WsMsg (WsPing p) # rest) = Some (Ok (Some (Ping p)), rest)"
| "ws_recv (WsMsg (WsPong p) # rest) = Some (Ok (Some (Pong p)), rest)"
| "ws_recv (WsMsg WsClose # rest) = Some (Ok None, rest)"
| "ws_recv (WsMsg (WsBinary _) # rest) = ws_recv rest"
| "ws_recv (WsMsg (WsFrame _) # rest) = ws_recv rest"

lemma ws_recv_shorter: "ws_recv items = Some (r, rest) \<Longrightarrow> length rest < length items"
  by (induction items rule: ws_recv.induct) auto

text \<open>A reader that calls \<open>recv\<close> until the connection ends, as the read loop does.\<close>

function ws_events :: "ws_next list \<Rightarrow> transport_event list" where
  "ws_events items =
     (case ws_recv items of Some (Ok (Some event), rest) \<Rightarrow> event # ws_events rest | _ \<Rightarrow> [])"
  by auto
termination by (relation "measure length") (auto dest: ws_recv_shorter)

declare ws_events.simps [simp del]

fun ws_ends :: "ws_next \<Rightarrow> bool" where
  "ws_ends WsEnd = True"
| "ws_ends (WsErr _) = True"
| "ws_ends (WsMsg m) = (m = WsClose)"

fun ws_event :: "ws_next \<Rightarrow> transport_event option" where
  "ws_event (WsMsg (WsText t)) = Some (Frame t)"
| "ws_event (WsMsg (WsPing p)) = Some (Ping p)"
| "ws_event (WsMsg (WsPong p)) = Some (Pong p)"
| "ws_event _ = None"

lemma ws_events_step: "ws_events items =
   (case items of [] \<Rightarrow> [] | i # rest \<Rightarrow> if ws_ends i then [] else
      (case ws_event i of Some e \<Rightarrow> e # ws_events rest | None \<Rightarrow> ws_events rest))"
proof (cases items)
  case Nil
  then show ?thesis by (simp add: ws_events.simps)
next
  case (Cons i rest)
  have "ws_events (i # rest) =
      (case ws_recv (i # rest) of Some (Ok (Some event), rest) \<Rightarrow> event # ws_events rest | _ \<Rightarrow> [])"
    by (rule ws_events.simps)
  moreover have "ws_events rest =
      (case ws_recv rest of Some (Ok (Some event), rest) \<Rightarrow> event # ws_events rest | _ \<Rightarrow> [])"
    by (rule ws_events.simps)
  ultimately show ?thesis
    using Cons by (cases "(i # rest)" rule: ws_recv.cases) auto
qed

text \<open>
  Every text message, ping and pong in order, each exactly once, and nothing else: binary messages are
  skipped without ending the stream, and the first close, error or end of stream is the end.
\<close>

lemma ws_events_closed_form:
  "ws_events items = List.map_filter ws_event (takeWhile (\<lambda>i. \<not> ws_ends i) items)"
proof (induction items)
  case Nil
  then show ?case by (simp add: ws_events_step [of "[]"] List.map_filter_def)
next
  case (Cons i items)
  then show ?case
    by (simp add: ws_events_step [of "i # items"] List.map_filter_def split: option.split)
qed

subsection \<open>The embassy stream\<close>

datatype ws_message_type = MText | MBinary | MPing | MPong | MCloseMustReply | MCloseCompleted

text \<open>
  One result of the frame decoder: how many socket bytes it consumed, what it decoded into the frame
  buffer, and whether that ends the message.
\<close>

record ws_read_result =
  len_from :: nat
  chunk :: "byte list"
  end_of_message :: bool
  message_type :: ws_message_type

text \<open>
  The stream half: the decoder's state (a parameter's), the socket bytes it has not consumed yet and the
  text assembled so far. All of it lives in \<open>self\<close>.
\<close>

record 'w embassy_stream =
  ws_state :: 'w
  pending :: "byte list"
  accumulated :: "byte list"

type_synonym 'w ws_decoder = "'w \<Rightarrow> byte list \<Rightarrow> (ws_read_result, string) result \<times> 'w"

datatype recv_result = Again | Yield transport_event | Ended | Failed string

fun embassy_take :: "ws_read_result \<Rightarrow> byte list \<Rightarrow> recv_result \<times> byte list" where
  "embassy_take res acc =
     (case message_type res of
        MText \<Rightarrow>
          if end_of_message res then
            (case from_utf8 (acc @ chunk res) of Ok text \<Rightarrow> (Yield (Frame text), []) | Err e \<Rightarrow> (Failed e, []))
          else (Again, acc @ chunk res)
      | MBinary \<Rightarrow> (Again, [])
      | MPing \<Rightarrow> (Yield (Ping (chunk res)), acc)
      | MPong \<Rightarrow> (Yield (Pong (chunk res)), acc)
      | MCloseMustReply \<Rightarrow> (Ended, acc)
      | MCloseCompleted \<Rightarrow> (Ended, acc))"

text \<open>The loop body after the socket read: decode, drain, match.\<close>

definition embassy_decode :: "'w ws_decoder \<Rightarrow> 'w embassy_stream \<Rightarrow> recv_result \<times> 'w embassy_stream" where
  "embassy_decode dec s =
     (case dec (ws_state s) (pending s) of
        (Err e, w) \<Rightarrow> (Failed e, s\<lparr>ws_state := w\<rparr>)
      | (Ok res, w) \<Rightarrow>
          (case embassy_take res (accumulated s) of
             (r, acc) \<Rightarrow>
               (r, s\<lparr>ws_state := w, pending := drop (len_from res) (pending s), accumulated := acc\<rparr>)))"

text \<open>The top of the loop: when nothing is pending, read from the socket, which may fail.\<close>

type_synonym socket_read = "(byte list, string) result"

datatype 'w fill_result =
    Parked
  | SocketEnd "socket_read list"
  | SocketFails string "socket_read list"
  | Filled "'w embassy_stream" "socket_read list"

definition embassy_fill :: "'w embassy_stream \<Rightarrow> socket_read list \<Rightarrow> 'w fill_result" where
  "embassy_fill s reads =
     (if pending s \<noteq> [] then Filled s reads
      else case reads of
        [] \<Rightarrow> Parked
      | Ok bytes # rest \<Rightarrow> if bytes = [] then SocketEnd rest else Filled (s\<lparr>pending := bytes\<rparr>) rest
      | Err e # rest \<Rightarrow> SocketFails e rest)"

text \<open>
  \<open>recv\<close> on the socket reads to come (an empty one is the end of the stream). A result of \<open>None\<close> is a
  \<open>recv\<close> parked in the socket read, together with the \<open>self\<close> it leaves behind if it is dropped there.
  \<open>fuel\<close> bounds the passes of the loop.
\<close>

fun embassy_recv :: "'w ws_decoder \<Rightarrow> nat \<Rightarrow> 'w embassy_stream \<Rightarrow> socket_read list \<Rightarrow>
   (recv_result option \<times> 'w embassy_stream \<times> socket_read list) option" where
  "embassy_recv dec 0 s reads = None"
| "embassy_recv dec (Suc fuel) s reads =
     (case embassy_fill s reads of
        Parked \<Rightarrow> Some (None, s, reads)
      | SocketEnd rest \<Rightarrow> Some (Some Ended, s, rest)
      | SocketFails e rest \<Rightarrow> Some (Some (Failed e), s, rest)
      | Filled s' rest \<Rightarrow>
          (let (r, s'') = embassy_decode dec s' in
           if r = Again then embassy_recv dec fuel s'' rest else Some (Some r, s'', rest)))"

lemma embassy_recv_more_fuel:
  "embassy_recv dec n s reads = Some r \<Longrightarrow> n \<le> m \<Longrightarrow> embassy_recv dec m s reads = Some r"
proof (induction n arbitrary: m s reads)
  case (Suc n)
  then obtain k where "m = Suc k" "n \<le> k" by (cases m) auto
  with Suc show ?case by (auto simp: Let_def split: fill_result.splits prod.splits if_splits)
qed simp

lemma embassy_fill_append:
  "embassy_fill s reads = SocketEnd rest \<Longrightarrow> embassy_fill s (reads @ extra) = SocketEnd (rest @ extra)"
  "embassy_fill s reads = SocketFails e rest \<Longrightarrow> embassy_fill s (reads @ extra) = SocketFails e (rest @ extra)"
  "embassy_fill s reads = Filled s' rest \<Longrightarrow> embassy_fill s (reads @ extra) = Filled s' (rest @ extra)"
  "embassy_fill s reads = Parked \<Longrightarrow> reads = []"
  by (auto simp: embassy_fill_def split: if_splits list.splits result.splits)

lemma embassy_recv_resumes:
  assumes "embassy_recv dec n s reads = Some (None, s', rest)" and "embassy_recv dec m s' extra = Some r"
  shows "embassy_recv dec (n + m) s (reads @ extra) = Some r"
  using assms
proof (induction n arbitrary: s reads)
  case (Suc n)
  show ?case
  proof (cases "embassy_fill s reads")
    case Parked
    with Suc.prems have "s' = s" "reads = []" by (auto simp: embassy_fill_append)
    with Suc.prems embassy_recv_more_fuel [of dec m s extra r "Suc n + m"] show ?thesis by simp
  next
    case (Filled t rest')
    with Suc.prems obtain t' where "embassy_decode dec t = (Again, t')"
      "embassy_recv dec n t' rest' = Some (None, s', rest)"
      by (auto simp: Let_def split: prod.splits if_splits)
    with Suc.IH Suc.prems(2) Filled show ?thesis by (simp add: embassy_fill_append(3))
  qed (use Suc.prems in auto)
qed simp

text \<open>With a decoder that always consumes something, the passes are bounded by the bytes there are.\<close>

definition consuming :: "'w ws_decoder \<Rightarrow> bool" where
  "consuming dec \<longleftrightarrow> (\<forall>w bs res w'. bs \<noteq> [] \<longrightarrow> dec w bs = (Ok res, w') \<longrightarrow> 0 < len_from res)"

fun read_bytes :: "socket_read \<Rightarrow> byte list" where
  "read_bytes (Ok bytes) = bytes"
| "read_bytes (Err _) = []"

definition bytes_left :: "'w embassy_stream \<Rightarrow> socket_read list \<Rightarrow> nat" where
  "bytes_left s reads = length (pending s) + length (concat (map read_bytes reads))"

lemma embassy_fill_bytes:
  "embassy_fill s reads = Filled t rest \<Longrightarrow> bytes_left t rest = bytes_left s reads \<and> pending t \<noteq> []"
  by (auto simp: embassy_fill_def bytes_left_def split: if_splits list.splits result.splits)

lemma embassy_decode_bytes:
  assumes "consuming dec" and "pending t \<noteq> []" and "embassy_decode dec t = (Again, t')"
  shows "bytes_left t' rest < bytes_left t rest"
proof -
  obtain res w where res: "dec (ws_state t) (pending t) = (Ok res, w)"
    "pending t' = drop (len_from res) (pending t)"
    using assms(3) by (auto simp: embassy_decode_def split: prod.splits result.splits)
  then have "0 < len_from res" using assms(1,2) by (auto simp: consuming_def)
  with res(2) assms(2) show ?thesis by (simp add: bytes_left_def)
qed

lemma embassy_recv_answers:
  assumes "consuming dec" and "bytes_left s reads < n"
  shows "\<exists>r. embassy_recv dec n s reads = Some r"
  using assms
proof (induction n arbitrary: s reads)
  case (Suc n)
  show ?case
  proof (cases "embassy_fill s reads")
    case (Filled t rest)
    obtain r t' where dec: "embassy_decode dec t = (r, t')" by fastforce
    show ?thesis
    proof (cases "r = Again")
      case True
      with dec embassy_decode_bytes [OF Suc.prems(1), of t t' rest] embassy_fill_bytes [OF Filled] Suc.prems(2)
      have "bytes_left t' rest < n" by simp
      with Suc.IH Suc.prems(1) Filled dec True show ?thesis by simp
    qed (use Filled dec in simp)
  qed auto
qed simp

text \<open>
  An error of the decoder is the result of \<open>recv\<close>, whatever it says: the bytes stay pending and nothing more
  is read from the socket.
\<close>

lemma embassy_decoder_error_is_fatal:
  assumes "pending s \<noteq> []" and "dec (ws_state s) (pending s) = (Err e, w)"
  shows "embassy_recv dec (Suc fuel) s reads = Some (Some (Failed e), s\<lparr>ws_state := w\<rparr>, reads)"
  using assms by (simp add: embassy_fill_def embassy_decode_def)

text \<open>The events successive calls of \<open>recv\<close> yield from the decoder's results, up to the end or an error.\<close>

fun embassy_events :: "ws_read_result list \<Rightarrow> byte list \<Rightarrow> transport_event list" where
  "embassy_events [] acc = []"
| "embassy_events (res # rest) acc =
     (case embassy_take res acc of
        (Again, acc') \<Rightarrow> embassy_events rest acc'
      | (Yield event, acc') \<Rightarrow> event # embassy_events rest acc'
      | (Ended, _) \<Rightarrow> []
      | (Failed _, _) \<Rightarrow> [])"

text \<open>What may stand between the first and the last fragment of a text message.\<close>

definition inner_fragment :: "ws_read_result \<Rightarrow> bool" where
  "inner_fragment res \<longleftrightarrow> (message_type res = MText \<and> \<not> end_of_message res) \<or> message_type res \<in> {MPing, MPong}"

definition text_bytes :: "ws_read_result list \<Rightarrow> byte list" where
  "text_bytes rs = concat (map chunk (filter (\<lambda>r. message_type r = MText) rs))"

definition control_events :: "ws_read_result list \<Rightarrow> transport_event list" where
  "control_events rs = concat (map (\<lambda>r. case message_type r of
     MPing \<Rightarrow> [Ping (chunk r)] | MPong \<Rightarrow> [Pong (chunk r)] | _ \<Rightarrow> []) rs)"

lemma embassy_events_fragments:
  "list_all inner_fragment rs \<Longrightarrow>
   embassy_events (rs @ rest) acc = control_events rs @ embassy_events rest (acc @ text_bytes rs)"
  by (induction rs arbitrary: acc) (auto simp: inner_fragment_def control_events_def text_bytes_def)

text \<open>
  The same from the socket up: what a reader gets that calls \<open>recv\<close> again and again, and the results the
  decoder produces on the way, read by read as the socket cuts the bytes and up to its first error, each
  with enough passes for the bytes there are.
\<close>

fun embassy_run :: "'w ws_decoder \<Rightarrow> nat \<Rightarrow> 'w embassy_stream \<Rightarrow> socket_read list \<Rightarrow> transport_event list" where
  "embassy_run dec 0 s reads = []"
| "embassy_run dec (Suc calls) s reads =
     (case embassy_recv dec (Suc (bytes_left s reads)) s reads of
        Some (Some (Yield event), s', rest) \<Rightarrow> event # embassy_run dec calls s' rest
      | _ \<Rightarrow> [])"

fun decoded :: "'w ws_decoder \<Rightarrow> nat \<Rightarrow> 'w embassy_stream \<Rightarrow> socket_read list \<Rightarrow> ws_read_result list" where
  "decoded dec 0 s reads = []"
| "decoded dec (Suc passes) s reads =
     (case embassy_fill s reads of
        Filled s' rest \<Rightarrow>
          (case dec (ws_state s') (pending s') of
             (Ok res, _) \<Rightarrow> res # decoded dec passes (snd (embassy_decode dec s')) rest
           | (Err _, _) \<Rightarrow> [])
      | _ \<Rightarrow> [])"

lemma embassy_recv_enough_fuel:
  assumes "consuming dec" and "bytes_left s reads < m" and "bytes_left s reads < n"
  shows "embassy_recv dec m s reads = embassy_recv dec n s reads"
  using embassy_recv_answers [OF assms(1), of s reads] embassy_recv_more_fuel assms
  by (metis (no_types, lifting) linorder_le_cases)

lemma embassy_decode_less:
  assumes "consuming dec" and "pending t \<noteq> []" and "dec (ws_state t) (pending t) = (Ok res, w)"
  shows "bytes_left (snd (embassy_decode dec t)) rest < bytes_left t rest"
proof -
  have "0 < len_from res" using assms by (auto simp: consuming_def)
  with assms(2,3) show ?thesis by (simp add: embassy_decode_def bytes_left_def split: prod.split)
qed

lemma embassy_run_decodes:
  assumes "consuming dec" and "bytes_left s reads < calls" and "bytes_left s reads < passes"
  shows "embassy_run dec calls s reads = embassy_events (decoded dec passes s reads) (accumulated s)"
  using assms
proof (induction "bytes_left s reads" arbitrary: s reads calls passes rule: less_induct)
  case less
  obtain calls' passes' where [simp]: "calls = Suc calls'" "passes = Suc passes'"
    using less.prems by (metis less_nat_zero_code not0_implies_Suc)
  show ?case
  proof (cases "embassy_fill s reads")
    case (Filled t rest)
    have t: "bytes_left t rest = bytes_left s reads" "pending t \<noteq> []" "accumulated t = accumulated s"
      using embassy_fill_bytes [OF Filled] Filled by (auto simp: embassy_fill_def split: if_splits list.splits result.splits)
    obtain d w where dec: "dec (ws_state t) (pending t) = (d, w)" by fastforce
    show ?thesis
    proof (cases d)
      case (Ok res)
      define u where "u = snd (embassy_decode dec t)"
      obtain r acc where take: "embassy_take res (accumulated s) = (r, acc)" by fastforce
      have u: "embassy_decode dec t = (r, u)" "accumulated u = acc"
        using dec Ok take t(3) by (simp_all add: u_def embassy_decode_def)
      have smaller: "bytes_left u rest < bytes_left s reads"
        using embassy_decode_less [OF less.prems(1) t(2), of res w rest] dec Ok t(1) by (simp add: u_def)
      note IH = less.hyps [OF smaller less.prems(1)]
      have fuel: "embassy_recv dec (bytes_left s reads) u rest = embassy_recv dec (Suc (bytes_left u rest)) u rest"
        by (rule embassy_recv_enough_fuel [OF less.prems(1)]) (use smaller in simp_all)
      have left: "embassy_run dec calls s reads =
          (case r of Again \<Rightarrow> embassy_run dec calls u rest | Yield e \<Rightarrow> e # embassy_run dec calls' u rest | _ \<Rightarrow> [])"
        using Filled u(1) fuel by (cases r) (simp_all del: embassy_take.simps)
      show ?thesis
        using left IH [of calls passes'] IH [of calls' passes'] smaller less.prems Filled dec Ok take u(2)
        by (cases r) (simp_all add: u_def [symmetric] del: embassy_take.simps embassy_run.simps(2))
    qed (use Filled dec in \<open>simp add: embassy_decode_def\<close>)
  qed simp_all
qed

subsection \<open>The embassy handshake and sink\<close>

text \<open>\<open>client_accept\<close> on what has been received so far: how many bytes the response took, or why not.\<close>

datatype accept_result = Accepted nat | HttpHeaderIncomplete | Refused string

text \<open>
  The loop that reads the handshake response into a buffer of \<open>cap\<close> bytes. \<open>sizes\<close> is how much the socket
  is willing to hand over at each read, or its error, \<open>stream\<close> the bytes still to come; the result is what
  was read beyond the response, and the rest of the stream. Running out of \<open>sizes\<close> is the socket closing.
\<close>

fun handshake :: "nat \<Rightarrow> (byte list \<Rightarrow> accept_result) \<Rightarrow> (nat, string) result list \<Rightarrow> byte list \<Rightarrow> byte list \<Rightarrow>
   (byte list \<times> byte list, string) result" where
  "handshake cap accept [] received stream = Err ''connection closed during opening handshake''"
| "handshake cap accept (Err e # sizes) received stream = Err e"
| "handshake cap accept (Ok n # sizes) received stream =
     (let bytes = take (min n (cap - length received)) stream;
          received' = received @ bytes;
          stream' = drop (length bytes) stream
      in if bytes = [] then Err ''connection closed during opening handshake''
         else case accept received' of
           Accepted consumed \<Rightarrow> Ok (drop consumed received', stream')
         | HttpHeaderIncomplete \<Rightarrow>
             if length received' = cap then Err ''opening handshake response exceeds handshake_buffer_size''
             else handshake cap accept sizes received' stream'
         | Refused e \<Rightarrow> Err e)"

record connect_config =
  remote :: "byte list \<times> 16 word"      \<comment> \<open>IPv4 address and port\<close>
  host :: string
  path :: string
  sub_protocol :: string
  socket_rx_buffer_size :: nat
  socket_tx_buffer_size :: nat
  handshake_buffer_size :: nat
  frame_buffer_size :: nat

definition connect_config_new :: "byte list \<times> 16 word \<Rightarrow> string \<Rightarrow> string \<Rightarrow> string \<Rightarrow> connect_config" where
  "connect_config_new r h p proto =
     \<lparr>remote = r, host = h, path = p, sub_protocol = proto, socket_rx_buffer_size = 2048, socket_tx_buffer_size = 2048,
      handshake_buffer_size = 2048, frame_buffer_size = 4096\<rparr>"

text \<open>
  \<open>connect\<close>: leak the socket's two buffers and the socket, dial, write the upgrade request, read the
  response, and build the stream half. The outcomes of the dial, of building the request, of the write
  and of the flush are inputs. Beside its result (the stream and the socket's remaining bytes, or the
  error) the call reports what it leaked, which is done before the first thing that can fail.
\<close>

datatype leaked = LeakedBuffer nat | LeakedSocket

definition embassy_connect ::
  "connect_config \<Rightarrow> (unit, string) result \<Rightarrow> (byte list, string) result \<Rightarrow> (nat, string) result \<Rightarrow> sink_outcome \<Rightarrow>
   (byte list \<Rightarrow> accept_result) \<Rightarrow> (nat, string) result list \<Rightarrow> byte list \<Rightarrow> 'w \<Rightarrow>
   leaked list \<times> ('w embassy_stream \<times> byte list, string) result" where
  "embassy_connect cfg dialled request written flushed accept sizes stream ws =
     ([LeakedBuffer (socket_rx_buffer_size cfg), LeakedBuffer (socket_tx_buffer_size cfg), LeakedSocket],
      case dialled of Err e \<Rightarrow> Err e | Ok _ \<Rightarrow>
      (case request of Err e \<Rightarrow> Err e | Ok _ \<Rightarrow>
       (case written of Err e \<Rightarrow> Err e | Ok _ \<Rightarrow>
        (case flushed of Err e \<Rightarrow> Err e | Ok _ \<Rightarrow>
         (case handshake (handshake_buffer_size cfg) accept sizes [] stream of
            Err e \<Rightarrow> Err e
          | Ok (left, rest) \<Rightarrow> Ok (\<lparr>ws_state = ws, pending = left, accumulated = []\<rparr>, rest))))))"

text \<open>\<open>EmbassyNetReconnector\<close> redials \<open>connect\<close> with the configuration it was built from.\<close>

record embassy_net_reconnector =
  er_config :: connect_config

definition embassy_net_reconnector_new :: "connect_config \<Rightarrow> embassy_net_reconnector" where
  "embassy_net_reconnector_new cfg = \<lparr>er_config = cfg\<rparr>"

definition embassy_redial ::
  "embassy_net_reconnector \<Rightarrow> (unit, string) result \<Rightarrow> (byte list, string) result \<Rightarrow> (nat, string) result \<Rightarrow>
   sink_outcome \<Rightarrow> (byte list \<Rightarrow> accept_result) \<Rightarrow> (nat, string) result list \<Rightarrow> byte list \<Rightarrow> 'w \<Rightarrow>
   leaked list \<times> ('w embassy_stream \<times> byte list, string) result" where
  "embassy_redial r = embassy_connect (er_config r)"

text \<open>A dial that fails leaks as much as one that succeeds.\<close>

lemma failed_dial_leaks:
  "snd (embassy_redial r (Err e) request written flushed accept sizes stream ws) = Err e
   \<and> fst (embassy_redial r (Err e) request written flushed accept sizes stream ws)
     = fst (embassy_redial r (Ok ()) request' written' flushed' accept' sizes' stream' ws')
   \<and> LeakedSocket \<in> set (fst (embassy_redial r (Err e) request written flushed accept sizes stream ws))"
  by (simp add: embassy_redial_def embassy_connect_def)

datatype ws_send_type = SendText | SendPing | SendPong | SendClose

fun embassy_payload :: "sink_op \<Rightarrow> ws_send_type \<times> byte list" where
  "embassy_payload (SendOp frame) = (SendText, map (\<lambda>c. word_of_nat (of_char c)) frame)"
| "embassy_payload (PingOp payload) = (SendPing, payload)"
| "embassy_payload (PongOp payload) = (SendPong, payload)"
| "embassy_payload CloseOp = (SendClose, [])"

text \<open>
  One sink operation: under the lock of the WebSocket state it shares with the stream, encode the frame
  into the scratch buffer (an error where it does not fit); then write and flush. \<open>written\<close> is how many
  bytes the socket accepted, which is all the socket's \<open>write\<close> promises; the result is what the
  operation returns, what went out, and the shared state.
\<close>

type_synonym 'w ws_encoder = "ws_send_type \<Rightarrow> byte list \<Rightarrow> nat \<Rightarrow> 'w \<Rightarrow> (byte list, string) result \<times> 'w"

definition embassy_send ::
  "'w ws_encoder \<Rightarrow> nat \<Rightarrow> (nat, string) result \<Rightarrow> sink_outcome \<Rightarrow> sink_op \<Rightarrow> 'w embassy_stream \<Rightarrow>
   sink_outcome \<times> byte list \<times> 'w embassy_stream" where
  "embassy_send encode scratch written flushed op s =
     (case embassy_payload op of (ty, payload) \<Rightarrow>
       (case encode ty payload scratch (ws_state s) of
          (Err e, w) \<Rightarrow> (Err e, [], s\<lparr>ws_state := w\<rparr>)
        | (Ok frame, w) \<Rightarrow>
            (case written of
               Err e \<Rightarrow> (Err e, [], s\<lparr>ws_state := w\<rparr>)
             | Ok n \<Rightarrow> (flushed, take n frame, s\<lparr>ws_state := w\<rparr>))))"

text \<open>
  A short write is reported as success: the tail of the frame is never sent. With the default sizes the
  socket's transmit buffer is half of the frame buffer, so frames the sink accepts need not fit it.
\<close>

lemma embassy_short_write_succeeds:
  assumes "encode (fst (embassy_payload op)) (snd (embassy_payload op)) scratch (ws_state s) = (Ok frame, w)"
    and "n < length frame"
  shows "embassy_send encode scratch (Ok n) (Ok ()) op s = (Ok (), take n frame, s\<lparr>ws_state := w\<rparr>)
    \<and> take n frame \<noteq> frame"
  using assms by (auto simp: embassy_send_def split_beta dest: arg_cong [of _ _ length])

text \<open>
  A sink operation interleaved with reading, wherever the read loop is suspended, leaves the socket bytes
  and the text assembled so far alone: what \<open>recv\<close> would still deliver does not depend on it, as long as
  encoding leaves the decoder's view of the shared state unchanged.
\<close>

definition decodes_alike :: "'w ws_decoder \<Rightarrow> 'w \<Rightarrow> 'w \<Rightarrow> bool" where
  "decodes_alike dec v w \<longleftrightarrow> (\<forall>bs. dec v bs = dec w bs)"

lemma embassy_send_keeps_stream:
  assumes "\<And>ty payload w. decodes_alike dec (snd (encode ty payload scratch w)) w"
  shows "map_option (\<lambda>(r, _, rest). (r, rest))
      (embassy_recv dec n (snd (snd (embassy_send encode scratch written flushed op s))) reads)
    = map_option (\<lambda>(r, _, rest). (r, rest)) (embassy_recv dec n s reads)"
proof (cases n)
  case (Suc m)
  define t where "t = snd (snd (embassy_send encode scratch written flushed op s))"
  have t: "pending t = pending s" "accumulated t = accumulated s" "decodes_alike dec (ws_state t) (ws_state s)"
    using assms [of "fst (embassy_payload op)" "snd (embassy_payload op)" "ws_state s"]
    by (auto simp: t_def embassy_send_def split_beta split: result.split prod.split)
  then have "embassy_decode dec t = embassy_decode dec s"
    "embassy_decode dec (t\<lparr>pending := bs\<rparr>) = embassy_decode dec (s\<lparr>pending := bs\<rparr>)" for bs
    by (auto simp: embassy_decode_def decodes_alike_def split: prod.split result.split)
  with t(1) Suc show ?thesis
    unfolding t_def [symmetric] by (auto simp: embassy_fill_def split: list.split result.split)
qed simp

lemma handshake_keeps:
  assumes "handshake cap accept sizes received stream = Ok (left, rest)"
    and "\<And>bs n. accept bs = Accepted n \<Longrightarrow> n \<le> length bs" and "length received \<le> cap"
  shows "\<exists>k consumed. k \<le> cap \<and> accept (take k (received @ stream)) = Accepted consumed
    \<and> left @ rest = drop consumed (received @ stream)"
  using assms
proof (induction cap accept sizes received stream rule: handshake.induct)
  case (1 cap accept received stream)
  then show ?case by simp
next
  case (2 cap accept e sizes received stream)
  then show ?case by simp
next
  case (3 cap accept n sizes received stream)
  define bytes where "bytes = take (min n (cap - length received)) stream"
  let ?received = "received @ bytes"
  let ?stream = "drop (length bytes) stream"
  have split: "received @ stream = ?received @ ?stream"
    unfolding bytes_def by (simp add: min_def)
  have fits: "length ?received \<le> cap" using 3(4) by (simp add: bytes_def)
  have nonempty: "bytes \<noteq> []" using 3(2) by (auto simp: bytes_def [symmetric] Let_def)
  show ?case
  proof (cases "accept ?received")
    case (Accepted consumed)
    with 3(2) nonempty have "left = drop consumed ?received" "rest = ?stream"
      by (auto simp: bytes_def [symmetric] Let_def)
    moreover have "take (length ?received) (received @ stream) = ?received" unfolding split by simp
    moreover have "drop consumed (received @ stream) = drop consumed ?received @ ?stream"
      unfolding split using 3(3) [OF Accepted] by simp
    ultimately show ?thesis using Accepted fits by metis
  next
    case HttpHeaderIncomplete
    with 3(2) nonempty have "length ?received \<noteq> cap" "handshake cap accept sizes ?received ?stream = Ok (left, rest)"
      by (auto simp: bytes_def [symmetric] Let_def split: if_splits)
    from 3(1) [OF bytes_def refl refl nonempty HttpHeaderIncomplete this 3(3) fits] show ?thesis
      unfolding split .
  next
    case (Refused e)
    with 3(2) nonempty show ?thesis by (auto simp: bytes_def [symmetric] Let_def)
  qed
qed

subsection \<open>Properties\<close>

text \<open>
  The embassy stream is cancel-safe, as \<open>TransportStream::recv\<close> demands: a \<open>recv\<close> dropped while it is
  parked in the socket read leaves a stream from which the next \<open>recv\<close> returns exactly what the dropped
  one would have returned on the same bytes. And with a decoder that always consumes something, \<open>recv\<close>
  comes back after at most as many passes as there are bytes: with an event, or parked.
\<close>

lemma embassy_recv_cancel_safe:
  assumes "embassy_recv dec n s reads = Some (None, s', rest)"
  shows "(embassy_recv dec m s' later = Some r \<longrightarrow> embassy_recv dec (n + m) s (reads @ later) = Some r)
    \<and> (consuming dec \<longrightarrow> bytes_left s' later < m \<longrightarrow> (\<exists>r. embassy_recv dec m s' later = Some r))"
  using embassy_recv_resumes [OF assms] embassy_recv_answers by blast

lemma from_utf8_AB: "from_utf8 [65, 66] = Ok ''AB''"
  by code_simp

text \<open>
  A decoder of one-byte frames: the byte 7 is a ping, the letter A continues a text message, any other byte
  ends it.
\<close>

definition toy_decoder :: "unit ws_decoder" where
  "toy_decoder w bs =
     (Ok \<lparr>len_from = 1, chunk = take 1 bs, end_of_message = (hd bs \<noteq> 65),
        message_type = (if hd bs = 7 then MPing else MText)\<rparr>, w)"

lemma embassy_recv_cancel_safe_example:
  "embassy_recv toy_decoder (Suc (Suc 0) + Suc 0) \<lparr>ws_state = (), pending = [], accumulated = []\<rparr> ([Ok [65]] @ [Ok [66]])
   = Some (Some (Yield (Frame ''AB'')), \<lparr>ws_state = (), pending = [], accumulated = []\<rparr>, [])"
proof -
  let ?s = "\<lparr>ws_state = (), pending = [], accumulated = []\<rparr> :: unit embassy_stream"
  have parked: "embassy_recv toy_decoder (Suc (Suc 0)) ?s [Ok [65]]
      = Some (None, \<lparr>ws_state = (), pending = [], accumulated = [65]\<rparr>, [])"
    by (simp add: embassy_fill_def embassy_decode_def toy_decoder_def)
  have "embassy_recv toy_decoder (Suc 0) \<lparr>ws_state = (), pending = [], accumulated = [65]\<rparr> [Ok [66]]
      = Some (Some (Yield (Frame ''AB'')), ?s, [])"
    by (simp add: embassy_fill_def embassy_decode_def toy_decoder_def from_utf8_AB)
  with embassy_recv_cancel_safe [OF parked] show ?thesis by blast
qed

text \<open>
  C36. A text message split into any number of fragments, with any pings and pongs in between, arrives as
  one frame with the fragments' bytes in order; the control events are delivered as they come and do not
  disturb it. The fragments are the ones the decoder reports on the socket's reads as they come (\<open>decoded\<close>):
  where it reports an error instead, as it may for a frame header cut in two by a read, \<open>recv\<close> ends with that
  error (\<open>embassy_decoder_error_is_fatal\<close>). As many calls of \<open>recv\<close> as there are bytes are enough.
\<close>

theorem embassy_text_is_reassembled:
  assumes "consuming dec" and "accumulated s = []" and "bytes_left s reads < n"
    and "decoded dec n s reads = rs @ final # rest"
    and "list_all inner_fragment rs" and "message_type final = MText" and "end_of_message final"
    and "from_utf8 (text_bytes rs @ chunk final) = Ok text"
  shows "embassy_run dec n s reads = control_events rs @ Frame text # embassy_events rest []"
  using embassy_run_decodes [OF assms(1,3,3)] embassy_events_fragments [OF assms(5)] assms(2,4,6-8) by simp

theorem embassy_text_is_reassembled_witness:
  "embassy_run toy_decoder 4 \<lparr>ws_state = (), pending = [], accumulated = []\<rparr> [Ok [65], Ok [7, 66]]
     = [Ping [7], Frame ''AB'']"
proof -
  let ?s = "\<lparr>ws_state = (), pending = [], accumulated = []\<rparr> :: unit embassy_stream"
  let ?text = "\<lambda>fin b. \<lparr>len_from = 1, chunk = [b], end_of_message = fin, message_type = MText\<rparr>"
  let ?rs = "[?text False 65, \<lparr>len_from = 1, chunk = [7], end_of_message = True, message_type = MPing\<rparr>]"
  have four: "(4 :: nat) = Suc (Suc (Suc (Suc 0)))" by simp
  have "consuming toy_decoder" by (simp add: consuming_def toy_decoder_def)
  moreover have "bytes_left ?s [Ok [65], Ok [7, 66]] < 4" by (simp add: bytes_left_def)
  moreover have "decoded toy_decoder 4 ?s [Ok [65], Ok [7, 66]] = ?rs @ [?text True 66]"
    unfolding four by (simp add: embassy_fill_def embassy_decode_def toy_decoder_def from_utf8_AB)
  moreover have "list_all inner_fragment ?rs" by (simp add: inner_fragment_def)
  moreover have "from_utf8 (text_bytes ?rs @ chunk (?text True 66)) = Ok ''AB''"
    by (simp add: text_bytes_def from_utf8_AB)
  ultimately show ?thesis
    using embassy_text_is_reassembled [of toy_decoder ?s "[Ok [65], Ok [7, 66]]" 4 ?rs "?text True 66" "[]" "''AB''"]
    by (simp add: control_events_def)
qed

text \<open>
  C40. The embassy handshake loses no byte: when \<open>connect\<close> succeeds, the response was accepted within the
  configured handshake buffer, and what the new stream holds as pending, together with the bytes still
  in the socket, is exactly what follows the response, the start of the first frame included.
\<close>

theorem handshake_loses_nothing:
  assumes "snd (embassy_connect cfg dialled request written flushed accept sizes stream ws) = Ok (s, rest)"
    and "\<And>bs n. accept bs = Accepted n \<Longrightarrow> n \<le> length bs"
  shows "\<exists>k consumed. k \<le> handshake_buffer_size cfg \<and> accept (take k stream) = Accepted consumed
    \<and> pending s @ rest = drop consumed stream \<and> accumulated s = []"
proof -
  obtain left where "handshake (handshake_buffer_size cfg) accept sizes [] stream = Ok (left, rest)"
    "s = \<lparr>ws_state = ws, pending = left, accumulated = []\<rparr>"
    using assms(1) by (auto simp: embassy_connect_def split: result.splits)
  with handshake_keeps [of "handshake_buffer_size cfg" accept sizes "[]" stream left rest] assms(2)
  show ?thesis by auto
qed

text \<open>A response of two bytes, read one byte and then four bytes at a time.\<close>

definition two_byte_response :: "byte list \<Rightarrow> accept_result" where
  "two_byte_response bs = (if 2 \<le> length bs then Accepted 2 else HttpHeaderIncomplete)"

theorem handshake_loses_nothing_witness:
  "\<exists>s rest. snd (embassy_connect (connect_config_new ([192, 168, 1, 10], 9000) ''csms'' ''/ocpp'' ''ocpp1.6'') (Ok ()) (Ok []) (Ok 0) (Ok ())
       two_byte_response [Ok 1, Ok 4] [1, 2, 3, 4, 5, 6] ()) = Ok (s, rest)
     \<and> pending s @ rest = [3, 4, 5, 6]"
proof -
  let ?s = "\<lparr>ws_state = (), pending = [3, 4, 5], accumulated = []\<rparr> :: unit embassy_stream"
  have ok: "snd (embassy_connect (connect_config_new ([192, 168, 1, 10], 9000) ''csms'' ''/ocpp'' ''ocpp1.6'') (Ok ()) (Ok []) (Ok 0) (Ok ())
      two_byte_response [Ok 1, Ok 4] [1, 2, 3, 4, 5, 6] ()) = Ok (?s, [6])"
    by (simp add: embassy_connect_def connect_config_new_def Let_def two_byte_response_def)
  have "n \<le> length bs" if "two_byte_response bs = Accepted n" for bs n
    using that by (simp add: two_byte_response_def split: if_splits)
  from handshake_loses_nothing [OF ok this] obtain k consumed where
    "two_byte_response (take k [1, 2, 3, 4, 5, 6]) = Accepted consumed" "pending ?s @ [6] = drop consumed [1, 2, 3, 4, 5, 6]"
    by blast
  then have "pending ?s @ [6] = [3, 4, 5, 6]" by (simp add: two_byte_response_def split: if_splits)
  with ok show ?thesis by blast
qed

end
