(* ===== verification/Streams.thy ===== *)
theory Streams
  imports Transport "HOL-Library.Sublist"
begin

text \<open>
  The contract of \<open>TransportStream::recv\<close> (\<^verbatim>\<open>src/transport.rs\<close>), which the read loop relies on when it drops a
  \<open>recv\<close> that is still waiting: the locale \<open>transport_stream\<close>, interpreted for the WebSocket and for the
  embassy stream. A stream half is a state and the items of the network it has not taken yet.
\<close>

text \<open>
  Polling \<open>recv\<close> until it waits or has its result, over the items that are there; \<open>None\<close> where it never
  comes back. A \<open>recv\<close> that waits can be dropped: the stream half is then the one next to \<open>Waits\<close>.
\<close>

datatype recv_polled = Waits | Got transport_event | End | Fault string

type_synonym ('s, 'x) receiver = "'s \<Rightarrow> 'x list \<Rightarrow> (recv_polled \<times> 's \<times> 'x list) option"

text \<open>A reader that is never disturbed: \<open>n\<close> calls of \<open>recv\<close> with everything already there.\<close>

fun drain :: "('s, 'x) receiver \<Rightarrow> nat \<Rightarrow> 's \<Rightarrow> 'x list \<Rightarrow> transport_event list" where
  "drain recv 0 s xs = []"
| "drain recv (Suc n) s xs =
     (case recv s xs of Some (Got event, s', rest) \<Rightarrow> event # drain recv n s' rest | _ \<Rightarrow> [])"

text \<open>
  After \<open>es\<close>, a reader that started on \<open>s0\<close> and to which \<open>xs\<close> has come is where it would be had it not been
  disturbed, whatever comes next.
\<close>

definition follows :: "('s, 'x) receiver \<Rightarrow> 's \<Rightarrow> 'x list \<Rightarrow> transport_event list \<Rightarrow> 's \<Rightarrow> 'x list \<Rightarrow> bool" where
  "follows recv s0 xs es s rest \<longleftrightarrow>
     (\<forall>n ys. drain recv (length es + n) s0 (xs @ ys) = es @ drain recv n s (rest @ ys))"

definition read_off :: "('s, 'x) receiver \<Rightarrow> 's \<Rightarrow> 'x list \<Rightarrow> transport_event list \<Rightarrow> bool" where
  "read_off recv s0 xs es \<longleftrightarrow> (\<forall>ys. drain recv (length es) s0 (xs @ ys) = es)"

lemma follows_start: "follows recv s0 [] [] s0 []"
  by (simp add: follows_def)

lemma follows_arrive: "follows recv s0 xs es s rest \<Longrightarrow> follows recv s0 (xs @ [x]) es s (rest @ [x])"
  by (simp add: follows_def)

lemma follows_read_off: "follows recv s0 xs es s rest \<Longrightarrow> read_off recv s0 xs es"
  unfolding follows_def read_off_def by (metis add_0_right append_Nil2 drain.simps(1))

lemma read_off_arrive: "read_off recv s0 xs es \<Longrightarrow> read_off recv s0 (xs @ [x]) es"
  by (simp add: read_off_def)

lemma read_off_drain: "read_off recv s0 xs es \<Longrightarrow> drain recv (length es) s0 xs = es"
  unfolding read_off_def by (metis append_Nil2)

lemma drain_take: "n \<le> m \<Longrightarrow> drain recv n s xs = take n (drain recv m s xs)"
proof (induction n arbitrary: m s xs)
  case (Suc n)
  then obtain k where "m = Suc k" "n \<le> k" by (cases m) auto
  with Suc.IH [of k] show ?case by (auto split: option.split recv_polled.split)
qed simp

subsection \<open>The contract\<close>

locale transport_stream =
  fixes recv :: "('s, 'x) receiver"
  assumes waits: "recv s xs = Some (Waits, s', rest) \<Longrightarrow> recv s (xs @ ys) = recv s' (rest @ ys)"
    and answers: "recv s xs = Some (out, s', rest) \<Longrightarrow> out \<noteq> Waits \<Longrightarrow> recv s (xs @ ys) = Some (out, s', rest @ ys)"
begin

lemma follows_waits:
  assumes "follows recv s0 xs es s rest" and "recv s rest = Some (Waits, s', rest')"
  shows "follows recv s0 xs es s' rest'"
proof -
  have "drain recv n s (rest @ ys) = drain recv n s' (rest' @ ys)" for n ys
    using waits [OF assms(2), of ys] by (cases n) simp_all
  with assms(1) show ?thesis by (simp add: follows_def)
qed

lemma follows_got:
  assumes "follows recv s0 xs es s rest" and "recv s rest = Some (Got event, s', rest')"
  shows "follows recv s0 xs (es @ [event]) s' rest'"
proof -
  have "drain recv (Suc n) s (rest @ ys) = event # drain recv n s' (rest' @ ys)" for n ys
    using answers [OF assms(2), of ys] by simp
  then show ?thesis using assms(1) unfolding follows_def
    by (metis add_Suc_shift append.assoc append_Cons append_Nil length_append_singleton)
qed

end

subsection \<open>The WebSocket stream\<close>

text \<open>Messages \<open>recv\<close> skips before it waits are gone when it is dropped; \<open>next()\<close> itself holds nothing.\<close>

definition ws_poll :: "(unit, ws_next) receiver" where
  "ws_poll s items =
     (case ws_recv items of
        None \<Rightarrow> Some (Waits, s, [])
      | Some (Ok (Some event), rest) \<Rightarrow> Some (Got event, s, rest)
      | Some (Ok None, rest) \<Rightarrow> Some (End, s, rest)
      | Some (Err e, rest) \<Rightarrow> Some (Fault e, s, rest))"

lemma ws_recv_append:
  "ws_recv items = None \<Longrightarrow> ws_recv (items @ later) = ws_recv later"
  "ws_recv items = Some (r, rest) \<Longrightarrow> ws_recv (items @ later) = Some (r, rest @ later)"
  by (induction items rule: ws_recv.induct) auto

interpretation ws_stream: transport_stream ws_poll
proof
  fix s s' xs rest ys out
  show "ws_poll s xs = Some (Waits, s', rest) \<Longrightarrow> ws_poll s (xs @ ys) = ws_poll s' (rest @ ys)"
    by (auto simp: ws_poll_def ws_recv_append(1) split: option.splits result.splits prod.splits)
  show "ws_poll s xs = Some (out, s', rest) \<Longrightarrow> out \<noteq> Waits \<Longrightarrow> ws_poll s (xs @ ys) = Some (out, s', rest @ ys)"
    by (auto simp: ws_poll_def ws_recv_append(2) split: option.splits result.splits prod.splits)
qed

lemma drain_ws: "drain ws_poll n () items = take n (ws_events items)"
proof (induction n arbitrary: items)
  case (Suc n)
  show ?case
    by (subst ws_events.simps)
      (simp add: ws_poll_def [of "()" items] Suc.IH split: option.split prod.split result.split)
qed simp

lemma read_off_ws:
  assumes "read_off ws_poll () xs es"
  shows "prefix es (List.map_filter ws_event (takeWhile (\<lambda>i. \<not> ws_ends i) xs))"
  using read_off_drain [OF assms] unfolding drain_ws ws_events_closed_form by (metis take_is_prefix)

subsection \<open>The embassy stream\<close>

text \<open>
  The loop of \<open>recv\<close> without a bound on its passes: a decoder that yields nothing and consumes nothing would
  keep it busy for ever.
\<close>

fun polled :: "recv_result \<Rightarrow> recv_polled" where
  "polled (Yield event) = Got event"
| "polled (Failed e) = Fault e"
| "polled _ = End"

partial_function (option) embassy_poll :: "'w ws_decoder \<Rightarrow> ('w embassy_stream, socket_read) receiver" where
  "embassy_poll dec s reads =
     (case embassy_fill s reads of
        Parked \<Rightarrow> Some (Waits, s, reads)
      | SocketEnd rest \<Rightarrow> Some (End, s, rest)
      | SocketFails e rest \<Rightarrow> Some (Fault e, s, rest)
      | Filled s' rest \<Rightarrow>
          (case embassy_decode dec s' of
             (r, s'') \<Rightarrow> if r = Again then embassy_poll dec s'' rest else Some (polled r, s'', rest)))"

lemma embassy_poll_fuel:
  "embassy_recv dec n s reads = Some (r, s', rest) \<Longrightarrow>
   embassy_poll dec s reads = Some (case r of None \<Rightarrow> Waits | Some x \<Rightarrow> polled x, s', rest)"
proof (induction n arbitrary: s reads)
  case (Suc n)
  then show ?case
    by (subst embassy_poll.simps) (auto simp: Let_def split: fill_result.splits prod.splits if_splits)
qed simp

lemma embassy_poll_answers: "consuming dec \<Longrightarrow> embassy_poll dec s reads \<noteq> None"
  using embassy_recv_answers [of dec s reads "Suc (bytes_left s reads)"] embassy_poll_fuel
  by (metis lessI option.distinct(1) prod_cases3)

lemma embassy_poll_append:
  assumes "embassy_poll dec s reads = Some (out, s', rest)"
  shows "embassy_poll dec s (reads @ later) =
    (if out = Waits then embassy_poll dec s' (rest @ later) else Some (out, s', rest @ later))"
proof -
  have "embassy_poll dec s reads = Some v \<Longrightarrow> (case v of (out, s', rest) \<Rightarrow>
      embassy_poll dec s (reads @ later) =
        (if out = Waits then embassy_poll dec s' (rest @ later) else Some (out, s', rest @ later)))" for v
  proof (induction dec s reads v rule: embassy_poll.raw_induct [rotated, consumes 1, case_names loop])
    case (loop poll dec s reads v)
    show ?case
    proof (cases "embassy_fill s reads")
      case Parked
      with loop show ?thesis by (auto simp: embassy_fill_append(4))
    next
      case (SocketEnd rest)
      from embassy_fill_append(1) [OF this, of later] SocketEnd loop(2) show ?thesis
        by (auto simp: embassy_poll.simps [of dec s "reads @ later"])
    next
      case (SocketFails e rest)
      from embassy_fill_append(2) [OF this, of later] SocketFails loop(2) show ?thesis
        by (auto simp: embassy_poll.simps [of dec s "reads @ later"])
    next
      case (Filled t rest)
      obtain r u where dec: "embassy_decode dec t = (r, u)" by fastforce
      have "polled r \<noteq> Waits" by (cases r) auto
      with embassy_fill_append(3) [OF Filled, of later] Filled loop dec show ?thesis
        by (auto simp: embassy_poll.simps [of dec s "reads @ later"] split: if_splits)
    qed
  qed
  from this [OF assms] show ?thesis by simp
qed

interpretation embassy_half: transport_stream "embassy_poll dec" for dec
  by unfold_locales (simp_all add: embassy_poll_append)

text \<open>What a reader gets, in terms of the decoder's results.\<close>

lemma drain_embassy:
  assumes "consuming dec"
  shows "drain (embassy_poll dec) n s reads = embassy_run dec n s reads"
proof (induction n arbitrary: s reads)
  case (Suc n)
  obtain r s' rest where r: "embassy_recv dec (Suc (bytes_left s reads)) s reads = Some (r, s', rest)"
    using embassy_recv_answers [OF assms, of s reads "Suc (bytes_left s reads)"] by auto
  show ?case
  proof (cases r)
    case (Some x)
    with Suc.IH r embassy_poll_fuel [OF r] show ?thesis by (cases x) (simp_all del: embassy_recv.simps)
  qed (use r embassy_poll_fuel [OF r] in \<open>simp del: embassy_recv.simps\<close>)
qed simp

lemma read_off_embassy:
  assumes "read_off (embassy_poll dec) s xs es" and "consuming dec" and "bytes_left s xs < m"
  shows "prefix es (embassy_events (decoded dec m s xs) (accumulated s))"
proof -
  let ?n = "max m (length es)"
  have "es = take (length es) (drain (embassy_poll dec) ?n s xs)"
    using read_off_drain [OF assms(1)] drain_take [of "length es" ?n "embassy_poll dec" s xs] by simp
  also have "drain (embassy_poll dec) ?n s xs = embassy_events (decoded dec m s xs) (accumulated s)"
    using embassy_run_decodes [OF assms(2), of s xs ?n m] assms(3) by (simp add: drain_embassy [OF assms(2)])
  finally show ?thesis by (metis take_is_prefix)
qed

end
