(* ===== verification/Engine_Links.thy ===== *)
theory Engine_Links
  imports Engine_Sink Engine_Answers Engine_Calls Streams
begin

text \<open>
  The running client on its transport: the engine together with the stream half of every connection it
  dials. Items arrive from the network at any time; what the read loop gets out of \<open>recv\<close> is what the
  stream makes of them, and a \<open>recv\<close> that waits is dropped when the wake signal wins the race. Everything is
  stated for any stream that meets the contract \<open>transport_stream\<close>, and then for the two there are.

  The sink half shares no state with the stream half here. The WebSocket transport splits its socket in two;
  the embassy one shares the WebSocket state, and \<open>embassy_send_keeps_stream\<close> says under which condition on the
  encoder a sink operation leaves what \<open>recv\<close> delivers alone.

  \<open>arrived\<close> and \<open>got\<close> are history: the items of a connection so far, and the events read from it.
\<close>

record ('e, 's, 'x) online =
  core :: "'e engine"
  half :: "nat \<Rightarrow> 's"
  unread :: "nat \<Rightarrow> 'x list"
  arrived :: "nat \<Rightarrow> 'x list"
  got :: "nat \<Rightarrow> transport_event list"

datatype ('e, 'x) net_decision = Arrives nat 'x | Does "'e decision"

text \<open>The inputs with which the read loop leaves its \<open>recv\<close>, and what the stream must have answered.\<close>

fun polls :: "'e decision \<Rightarrow> 'e engine \<Rightarrow> bool" where
  "polls (DRead inp) s = (rl_pc (rl s) = Reading)"
| "polls _ s = False"

fun agrees :: "recv_polled \<Rightarrow> 'e decision \<Rightarrow> bool" where
  "agrees (Got event) d = (d = DRead (RecvEvent event))"
| "agrees Waits d = (d = DRead Woken)"
| "agrees End d = (d = DRead RecvEnd)"
| "agrees (Fault _) d = (d = DRead RecvEnd)"

fun events_of :: "recv_polled \<Rightarrow> transport_event list" where
  "events_of (Got event) = [event]"
| "events_of _ = []"

fun online_perform ::
  "('s, 'x) receiver \<Rightarrow> client_config \<Rightarrow> 'e protocol_error \<Rightarrow> codec \<Rightarrow> payload_types \<Rightarrow> ('e, 'x) net_decision \<Rightarrow>
   ('e, 's, 'x) online \<Rightarrow> ('e, 's, 'x) online option" where
  "online_perform recv cfg P C T (Arrives k x) s =
     Some (s\<lparr>unread := (unread s)(k := unread s k @ [x]), arrived := (arrived s)(k := arrived s k @ [x])\<rparr>)"
| "online_perform recv cfg P C T (Does d) s =
     (if polls d (core s) then
        (let k = stream_conn (rl (core s)) in
         case recv (half s k) (unread s k) of
           None \<Rightarrow> None
         | Some (out, h, rest) \<Rightarrow>
             if agrees out d then
               map_option (\<lambda>e. s\<lparr>core := e, half := (half s)(k := h), unread := (unread s)(k := rest),
                                 got := (got s)(k := got s k @ events_of out)\<rparr>)
                 (perform cfg P C T d (core s))
             else None)
      else map_option (\<lambda>e. s\<lparr>core := e\<rparr>) (perform cfg P C T d (core s)))"

fun online_run ::
  "('s, 'x) receiver \<Rightarrow> client_config \<Rightarrow> 'e protocol_error \<Rightarrow> codec \<Rightarrow> payload_types \<Rightarrow> ('e, 'x) net_decision list \<Rightarrow>
   ('e, 's, 'x) online \<Rightarrow> ('e, 's, 'x) online option" where
  "online_run recv cfg P C T [] s = Some s"
| "online_run recv cfg P C T (d # ds) s =
     (case online_perform recv cfg P C T d s of Some t \<Rightarrow> online_run recv cfg P C T ds t | None \<Rightarrow> None)"

text \<open>The stream half of each connection as its dial returns it.\<close>

definition online_start :: "(nat \<Rightarrow> 's) \<Rightarrow> client_config \<Rightarrow> ('e, 's, 'x) online" where
  "online_start dialled cfg =
     \<lparr>core = from_transport_with_config cfg, half = dialled, unread = (\<lambda>_. []), arrived = (\<lambda>_. []), got = (\<lambda>_. [])\<rparr>"

subsection \<open>What the engine sees\<close>

lemma online_perform_core:
  assumes "online_perform recv cfg P C T d s = Some t"
  shows "core t = core s \<or> (\<exists>a. d = Does a \<and> perform cfg P C T a (core s) = Some (core t))"
  using assms by (cases d) (auto simp: Let_def split: if_splits option.splits)

lemma online_run_core:
  "online_run recv cfg P C T ds s = Some t \<Longrightarrow> engine_runs cfg P C T (core s) (core t)"
proof (induction ds arbitrary: s)
  case (Cons d ds)
  then obtain u where u: "online_perform recv cfg P C T d s = Some u" "engine_runs cfg P C T (core u) (core t)"
    by (auto split: option.splits)
  from online_perform_core [OF u(1)] have "engine_runs cfg P C T (core s) (core u)"
    by (auto intro: engine_runs.intros dest: perform_step)
  then show ?case using u(2) by (rule engine_runs_trans)
qed (auto intro: engine_runs.stay)

lemma online_reach:
  "online_run recv cfg P C T ds (online_start dialled cfg) = Some t \<Longrightarrow> engine_reach cfg P C T (core t)"
  using online_run_core by (fastforce simp: online_start_def)

subsection \<open>What is read from a connection\<close>

fun on_line :: "read_pc \<Rightarrow> bool" where
  "on_line Reading = True"
| "on_line (Dispatching _) = True"
| "on_line (Ponging _) = True"
| "on_line Announcing = True"
| "on_line _ = False"

definition reads_from :: "read_loop \<Rightarrow> nat \<Rightarrow> bool" where
  "reads_from l k \<longleftrightarrow> next_conn l \<le> k \<or> (k = stream_conn l \<and> on_line (rl_pc l))"

definition links_inv :: "('s, 'x) receiver \<Rightarrow> (nat \<Rightarrow> 's) \<Rightarrow> ('e, 's, 'x) online \<Rightarrow> bool" where
  "links_inv recv dialled s \<longleftrightarrow>
     (\<forall>k. read_off recv (dialled k) (arrived s k) (got s k))
     \<and> (\<forall>k. reads_from (rl (core s)) k \<longrightarrow>
          follows recv (dialled k) (arrived s k) (got s k) (half s k) (unread s k))
     \<and> next_conn (rl (core s)) = Suc (stream_conn (rl (core s)))
     \<and> (\<forall>k \<ge> next_conn (rl (core s)). got s k = [])
     \<and> inbox (core s) = concat (map (got s) [0..<next_conn (rl (core s))])"

lemma read_task_elsewhere:
  assumes "read_task cfg P C inp c l = Some (c', l')" and "rl_pc l \<noteq> Reading"
  shows "received inp = [] \<and>
    (next_conn l' = next_conn l \<and> stream_conn l' = stream_conn l \<and> (on_line (rl_pc l') \<longrightarrow> on_line (rl_pc l))
     \<or> next_conn l' = Suc (next_conn l) \<and> stream_conn l' = next_conn l)"
  using assms
  by (cases "rl_pc l"; cases inp)
    (auto simp: read_defs after_exit_def Let_def split: option.splits prod.splits if_splits)

lemma read_task_reading:
  assumes "read_task cfg P C inp c l = Some (c', l')" and "rl_pc l = Reading"
  shows "next_conn l' = next_conn l \<and> stream_conn l' = stream_conn l"
  using assms by (cases inp) (auto simp: read_defs split: option.splits prod.splits)

text \<open>A step that is not a poll reads nothing.\<close>

lemma no_poll:
  assumes "perform cfg P C T d e = Some e'" and "\<not> polls d e"
  shows "inbox e' = inbox e \<and>
    (next_conn (rl e') = next_conn (rl e) \<and> stream_conn (rl e') = stream_conn (rl e)
       \<and> (on_line (rl_pc (rl e')) \<longrightarrow> on_line (rl_pc (rl e)))
     \<or> next_conn (rl e') = Suc (next_conn (rl e)) \<and> stream_conn (rl e') = next_conn (rl e))"
proof (cases "\<exists>inp. d = DRead inp")
  case True
  then obtain inp c' l' where "read_task cfg P C inp (cl e) (rl e) = Some (c', l')"
    "e' = read_moves inp c' l' e" "rl_pc (rl e) \<noteq> Reading"
    using assms by (auto split: option.splits)
  from this(2) read_task_elsewhere [OF this(1,3)] show ?thesis by simp
next
  case False
  with perform_beside [OF assms(1)] show ?thesis by simp
qed

text \<open>A poll reads what the stream answered.\<close>

lemma poll:
  assumes "perform cfg P C T d e = Some e'" and "polls d e" and "agrees out d"
  shows "inbox e' = inbox e @ events_of out" and "next_conn (rl e') = next_conn (rl e)"
    and "stream_conn (rl e') = stream_conn (rl e)" and "on_line (rl_pc (rl e))"
    and "out \<noteq> Waits \<Longrightarrow> events_of out = [] \<Longrightarrow> \<not> on_line (rl_pc (rl e'))"
proof -
  obtain inp c' l' where step: "read_task cfg P C inp (cl e) (rl e) = Some (c', l')"
    "e' = read_moves inp c' l' e" "d = DRead inp" "rl_pc (rl e) = Reading"
    using assms(1,2) by (cases d) (auto split: option.splits)
  show "inbox e' = inbox e @ events_of out" using step(2,3) assms(3) by (cases out) auto
  show "next_conn (rl e') = next_conn (rl e)" "stream_conn (rl e') = stream_conn (rl e)"
    using read_task_reading [OF step(1,4)] step(2) by auto
  show "on_line (rl_pc (rl e))" using step(4) by simp
  show "\<not> on_line (rl_pc (rl e'))" if "out \<noteq> Waits" "events_of out = []"
    using that step assms(3) by (cases out) (auto simp: read_defs)
qed

lemma links_inv_start: "links_inv recv dialled (online_start dialled cfg)"
  by (simp add: links_inv_def online_start_def from_transport_with_config_def read_loop_start_def follows_start
      follows_read_off [OF follows_start])

lemma links_inv_arrives:
  assumes "links_inv recv dialled s" and "online_perform recv cfg P C T (Arrives k x) s = Some t"
  shows "links_inv recv dialled t"
  using assms by (auto simp: links_inv_def read_off_arrive follows_arrive)

lemma links_inv_no_poll:
  assumes "links_inv recv dialled s" and "perform cfg P C T d (core s) = Some e" and "\<not> polls d (core s)"
  shows "links_inv recv dialled (s\<lparr>core := e\<rparr>)"
proof -
  note inv = assms(1) [unfolded links_inv_def] and step = no_poll [OF assms(2,3)]
  have "reads_from (rl e) k \<Longrightarrow> reads_from (rl (core s)) k" for k
    using step inv by (auto simp: reads_from_def)
  moreover have "concat (map (got s) [0..<next_conn (rl e)]) = concat (map (got s) [0..<next_conn (rl (core s))])"
    using step inv by auto
  ultimately show ?thesis using inv step unfolding links_inv_def by auto
qed

context transport_stream
begin

lemma links_inv_poll:
  assumes "links_inv recv dialled s" and "perform cfg P C T d (core s) = Some e" and "polls d (core s)"
    and "agrees out d" and k: "k = stream_conn (rl (core s))"
    and recv: "recv (half s k) (unread s k) = Some (out, h, rest)"
  shows "links_inv recv dialled (s\<lparr>core := e, half := (half s)(k := h), unread := (unread s)(k := rest),
    got := (got s)(k := got s k @ events_of out)\<rparr>)"
proof -
  note inv = assms(1) [unfolded links_inv_def] and step = poll [OF assms(2-4)]
  have here: "follows recv (dialled k) (arrived s k) (got s k) (half s k) (unread s k)"
    using inv step(4) k by (simp add: reads_from_def)
  have goes: "out = Waits \<or> events_of out \<noteq> [] \<Longrightarrow>
      follows recv (dialled k) (arrived s k) (got s k @ events_of out) h rest"
    using follows_waits [OF here] follows_got [OF here] recv by (cases out) auto
  have off: "read_off recv (dialled k) (arrived s k) (got s k @ events_of out)"
    using goes [THEN follows_read_off] inv by (cases "out = Waits \<or> events_of out \<noteq> []") auto
  have "reads_from (rl e) j \<Longrightarrow> reads_from (rl (core s)) j \<and> (j = k \<longrightarrow> out = Waits \<or> events_of out \<noteq> [])" for j
    using step k inv by (auto simp: reads_from_def)
  moreover have "concat (map ((got s)(k := got s k @ events_of out)) [0..<Suc k])
      = concat (map (got s) [0..<Suc k]) @ events_of out"
    by (simp add: map_fun_upd)
  ultimately show ?thesis using inv step(1-3) goes off k unfolding links_inv_def by auto
qed

lemma links_inv_step:
  assumes "online_perform recv cfg P C T d s = Some t" and "links_inv recv dialled s"
  shows "links_inv recv dialled t"
proof (cases d)
  case (Arrives k x)
  with assms links_inv_arrives show ?thesis by metis
next
  case (Does a)
  with assms show ?thesis
    by (auto simp: Let_def intro: links_inv_poll links_inv_no_poll split: if_splits option.splits)
qed

lemma links_inv_run:
  "online_run recv cfg P C T ds s = Some t \<Longrightarrow> links_inv recv dialled s \<Longrightarrow> links_inv recv dialled t"
  by (induction ds arbitrary: s) (auto dest: links_inv_step split: option.splits)

lemmas links_always = links_inv_run [OF _ links_inv_start]

lemma received_undisturbed:
  assumes "online_run recv cfg P C T ds (online_start dialled cfg) = Some t"
  shows "drain recv (length (got t k)) (dialled k) (arrived t k) = got t k"
    and "inbox (core t) = concat (map (got t) [0..<next_conn (rl (core t))])"
  using links_always [OF assms] by (auto simp: links_inv_def intro: read_off_drain)

end

subsection \<open>Catching up\<close>

text \<open>Steps of the read loop alone.\<close>

fun loop_alone :: "('e, 'x) net_decision \<Rightarrow> bool" where
  "loop_alone (Does (DRead _)) = True"
| "loop_alone _ = False"

definition moves_to ::
  "('s, 'x) receiver \<Rightarrow> client_config \<Rightarrow> 'e protocol_error \<Rightarrow> codec \<Rightarrow> payload_types \<Rightarrow>
   ('e, 's, 'x) online \<Rightarrow> ('e, 's, 'x) online \<Rightarrow> bool" where
  "moves_to recv cfg P C T s t \<longleftrightarrow>
     (\<exists>ds. list_all loop_alone ds \<and> online_run recv cfg P C T ds s = Some t)"

lemma online_run_append:
  "online_run recv cfg P C T (ds @ es) s =
     (case online_run recv cfg P C T ds s of Some t \<Rightarrow> online_run recv cfg P C T es t | None \<Rightarrow> None)"
  by (induction ds arbitrary: s) (auto split: option.split)

lemma moves_to_refl: "moves_to recv cfg P C T s s"
  unfolding moves_to_def by (intro exI [of _ "[]"]) simp

lemma moves_to_trans:
  "moves_to recv cfg P C T s t \<Longrightarrow> moves_to recv cfg P C T t u \<Longrightarrow> moves_to recv cfg P C T s u"
  unfolding moves_to_def by (metis (no_types, lifting) list_all_append online_run_append option.simps(5))

lemma moves_to_step:
  "online_perform recv cfg P C T (Does (DRead inp)) s = Some t \<Longrightarrow> moves_to recv cfg P C T s t"
  unfolding moves_to_def by (intro exI [of _ "[Does (DRead inp)]"]) simp

text \<open>What a step towards the next \<open>recv\<close> leaves alone.\<close>

definition same_links :: "('e, 's, 'x) online \<Rightarrow> ('e, 's, 'x) online \<Rightarrow> bool" where
  "same_links s t \<longleftrightarrow> half t = half s \<and> unread t = unread s \<and> arrived t = arrived s \<and> got t = got s
     \<and> stream_conn (rl (core t)) = stream_conn (rl (core s))"

lemma settles:
  assumes "on_line (rl_pc (rl (core s)))"
  shows "\<exists>t. moves_to recv cfg P C T s t \<and> rl_pc (rl (core t)) = Reading \<and> same_links s t"
proof (cases "rl_pc (rl (core s))")
  case Reading
  then show ?thesis by (intro exI [of _ s]) (simp add: moves_to_refl same_links_def)
next
  case (Dispatching d)
  then show ?thesis
    by (intro exI [of _ "the (online_perform recv cfg P C T (Does (DRead (RSink (Ok ())))) s)"] conjI
        moves_to_step [of _ _ _ _ _ "RSink (Ok ())"]) (simp_all add: read_defs same_links_def)
next
  case (Ponging p)
  then show ?thesis
    by (intro exI [of _ "the (online_perform recv cfg P C T (Does (DRead (RSink (Ok ())))) s)"] conjI
        moves_to_step [of _ _ _ _ _ "RSink (Ok ())"]) (simp_all add: read_defs same_links_def)
next
  case Announcing
  then show ?thesis
    by (intro exI [of _ "the (online_perform recv cfg P C T (Does (DRead RGo)) s)"] conjI
        moves_to_step [of _ _ _ _ _ RGo]) (simp_all add: read_defs same_links_def)
qed (use assms in simp_all)

lemma reads_next:
  assumes "rl_pc (rl (core s)) = Reading" and "k = stream_conn (rl (core s))"
    and "recv (half s k) (unread s k) = Some (Got event, h, rest)"
  shows "\<exists>t. moves_to recv cfg P C T s t \<and> on_line (rl_pc (rl (core t))) \<and> stream_conn (rl (core t)) = k
    \<and> half t k = h \<and> unread t k = rest \<and> arrived t = arrived s \<and> got t k = got s k @ [event]"
proof -
  obtain c' pc where event: "read_event P C event (cl (core s)) = (c', pc)" by fastforce
  then have "on_line pc" by (cases event) (auto split: prod.splits)
  with assms event show ?thesis
    by (intro exI [of _ "the (online_perform recv cfg P C T (Does (DRead (RecvEvent event))) s)"] conjI
        moves_to_step [of _ _ _ _ _ "RecvEvent event"]) (simp_all add: read_defs Let_def)
qed

lemma can_read:
  assumes "on_line (rl_pc (rl (core s)))" and "k = stream_conn (rl (core s))"
  shows "\<exists>t. moves_to recv cfg P C T s t \<and> arrived t = arrived s
    \<and> got t k = got s k @ drain recv m (half s k) (unread s k)"
  using assms
proof (induction m arbitrary: s)
  case 0
  show ?case by (intro exI [of _ s]) (simp add: moves_to_refl)
next
  case (Suc m)
  obtain u where u: "moves_to recv cfg P C T s u" "rl_pc (rl (core u)) = Reading" "same_links s u"
    using settles [OF Suc.prems(1)] by blast
  show ?case
  proof (cases "\<exists>event h rest. recv (half u k) (unread u k) = Some (Got event, h, rest)")
    case True
    then obtain event h rest where r: "recv (half u k) (unread u k) = Some (Got event, h, rest)" by blast
    have k: "k = stream_conn (rl (core u))" using u(3) Suc.prems(2) by (simp add: same_links_def)
    obtain v where v: "moves_to recv cfg P C T u v" "on_line (rl_pc (rl (core v)))" "stream_conn (rl (core v)) = k"
      "half v k = h" "unread v k = rest" "arrived v = arrived u" "got v k = got u k @ [event]"
      using reads_next [of u k recv event h rest, OF u(2) k r] by blast
    obtain t where "moves_to recv cfg P C T v t" "arrived t = arrived v"
      "got t k = got v k @ drain recv m (half v k) (unread v k)"
      using Suc.IH [OF v(2) v(3) [symmetric]] by blast
    with v u r show ?thesis
      by (intro exI [of _ t] conjI moves_to_trans [OF u(1) moves_to_trans [OF v(1)]]) (auto simp: same_links_def)
  next
    case False
    with u(3) have "drain recv (Suc m) (half s k) (unread s k) = []"
      by (auto simp: same_links_def split: option.split recv_polled.split)
    with u show ?thesis by (intro exI [of _ u]) (simp add: same_links_def)
  qed
qed

subsection \<open>What is written to a connection\<close>

fun pong_on :: "nat \<Rightarrow> nat \<times> sink_op \<times> bool \<Rightarrow> byte list list" where
  "pong_on k (conn, PongOp payload, _) = (if conn = k then [payload] else [])"
| "pong_on k _ = []"

definition pongs_on :: "nat \<Rightarrow> 'e client \<Rightarrow> byte list list" where
  "pongs_on k c = concat (map (pong_on k) (wire c))"

fun ping_in :: "transport_event \<Rightarrow> byte list list" where
  "ping_in (Ping payload) = [payload]"
| "ping_in _ = []"

definition pings_in :: "transport_event list \<Rightarrow> byte list list" where
  "pings_in events = concat (map ping_in events)"

text \<open>The ping the read loop is about to answer.\<close>

fun in_hand :: "read_pc \<Rightarrow> byte list list" where
  "in_hand (Ponging payload) = [payload]"
| "in_hand _ = []"

definition owed :: "nat \<Rightarrow> read_loop \<Rightarrow> byte list list" where
  "owed k l = (if k = stream_conn l then in_hand (rl_pc l) else [])"

definition pongs_inv :: "('e, 's, 'x) online \<Rightarrow> bool" where
  "pongs_inv s \<longleftrightarrow> (\<forall>k. pongs_on k (cl (core s)) @ owed k (rl (core s)) = pings_in (got s k))"

lemma owed_reading: "rl_pc l = Reading \<Longrightarrow> owed k l = []"
  by (simp add: owed_def)

lemma pongs_on_write [simp]:
  "pongs_on k (sink_write op r c) = pongs_on k c @ pong_on k (sink_conn c, op, accepted r)"
  by (simp add: pongs_on_def sink_write_def)

lemma pongs_on_wire: "wire c' = wire c \<Longrightarrow> pongs_on k c' = pongs_on k c"
  by (simp add: pongs_on_def)

lemma pings_in_append [simp]: "pings_in (xs @ ys) = pings_in xs @ pings_in ys"
  by (simp add: pings_in_def)

text \<open>Only the read loop writes pongs.\<close>

lemma ping_step_pongs: "ping_step inp c pc = Some (c', pc') \<Longrightarrow> pongs_on k c' = pongs_on k c"
  by (cases "\<exists>r. inp = SinkAnswers r")
    (auto dest: ping_step_quiet [THEN pongs_on_wire] elim!: ping_step_SomeE [of "SinkAnswers r" for r])

lemma handler_step_pongs:
  "handler_step P C T a n (HSink r) c pc = Some (c', pc') \<Longrightarrow> pongs_on k c' = pongs_on k c"
  by (cases pc) (auto simp: do_send_response_def split: option.split)

lemma others_pongs:
  assumes "perform cfg P C T d s = Some t" and "\<forall>inp. d \<noteq> DRead inp"
  shows "pongs_on k (cl t) = pongs_on k (cl s)"
proof (cases "writer P C d s")
  case None
  then show ?thesis by (intro pongs_on_wire quiet_wire [OF assms(1)])
next
  case (Some u)
  then show ?thesis using assms
    by (induction P C d s rule: writer.induct)
      (auto simp: ka_step_def ka_at_ping_def disconnect_close_def ping_step_pongs handler_step_pongs
        elim!: call_step_SomeE send_step_SomeE
        split: if_splits option.splits nat.splits ka_pc.splits ping_pc.splits handler_pc.splits)
qed

lemma read_elsewhere_pongs:
  assumes "read_task cfg P C inp c l = Some (c', l')" and "rl_pc l \<noteq> Reading" and "sink_conn c = stream_conn l"
  shows "pongs_on k c' @ owed k l' = pongs_on k c @ owed k l"
proof (cases "\<exists>r. inp = RSink r")
  case True
  have "pongs_on k (deliver d r c) = pongs_on k c" for d r
    by (cases d) (simp_all, simp_all add: pongs_on_def)
  with True assms show ?thesis
    by (cases "rl_pc l") (auto simp: read_defs owed_def)
next
  case False
  then have "pongs_on k c' = pongs_on k c" by (intro pongs_on_wire read_task_quiet [OF assms(1)]) simp
  moreover have "in_hand (rl_pc l') = [] \<and> in_hand (rl_pc l) = []"
    using False assms(1,2) by (cases "rl_pc l"; cases inp)
      (auto simp: read_defs after_exit_def Let_def split: option.splits prod.splits if_splits)
  ultimately show ?thesis by (simp add: owed_def)
qed

lemma read_poll_pongs:
  assumes "read_task cfg P C inp c l = Some (c', l')" and "rl_pc l = Reading"
  shows "pongs_on k c' = pongs_on k c" and "in_hand (rl_pc l') = pings_in (received inp)"
proof -
  have "wire c' = wire c" using assms by (intro read_task_quiet) auto
  then show "pongs_on k c' = pongs_on k c" by (rule pongs_on_wire)
  have "in_hand pc = ping_in ev" if "read_event P C ev c = (c'', pc)" for ev c'' pc
    using that by (cases ev) (auto split: prod.splits)
  with assms show "in_hand (rl_pc l') = pings_in (received inp)"
    by (cases inp) (auto simp: read_defs read_woken_def pings_in_def split: option.splits prod.splits)
qed

lemma pongs_inv_start: "pongs_inv (online_start dialled cfg)"
  by (simp add: pongs_inv_def online_start_def from_transport_with_config_def new_client_def read_loop_start_def
      pongs_on_def pings_in_def owed_def)

lemma agrees_received: "agrees out (DRead inp :: 'e decision) \<Longrightarrow> events_of out = received inp"
  by (cases out) auto

lemma pongs_inv_step:
  assumes "online_perform recv cfg P C T d s = Some t" and "pongs_inv s"
    and conn: "sink_conn (cl (core s)) = stream_conn (rl (core s))"
  shows "pongs_inv t"
proof (cases "\<exists>inp. d = Does (DRead inp)")
  case True
  then obtain inp c' l' where step: "read_task cfg P C inp (cl (core s)) (rl (core s)) = Some (c', l')"
    "core t = read_moves inp c' l' (core s)" and d: "d = Does (DRead inp)"
    using assms(1) by (auto simp: Let_def split: if_splits option.splits)
  show ?thesis
  proof (cases "rl_pc (rl (core s)) = Reading")
    case True
    with assms(1) d have
      "got t = (got s)(stream_conn (rl (core s)) := got s (stream_conn (rl (core s))) @ received inp)"
      by (auto simp: Let_def agrees_received split: if_splits option.splits)
    moreover have "pongs_on k (cl (core s)) = pings_in (got s k)" for k
      using assms(2) True by (simp add: pongs_inv_def owed_reading)
    ultimately show ?thesis
      using step(2) read_poll_pongs [OF step(1) True] read_task_reading [OF step(1) True]
      by (simp add: pongs_inv_def owed_def)
  next
    case False
    with assms(1) d have "got t = got s" by (auto split: option.splits)
    with read_elsewhere_pongs [OF step(1) False conn] step(2) assms(2) show ?thesis by (simp add: pongs_inv_def)
  qed
next
  case False
  with online_perform_core [OF assms(1)]
  have "core t = core s \<or> (\<exists>a. perform cfg P C T a (core s) = Some (core t) \<and> (\<forall>inp. a \<noteq> DRead inp))" by blast
  then have "pongs_on k (cl (core t)) = pongs_on k (cl (core s)) \<and> rl (core t) = rl (core s)" for k
    using others_pongs perform_beside(1) by metis
  moreover from False assms(1) have "got t = got s"
    by (cases d) (auto elim: polls.elims split: if_splits)
  ultimately show ?thesis using assms(2) by (simp add: pongs_inv_def)
qed

lemma pongs_inv_run:
  "online_run recv cfg P C T ds s = Some t \<Longrightarrow> engine_reach cfg P C T (core s) \<Longrightarrow> pongs_inv s \<Longrightarrow> pongs_inv t"
proof (induction ds arbitrary: s)
  case (Cons d ds)
  then obtain u where u: "online_perform recv cfg P C T d s = Some u" "online_run recv cfg P C T ds u = Some t"
    by (auto split: option.splits)
  have "sink_conn (cl (core s)) = stream_conn (rl (core s))"
    using subscribing.always [OF Cons.prems(2)] by (simp add: subscribers_inv_def connections_ok_def)
  from pongs_inv_step [OF u(1) Cons.prems(3) this] have "pongs_inv u" .
  moreover have "engine_reach cfg P C T (core u)"
    using online_perform_core [OF u(1)] Cons.prems(2) by (auto intro: engine_runs.go dest: perform_step)
  ultimately show ?case using Cons.IH u(2) by blast
qed simp

lemma pongs_always:
  "online_run recv cfg P C T ds (online_start dialled cfg) = Some t \<Longrightarrow> pongs_inv t"
  by (rule pongs_inv_run [OF _ _ pongs_inv_start]) (auto simp: online_start_def intro: engine_runs.stay)

subsection \<open>Calls on the wire\<close>

text \<open>The frame of a call, and whether the transport has accepted it on some connection.\<close>

definition call_frame :: "codec \<Rightarrow> 'e call_task \<Rightarrow> string \<Rightarrow> bool" where
  "call_frame C t frame \<longleftrightarrow> (\<exists>payload. to_string C (call_value
     (RawCall MESSAGE_TYPE_CALL (uuid_string C (ct_id t)) (ct_action t) payload)) = Ok frame)"

definition call_on_wire :: "codec \<Rightarrow> 'e client \<Rightarrow> 'e call_task \<Rightarrow> bool" where
  "call_on_wire C c t \<longleftrightarrow> (\<exists>conn frame. call_frame C t frame \<and> (conn, SendOp frame, True) \<in> set (wire c))"

fun was_sent :: "'e call_pc \<Rightarrow> bool" where
  "was_sent (CallWaiting _ _ _) = True"
| "was_sent (CallTimedOut _ _) = True"
| "was_sent (CallReturned r) = (case r of Ok _ \<Rightarrow> True | Err (Protocol _) \<Rightarrow> True | Err Timeout \<Rightarrow> True | _ \<Rightarrow> False)"
| "was_sent _ = False"

fun frame_ready :: "'e call_pc \<Rightarrow> string option" where
  "frame_ready (CallPrepared _ _ frame) = Some frame"
| "frame_ready (CallRegistered _ _ _ frame) = Some frame"
| "frame_ready _ = None"

definition call_sent_ok :: "codec \<Rightarrow> 'e client \<Rightarrow> 'e call_task \<Rightarrow> bool" where
  "call_sent_ok C c t \<longleftrightarrow>
     (\<forall>frame. frame_ready (ct_pc t) = Some frame \<longrightarrow> call_frame C t frame)
     \<and> (was_sent (ct_pc t) \<longrightarrow> call_on_wire C c t)"

definition sent_inv :: "codec \<Rightarrow> 'e engine \<Rightarrow> bool" where
  "sent_inv C s \<longleftrightarrow> (\<forall>t \<in> set (calls s). call_sent_ok C (cl s) t)"

lemma call_on_wire_prefix: "prefix (wire c) (wire c') \<Longrightarrow> call_on_wire C c t \<Longrightarrow> call_on_wire C c' t"
  by (auto simp: call_on_wire_def dest: set_mono_prefix)

lemma call_sent_ok_prefix: "prefix (wire c) (wire c') \<Longrightarrow> call_sent_ok C c t \<Longrightarrow> call_sent_ok C c' t"
  by (auto simp: call_sent_ok_def intro: call_on_wire_prefix)

lemma call_sent_ok_started:
  "call_sent_ok C c \<lparr>ct_id = m, ct_action = a, ct_since = n, ct_pc = call_start C m a v c, ct_dropped = False\<rparr>"
  by (auto simp: call_sent_ok_def call_start_def call_frame_def split: if_splits result.splits)

text \<open>The fields of a call that its steps keep.\<close>

lemma call_frame_pc [simp]:
  "call_frame C (t\<lparr>ct_pc := pc\<rparr>) frame = call_frame C t frame" "call_frame C (t\<lparr>ct_dropped := b\<rparr>) frame = call_frame C t frame"
  "call_on_wire C c (t\<lparr>ct_pc := pc\<rparr>) = call_on_wire C c t" "call_on_wire C c (t\<lparr>ct_dropped := b\<rparr>) = call_on_wire C c t"
  by (simp_all add: call_frame_def call_on_wire_def)

lemma call_step_sent:
  assumes "call_step T inp c (ct_pc t) = Some (c', pc')" and "call_sent_ok C c t" and "prefix (wire c) (wire c')"
  shows "call_sent_ok C c' (t\<lparr>ct_pc := pc'\<rparr>)"
proof (cases "\<exists>m slot a frame r. ct_pc t = CallRegistered m slot a frame \<and> inp = SinkAnswers r")
  case True
  then obtain m slot a frame r where at: "ct_pc t = CallRegistered m slot a frame" "inp = SinkAnswers r" by blast
  then have "call_frame C t frame" using assms(2) by (simp add: call_sent_ok_def)
  then have "call_on_wire C (sink_write (SendOp frame) (Ok ()) c) t"
    unfolding call_on_wire_def by (intro exI [of _ "sink_conn c"] exI [of _ frame]) (simp add: sink_write_def)
  with at assms(1) show ?thesis by (cases r) (auto simp: call_sent_ok_def)
next
  case False
  with assms call_on_wire_prefix [OF assms(3), of C t] show ?thesis
    by (auto simp: call_sent_ok_def call_wait_cases call_result_def register_pending_def Let_def elim!: call_step_SomeE
        split: option.splits if_splits result.splits)
qed

lemma sent_inv_kept:
  assumes "engine_step cfg P C T s t" and "sent_inv C s"
  shows "sent_inv C t"
proof -
  note wire = engine_step_wire [OF assms(1)]
  have old: "call_sent_ok C (cl t) x" if "x \<in> set (calls s)" for x
    using assms(2) that wire by (auto simp: sent_inv_def intro: call_sent_ok_prefix)
  from assms(1) show ?thesis
  proof (cases rule: engine_step.cases)
    case (call m a v)
    with old call_sent_ok_started [of C "cl s"] show ?thesis by (auto simp: sent_inv_def)
  next
    case (call_moves i inp c' pc')
    then have "call_sent_ok C c' ((calls s ! i)\<lparr>ct_pc := pc'\<rparr>)"
      using wire assms(2) by (auto intro!: call_step_sent simp: sent_inv_def)
    with call_moves old show ?thesis
      by (auto simp: sent_inv_def dest!: set_update_subset_insert [THEN subsetD])
  next
    case (drop_call i)
    then have "call_sent_ok C (cl t) ((calls s ! i)\<lparr>ct_dropped := True\<rparr>)"
      using old [OF nth_mem, of i] by (simp add: call_sent_ok_def)
    with drop_call old show ?thesis
      by (auto simp: sent_inv_def dest!: set_update_subset_insert [THEN subsetD])
  qed (use old in \<open>auto simp: sent_inv_def\<close>)
qed

interpretation sending: engine_invariant cfg P C T "sent_inv C" for cfg P C T
proof unfold_locales
  show "sent_inv C (from_transport_with_config cfg)"
    by (simp add: sent_inv_def from_transport_with_config_def)
qed (rule sent_inv_kept)

subsection \<open>Properties\<close>

text \<open>
  Concrete runs. On WebSockets: a call, a ping that is answered, a binary message that is skipped while the
  wake signal drops the \<open>recv\<close>, then the call's answer. On embassy: a text message of two reads, with a
  \<open>recv\<close> dropped between them.
\<close>

definition ws_schedule :: "(OCPP1_6Error, ws_next) net_decision list" where
  "ws_schedule =
     [Does (DCall 1 ''a'' (Ok JNull)), Does (DCallMoves 0 Proceed), Does (DCallMoves 0 (SinkAnswers (Ok ()))),
      Arrives 0 (WsMsg (WsPing [7])), Does (DRead (RecvEvent (Ping [7]))), Does (DRead (RSink (Ok ()))),
      Arrives 0 (WsMsg (WsBinary [])), Does DForce, Does (DRead Woken), Arrives 0 (WsMsg (WsText ''[3,x,null]'')),
      Does (DRead (RecvEvent (Frame ''[3,x,null]''))), Does (DRead (RSink (Ok ()))), Does (DCallMoves 0 Proceed)]"

definition ws_run :: "(OCPP1_6Error, unit, ws_next) online" where
  "ws_run = the (online_run ws_poll (client_config_new 0) protocol_error_1_6 demo_codec lenient_types ws_schedule
     (online_start (\<lambda>_. ()) (client_config_new 0)))"

text \<open>A client that has read nothing of what arrived.\<close>

definition ws_behind :: "(OCPP1_6Error, unit, ws_next) online" where
  "ws_behind = the (online_run ws_poll (client_config_new 0) protocol_error_1_6 demo_codec lenient_types
     [Arrives 0 (WsMsg (WsPing [7])), Arrives 0 (WsMsg (WsText ''AB'')), Arrives 0 WsEnd]
     (online_start (\<lambda>_. ()) (client_config_new 0)))"

definition embassy_schedule :: "(OCPP1_6Error, socket_read) net_decision list" where
  "embassy_schedule =
     [Arrives 0 (Ok [65]), Does DForce, Does (DRead Woken), Arrives 0 (Ok [66]), Does (DRead (RecvEvent (Frame ''AB'')))]"

definition fresh_half :: "unit embassy_stream" where
  "fresh_half = \<lparr>ws_state = (), pending = [], accumulated = []\<rparr>"

definition embassy_demo :: "(OCPP1_6Error, unit embassy_stream, socket_read) online" where
  "embassy_demo = the (online_run (embassy_poll toy_decoder) (client_config_new 0) protocol_error_1_6 demo_codec
     lenient_types embassy_schedule (online_start (\<lambda>_. fresh_half) (client_config_new 0)))"

lemma ws_run_ok:
  "online_run ws_poll (client_config_new 0) protocol_error_1_6 demo_codec lenient_types ws_schedule
     (online_start (\<lambda>_. ()) (client_config_new 0)) = Some ws_run"
  by (simp add: ws_run_def ws_schedule_def online_start_def ws_poll_def schedule_eval)

lemma ws_run_ends:
  "got ws_run 0 = [Ping [7], Frame ''[3,x,null]'']" "next_conn (rl (core ws_run)) = Suc 0"
  "arrived ws_run 0 = [WsMsg (WsPing [7]), WsMsg (WsBinary []), WsMsg (WsText ''[3,x,null]'')]"
  "calls (core ws_run) = [\<lparr>ct_id = 1, ct_action = ''a'', ct_since = 0, ct_pc = CallReturned (Ok JNull), ct_dropped = False\<rparr>]"
  "rl_pc (rl (core ws_run)) = Reading"
  by (simp_all add: ws_run_def ws_schedule_def online_start_def ws_poll_def schedule_eval)

lemma ws_behind_ok:
  "online_run ws_poll (client_config_new 0) protocol_error_1_6 demo_codec lenient_types
     [Arrives 0 (WsMsg (WsPing [7])), Arrives 0 (WsMsg (WsText ''AB'')), Arrives 0 WsEnd]
     (online_start (\<lambda>_. ()) (client_config_new 0)) = Some ws_behind"
  by (simp add: ws_behind_def)

lemma ws_behind_ends:
  "rl_pc (rl (core ws_behind)) = Reading" "stream_conn (rl (core ws_behind)) = 0"
  "arrived ws_behind 0 = [WsMsg (WsPing [7]), WsMsg (WsText ''AB''), WsEnd]"
  by (simp_all add: ws_behind_def online_start_def schedule_eval)

lemma route_frame_AB: "route_frame P demo_codec ''AB'' c = (c, Nothing)"
  by (simp add: route_frame_def classify_def demo_codec_def table_codec_def)

lemma embassy_poll_halves:
  "embassy_poll toy_decoder fresh_half [Ok [65]] = Some (Waits, fresh_half\<lparr>accumulated := [65]\<rparr>, [])"
  "embassy_poll toy_decoder (fresh_half\<lparr>accumulated := [65]\<rparr>) [Ok [66]] = Some (Got (Frame ''AB''), fresh_half, [])"
  by (simp_all add: embassy_poll.simps embassy_fill_def embassy_decode_def toy_decoder_def fresh_half_def from_utf8_AB)

lemma embassy_demo_ok:
  "online_run (embassy_poll toy_decoder) (client_config_new 0) protocol_error_1_6 demo_codec lenient_types
     embassy_schedule (online_start (\<lambda>_. fresh_half) (client_config_new 0)) = Some embassy_demo"
  "got embassy_demo 0 = [Frame ''AB'']" "arrived embassy_demo 0 = [Ok [65], Ok [66]]"
  by (simp_all add: embassy_demo_def embassy_schedule_def online_start_def embassy_poll_halves schedule_eval
      route_frame_AB)

text \<open>
  C3. A call that waits for its answer, has timed out or has returned a value, a protocol error or
  \<open>Timeout\<close> was really sent: the transport accepted, on some connection, the CALL frame with that call's
  own message id and action.
\<close>

theorem waiting_call_was_sent:
  assumes "engine_reach cfg P C T s" and "t \<in> set (calls s)" and "was_sent (ct_pc t)"
  shows "\<exists>conn payload frame. (conn, SendOp frame, True) \<in> set (wire (cl s)) \<and>
    to_string C (call_value (RawCall MESSAGE_TYPE_CALL (uuid_string C (ct_id t)) (ct_action t) payload)) = Ok frame"
proof -
  have "call_on_wire C (cl s) t"
    using sending.always [OF assms(1)] assms(2,3) by (simp add: sent_inv_def call_sent_ok_def)
  then show ?thesis unfolding call_on_wire_def call_frame_def by blast
qed

theorem waiting_call_was_sent_witness:
  "\<exists>conn payload frame. (conn, SendOp frame, True) \<in> set (wire (cl (demo_run 3))) \<and>
    to_string demo_codec (call_value (RawCall MESSAGE_TYPE_CALL ''x'' ''a'' payload)) = Ok frame"
  using waiting_call_was_sent [OF demo_reach(1), of "hd (calls (demo_run 3))"] by (simp add: demo_waiting)

text \<open>
  C6. On WebSockets the client reads exactly what arrives: in every run, whatever the interleaving of
  arrivals, wakeups, dropped \<open>recv\<close>s and redials, what was read from a connection is an initial part of the
  text messages, pings and pongs that arrived on it before its first close, error or end, in order and
  without gaps, and what the engine received is the concatenation of these over its connections. Every
  such run is a run of the engine.
\<close>

theorem websocket_client_reads_what_arrives:
  assumes "online_run ws_poll cfg P C T ds (online_start (\<lambda>_. ()) cfg) = Some t"
  shows "prefix (got t k) (List.map_filter ws_event (takeWhile (\<lambda>i. \<not> ws_ends i) (arrived t k)))
    \<and> inbox (core t) = concat (map (got t) [0..<next_conn (rl (core t))])
    \<and> engine_reach cfg P C T (core t)"
  using ws_stream.links_always [OF assms] ws_stream.received_undisturbed(2) [OF assms] online_reach [OF assms]
  by (auto simp: links_inv_def intro: read_off_ws)

theorem websocket_client_reads_what_arrives_witness:
  "got ws_run 0 = [Ping [7], Frame ''[3,x,null]''] \<and> inbox (core ws_run) = got ws_run 0"
  using websocket_client_reads_what_arrives [OF ws_run_ok] by (simp add: ws_run_ends)

text \<open>
  C7. Nothing that arrived is lost: from any state of a client that is on line, steps of the read loop
  alone lead to one in which every text message, ping and pong that had arrived on its connection before
  the connection's end has been read.
\<close>

theorem websocket_client_catches_up:
  assumes "online_run ws_poll cfg P C T ds (online_start (\<lambda>_. ()) cfg) = Some s"
    and "on_line (rl_pc (rl (core s)))"
  shows "\<exists>es t. list_all loop_alone es \<and> online_run ws_poll cfg P C T es s = Some t \<and> arrived t = arrived s
    \<and> got t (stream_conn (rl (core s))) =
        List.map_filter ws_event (takeWhile (\<lambda>i. \<not> ws_ends i) (arrived s (stream_conn (rl (core s)))))"
proof -
  let ?k = "stream_conn (rl (core s))"
  let ?n = "length (ws_events (arrived s ?k))"
  obtain t where t: "moves_to ws_poll cfg P C T s t" "arrived t = arrived s"
    "got t ?k = got s ?k @ drain ws_poll ?n (half s ?k) (unread s ?k)"
    using can_read [OF assms(2) refl, of ws_poll] by blast
  have "follows ws_poll () (arrived s ?k) (got s ?k) (half s ?k) (unread s ?k)"
    using ws_stream.links_always [OF assms(1)] assms(2) by (simp add: links_inv_def reads_from_def)
  then have "got s ?k @ drain ws_poll ?n (half s ?k) (unread s ?k) = drain ws_poll (length (got s ?k) + ?n) () (arrived s ?k)"
    unfolding follows_def by (metis append_Nil2)
  with t show ?thesis unfolding moves_to_def drain_ws ws_events_closed_form by auto
qed

theorem websocket_client_catches_up_witness:
  "\<exists>es t. online_run ws_poll (client_config_new 0) protocol_error_1_6 demo_codec lenient_types es ws_behind = Some t
     \<and> got t 0 = [Ping [7], Frame ''AB'']"
  using websocket_client_catches_up [OF ws_behind_ok] by (auto simp: ws_behind_ends)

text \<open>
  C8. The same on embassy, with any decoder: what the client read from a connection is exactly what a
  reader would get that is never disturbed and finds everything there from the start, from the stream
  half the dial returned; dropping a \<open>recv\<close> in its socket read, at any moment, changes nothing. With a
  decoder that always consumes something, polling \<open>recv\<close> always comes back, and what was read is an initial
  part of the events assembled from what the decoder makes of the connection's bytes.
\<close>

theorem embassy_client_reads_what_arrives:
  assumes "online_run (embassy_poll dec) cfg P C T ds (online_start dialled cfg) = Some t"
  shows "drain (embassy_poll dec) (length (got t k)) (dialled k) (arrived t k) = got t k
    \<and> inbox (core t) = concat (map (got t) [0..<next_conn (rl (core t))])
    \<and> engine_reach cfg P C T (core t)
    \<and> (consuming dec \<longrightarrow> embassy_poll dec (half t k) (unread t k) \<noteq> None
         \<and> (bytes_left (dialled k) (arrived t k) < m \<longrightarrow>
              prefix (got t k) (embassy_events (decoded dec m (dialled k) (arrived t k)) (accumulated (dialled k)))))"
  using embassy_half.received_undisturbed [OF assms] online_reach [OF assms] embassy_half.links_always [OF assms]
    read_off_embassy embassy_poll_answers
  unfolding links_inv_def by blast

theorem embassy_client_reads_what_arrives_witness:
  "drain (embassy_poll toy_decoder) 1 fresh_half [Ok [65], Ok [66]] = [Frame ''AB'']"
  using embassy_client_reads_what_arrives [OF embassy_demo_ok(1), of 0] by (simp add: embassy_demo_ok(2,3))

text \<open>
  C9. Every ping is answered on the connection it came from, with its own payload: at any moment the pongs
  written to a connection, whether or not the transport took them, followed by the one in the read loop's hand if it reads that connection, carry
  exactly the payloads of the pings read from it, in order.
\<close>

theorem pings_are_echoed:
  assumes "online_run recv cfg P C T ds (online_start dialled cfg) = Some t"
  shows "pongs_on k (cl (core t)) @ owed k (rl (core t)) = pings_in (got t k)"
  using pongs_always [OF assms] by (simp add: pongs_inv_def)

theorem pings_are_echoed_witness: "pongs_on 0 (cl (core ws_run)) = [[7]]"
  using pings_are_echoed [OF ws_run_ok, of 0] by (simp add: ws_run_ends pings_in_def owed_reading)

text \<open>
  C2. End to end on WebSockets: when a call returns a value, a text message arrived on one of the client's
  connections, before that connection ended, that is a CALLRESULT for this call's own message id with
  exactly that value; when it returns a protocol error, such a message is a CALLERROR.
\<close>

theorem answers_come_from_the_network:
  assumes "online_run ws_poll cfg P C T ds (online_start (\<lambda>_. ()) cfg) = Some s" and "t \<in> set (calls (core s))"
    and "ct_pc t = CallReturned (case reply of Ok v \<Rightarrow> Ok v | Err x \<Rightarrow> Err (Protocol x))"
  shows "\<exists>k < next_conn (rl (core s)). \<exists>msg.
    WsMsg (WsText msg) \<in> set (takeWhile (\<lambda>i. \<not> ws_ends i) (arrived s k))
    \<and> response_for P C msg = Some (ct_id t, reply)"
proof -
  have "call_justified P C (inbox (core s)) t"
    using calling.always [OF online_reach [OF assms(1)]] assms(2) by (simp add: calls_inv_def calls_tracked_def)
  then obtain msg where msg: "Frame msg \<in> set (inbox (core s))" "response_for P C msg = Some (ct_id t, reply)"
    using assms(3) by (cases reply) (auto simp: call_justified_def answers_def dest: in_set_dropD)
  from msg(1) ws_stream.received_undisturbed(2) [OF assms(1)] obtain k where
    k: "k < next_conn (rl (core s))" "Frame msg \<in> set (got s k)" by auto
  have "prefix (got s k) (List.map_filter ws_event (takeWhile (\<lambda>i. \<not> ws_ends i) (arrived s k)))"
    using ws_stream.links_always [OF assms(1)] by (simp add: links_inv_def read_off_ws)
  from set_mono_prefix [OF this] k(2) obtain i where
    "i \<in> set (takeWhile (\<lambda>i. \<not> ws_ends i) (arrived s k))" "ws_event i = Some (Frame msg)"
    by (auto simp: List.map_filter_def)
  moreover from this(2) have "i = WsMsg (WsText msg)" by (cases i rule: ws_event.cases) auto
  ultimately show ?thesis using k(1) msg(2) by blast
qed

theorem answers_come_from_the_network_witness:
  "\<exists>msg. WsMsg (WsText msg) \<in> set (arrived ws_run 0)
     \<and> response_for protocol_error_1_6 demo_codec msg = Some (1, Ok JNull)"
  using answers_come_from_the_network [OF ws_run_ok, of "hd (calls (core ws_run))" "Ok JNull"]
  by (auto simp: ws_run_ends dest!: set_takeWhileD)

end
