(* ===== verification/Redial_Time.thy ===== *)
theory Redial_Time
  imports Engine_Shutdown
begin

text \<open>
  When the client redials. The engine takes the end of a backoff as an input; here a clock runs beside it and
  the timer of \<open>read_timer.delay\<close> (\<^verbatim>\<open>src/client.rs\<close>) fires no earlier than it was set for. \<open>timer d\<close> is how
  long a delay of \<open>d\<close> takes at least on the runtime at hand: \<open>d\<close> itself on tokio, whole microseconds on
  embassy. A wake may end a backoff early, and time may pass anywhere.

  History, which no step reads: when the current backoff began and whether a wake cut it short, every dial
  begun, and how many wakes were requested.
\<close>

record dial =
  dl_at :: duration          \<comment> \<open>when it began\<close>
  dl_delay :: duration       \<comment> \<open>the delay drawn for the backoff before it\<close>
  dl_cut :: bool             \<comment> \<open>whether a wake ended that backoff\<close>
  dl_attempt :: nat          \<comment> \<open>the dials since the last inbound event\<close>
  dl_heard :: nat            \<comment> \<open>the inbound events so far\<close>

record 'e timed =
  te :: "'e engine"
  now :: duration
  due :: duration
  began :: duration
  cut :: bool
  dialled :: "dial list"
  wakes :: nat

datatype 'e timed_decision = Passes duration | Acts "'e decision"

definition timed_start :: "client_config \<Rightarrow> 'e timed" where
  "timed_start cfg = \<lparr>te = from_transport_with_config cfg, now = 0, due = 0, began = 0, cut = False,
     dialled = [], wakes = 0\<rparr>"

definition set_timer :: "(duration \<Rightarrow> duration) \<Rightarrow> read_pc \<Rightarrow> 'e timed \<Rightarrow> 'e timed" where
  "set_timer timer pc s =
     (case pc of BackingOff d \<Rightarrow> s\<lparr>due := now s + timer d, began := now s, cut := False\<rparr> | _ \<Rightarrow> s)"

definition note_dial :: "read_loop \<Rightarrow> nat \<Rightarrow> 'e timed \<Rightarrow> 'e timed" where
  "note_dial l heard s =
     (if rl_pc l = Dialing then
        s\<lparr>dialled := dialled s @ [\<lparr>dl_at = now s, dl_delay = last (waits l), dl_cut = cut s,
          dl_attempt = dials l - 1, dl_heard = heard\<rparr>]\<rparr>
      else s)"

text \<open>What the clock sees of a step, by the input the read loop took.\<close>

fun clocked :: "(duration \<Rightarrow> duration) \<Rightarrow> 'e decision \<Rightarrow> 'e timed \<Rightarrow> 'e timed" where
  "clocked timer (DRead (Drew _)) s = set_timer timer (rl_pc (rl (te s))) s"
| "clocked timer (DRead Woken) s = s\<lparr>cut := True\<rparr>"
| "clocked timer (DRead RGo) s = note_dial (rl (te s)) (length (inbox (te s))) s"
| "clocked timer _ s = s"

definition wakes_requested :: "'e engine \<Rightarrow> 'e engine \<Rightarrow> nat" where
  "wakes_requested e e' = (if force_reconnect (cl e) = None \<and> force_reconnect (cl e') \<noteq> None then 1 else 0)"

fun timed_perform ::
  "(duration \<Rightarrow> duration) \<Rightarrow> client_config \<Rightarrow> 'e protocol_error \<Rightarrow> codec \<Rightarrow> payload_types \<Rightarrow> 'e timed_decision \<Rightarrow>
   'e timed \<Rightarrow> 'e timed option" where
  "timed_perform timer cfg P C T (Passes d) s = Some (s\<lparr>now := now s + d\<rparr>)"
| "timed_perform timer cfg P C T (Acts d) s =
     (if d = DRead DelayOver \<and> now s < due s then None
      else map_option (\<lambda>e. clocked timer d (s\<lparr>te := e, wakes := wakes s + wakes_requested (te s) e\<rparr>))
        (perform cfg P C T d (te s)))"

fun timed_run ::
  "(duration \<Rightarrow> duration) \<Rightarrow> client_config \<Rightarrow> 'e protocol_error \<Rightarrow> codec \<Rightarrow> payload_types \<Rightarrow> 'e timed_decision list \<Rightarrow>
   'e timed \<Rightarrow> 'e timed option" where
  "timed_run timer cfg P C T [] s = Some s"
| "timed_run timer cfg P C T (d # ds) s =
     (case timed_perform timer cfg P C T d s of Some t \<Rightarrow> timed_run timer cfg P C T ds t | None \<Rightarrow> None)"

subsection \<open>What the clock leaves alone\<close>

lemma te_clocked [simp]: "te (clocked timer d s) = te s" "now (clocked timer d s) = now s"
    "wakes (clocked timer d s) = wakes s"
  by (induction timer d s rule: clocked.induct) (simp_all add: set_timer_def note_dial_def split: read_pc.split)

lemma timed_perform_te:
  assumes "timed_perform timer cfg P C T d s = Some t"
  shows "engine_runs cfg P C T (te s) (te t)"
  using assms by (cases d) (auto split: if_splits intro: engine_runs.stay engine_runs.go [OF engine_runs.stay perform_step])

lemma timed_run_te: "timed_run timer cfg P C T ds s = Some t \<Longrightarrow> engine_runs cfg P C T (te s) (te t)"
  by (induction ds arbitrary: s)
    (auto intro: engine_runs.stay engine_runs_trans dest: timed_perform_te split: option.splits)

lemma timed_reach: "timed_run timer cfg P C T ds (timed_start cfg) = Some t \<Longrightarrow> engine_reach cfg P C T (te t)"
  using timed_run_te by (fastforce simp: timed_start_def)

lemma clocked_beside: "\<forall>inp. d \<noteq> DRead inp \<Longrightarrow> clocked timer d s = s"
  by (cases d) auto

subsection \<open>The steps of a redial\<close>

lemma drew_step:
  assumes "read_task cfg P C (Drew u) c l = Some (c', l')"
  shows "rl_pc l = Delaying \<and> c' = c
    \<and> (\<exists>d. l' = l\<lparr>rl_pc := BackingOff d, attempt := saturating_add (attempt l) 1, waits := waits l @ [d]\<rparr>)"
  using assms by (cases "rl_pc l") (auto simp: read_defs Let_def)

lemma over_step:
  assumes "read_task cfg P C DelayOver c l = Some (c', l')"
  shows "\<exists>d. rl_pc l = BackingOff d \<and> c' = c \<and> l' = l\<lparr>rl_pc := DialCheck\<rparr>"
  using assms by (cases "rl_pc l") (auto simp: read_defs)

lemma woken_step:
  assumes "read_task cfg P C Woken c l = Some (c', l')"
  shows "force_reconnect c = Some () \<and> force_reconnect c' = None
    \<and> (\<exists>pc. l' = l\<lparr>rl_pc := pc\<rparr> \<and> (pc = Stopped
        \<or> wait_credit pc = 0 \<and> wait_credit (rl_pc l) = 0 \<or> pc = DialCheck \<and> (\<exists>d. rl_pc l = BackingOff d)))"
  using assms
  by (cases "rl_pc l") (auto simp: read_defs take_wake_cases split: option.splits if_splits)

lemma go_step:
  assumes "read_task cfg P C RGo c l = Some (c', l')"
  shows "force_reconnect c' = force_reconnect c \<and> waits l' = waits l \<and> wait_credit (rl_pc l') = 0
    \<and> (rl_pc l' = Dialing \<and> rl_pc l = DialCheck \<and> dials l' = Suc (dials l)
       \<or> rl_pc l' \<noteq> Dialing \<and> dials l' = dials l \<and> (rl_pc l' = Stopped \<or> wait_credit (rl_pc l) = 0))"
  using assms by (cases "rl_pc l") (auto simp: read_defs after_exit_def split: if_splits)

lemma event_step:
  assumes "read_task cfg P C (RecvEvent event) c l = Some (c', l')"
  shows "waits l' = [] \<and> dials l' = 0 \<and> wait_credit (rl_pc l') = 0 \<and> rl_pc l = Reading"
  using assms by (cases "rl_pc l") (auto simp: read_defs dest: wait_credit_event split: prod.splits)

lemma other_step:
  assumes "read_task cfg P C inp c l = Some (c', l')" and "inp = RecvEnd \<or> inp = RSink r \<or> inp = Dialled ok"
  shows "waits l' = waits l \<and> dials l' = dials l \<and> wait_credit (rl_pc l') = 0 \<and> wait_credit (rl_pc l) = 0"
  using assms by (cases "rl_pc l") (auto simp: read_defs)

subsection \<open>Pacing\<close>

definition in_window :: "reconnect_policy \<Rightarrow> dial \<Rightarrow> bool" where
  "in_window pol e \<longleftrightarrow> delay_for pol (attempt_at (dl_attempt e)) div 2 \<le> dl_delay e
     \<and> dl_delay e \<le> delay_for pol (attempt_at (dl_attempt e))"

text \<open>Two dials in a row.\<close>

definition paced :: "(duration \<Rightarrow> duration) \<Rightarrow> dial \<Rightarrow> dial \<Rightarrow> bool" where
  "paced timer d e \<longleftrightarrow>
     dl_at d \<le> dl_at e \<and> (dl_cut e \<or> dl_at d + timer (dl_delay e) \<le> dl_at e)
     \<and> dl_attempt e = (if dl_heard d = dl_heard e then Suc (dl_attempt d) else 0)"

text \<open>The current backoff, if there is one, against the clock.\<close>

definition backoff_clock :: "(duration \<Rightarrow> duration) \<Rightarrow> 'e timed \<Rightarrow> bool" where
  "backoff_clock timer s \<longleftrightarrow>
     began s \<le> now s
     \<and> (\<forall>d. rl_pc (rl (te s)) = BackingOff d \<longrightarrow>
          due s = began s + timer d \<and> d = last (waits (rl (te s))) \<and> \<not> cut s)
     \<and> (rl_pc (rl (te s)) = DialCheck \<longrightarrow> cut s \<or> began s + timer (last (waits (rl (te s)))) \<le> now s)"

text \<open>The last dial against the clock and the counters of the read loop.\<close>

definition last_dial :: "'e timed \<Rightarrow> bool" where
  "last_dial s \<longleftrightarrow>
     (if dialled s = [] then dials (rl (te s)) = 0
      else dl_at (last (dialled s)) \<le> now s
        \<and> (wait_credit (rl_pc (rl (te s))) \<noteq> 0 \<longrightarrow> dl_at (last (dialled s)) \<le> began s)
        \<and> dl_heard (last (dialled s)) \<le> length (inbox (te s))
        \<and> dials (rl (te s)) =
            (if dl_heard (last (dialled s)) = length (inbox (te s)) then Suc (dl_attempt (last (dialled s))) else 0))"

definition wakes_owed :: "'e timed \<Rightarrow> nat" where
  "wakes_owed s = (if cut s \<and> rl_pc (rl (te s)) = DialCheck then 1 else 0)
     + (if force_reconnect (cl (te s)) = None then 0 else 1)"

definition timed_inv :: "(duration \<Rightarrow> duration) \<Rightarrow> client_config \<Rightarrow> 'e timed \<Rightarrow> bool" where
  "timed_inv timer cfg s \<longleftrightarrow>
     (rl_pc (rl (te s)) \<noteq> Stopped \<longrightarrow>
        dials (rl (te s)) + wait_credit (rl_pc (rl (te s))) = length (waits (rl (te s))))
     \<and> backoff_clock timer s \<and> last_dial s
     \<and> list_all (\<lambda>e. in_window (cfg_reconnect_policy cfg) e \<and> (dl_cut e \<or> timer (dl_delay e) \<le> dl_at e)) (dialled s)
     \<and> successively (paced timer) (dialled s)
     \<and> length (filter dl_cut (dialled s)) + wakes_owed s \<le> wakes s"

lemmas timed_defs = timed_inv_def backoff_clock_def last_dial_def wakes_owed_def

lemma timed_inv_start: "timed_inv timer cfg (timed_start cfg)"
  by (simp add: timed_defs timed_start_def from_transport_with_config_def read_loop_start_def new_client_def
      notify_new_def signal_new_def)

lemma timed_inv_passes: "timed_inv timer cfg s \<Longrightarrow> timed_inv timer cfg (s\<lparr>now := now s + d\<rparr>)"
  by (auto simp: timed_defs split: if_splits)

text \<open>A step beside the read loop can only request a wake.\<close>

lemma timed_inv_beside:
  assumes "timed_inv timer cfg s" and "rl e = rl (te s)" and "inbox e = inbox (te s)"
  shows "timed_inv timer cfg (s\<lparr>te := e, wakes := wakes s + wakes_requested (te s) e\<rparr>)"
  using assms by (auto simp: timed_defs wakes_requested_def split: if_splits)

text \<open>The steps of the read loop.\<close>

lemma timed_inv_dial:
  assumes "timed_inv timer cfg s" and "backoff_inv cfg (rl (te s))" and "rl_pc (rl (te s)) = DialCheck"
    and "rl e = l'" and "rl_pc l' = Dialing" and "dials l' = Suc (dials (rl (te s)))" and "waits l' = waits (rl (te s))"
    and "inbox e = inbox (te s)" and "force_reconnect (cl e) = force_reconnect (cl (te s))"
  shows "timed_inv timer cfg (note_dial l' (length (inbox e)) (s\<lparr>te := e\<rparr>))"
proof -
  let ?l = "rl (te s)"
  define x where "x = \<lparr>dl_at = now s, dl_delay = last (waits ?l), dl_cut = cut s, dl_attempt = dials ?l,
    dl_heard = length (inbox (te s))\<rparr>"
  have x: "dl_at x = now s" "dl_delay x = last (waits ?l)" "dl_cut x = cut s" "dl_attempt x = dials ?l"
    "dl_heard x = length (inbox (te s))"
    by (simp_all add: x_def)
  have inv: "backoff_clock timer s" "last_dial s" "length (waits ?l) = Suc (dials ?l)"
    using assms(1,3) by (simp_all add: timed_inv_def)
  then have "waits ?l \<noteq> []" by auto
  then have "last (waits ?l) = waits ?l ! dials ?l" using inv(3) by (simp add: last_conv_nth)
  then have window: "in_window (cfg_reconnect_policy cfg) x"
    using assms(2) inv(3) by (simp add: in_window_def backoff_inv_def x)
  have paced: "dialled s \<noteq> [] \<Longrightarrow> paced timer (last (dialled s)) x"
    using inv(1,2) assms(3) by (auto simp: backoff_clock_def last_dial_def paced_def x)
  have waited: "dl_cut x \<or> timer (dl_delay x) \<le> dl_at x"
    using inv(1) assms(3) by (auto simp: backoff_clock_def x)
  have t: "note_dial l' (length (inbox e)) (s\<lparr>te := e\<rparr>) = s\<lparr>te := e, dialled := dialled s @ [x]\<rparr>"
    using assms(5-8) by (simp add: note_dial_def x_def)
  have "last_dial (s\<lparr>te := e, dialled := dialled s @ [x]\<rparr>)"
    using assms(4-8) by (simp add: last_dial_def x)
  moreover have "backoff_clock timer (s\<lparr>te := e, dialled := dialled s @ [x]\<rparr>)"
    using inv(1) assms(4,5) by (simp add: backoff_clock_def)
  moreover have "length (filter dl_cut (dialled s @ [x])) + wakes_owed (s\<lparr>te := e, dialled := dialled s @ [x]\<rparr>) \<le> wakes s"
    using assms(1,3,4,5,9) by (auto simp: timed_inv_def wakes_owed_def x split: if_splits)
  ultimately show ?thesis
    using assms(1,4-7) inv(3) window paced waited unfolding t by (auto simp: timed_inv_def successively_append_iff)
qed

text \<open>A step that begins no dial: what it may do to the counters, the clock and the wake signal.\<close>

lemma timed_inv_quiet:
  assumes "timed_inv timer cfg s" and "dialled t = dialled s" and "now t = now s" and "backoff_clock timer t"
    and "rl_pc (rl (te t)) \<noteq> Stopped \<longrightarrow>
      dials (rl (te t)) + wait_credit (rl_pc (rl (te t))) = length (waits (rl (te t)))"
    and "inbox (te t) = inbox (te s) \<and> dials (rl (te t)) = dials (rl (te s))
      \<or> length (inbox (te s)) < length (inbox (te t)) \<and> dials (rl (te t)) = 0"
    and "wait_credit (rl_pc (rl (te t))) \<noteq> 0 \<longrightarrow> began t = now s \<or> began t = began s \<and> wait_credit (rl_pc (rl (te s))) \<noteq> 0"
    and "wakes_owed t + wakes s \<le> wakes_owed s + wakes t"
  shows "timed_inv timer cfg t"
proof -
  have "last_dial s" using assms(1) by (simp add: timed_inv_def)
  then have "last_dial t"
  proof (cases "dialled s = []")
    case False
    with \<open>last_dial s\<close> assms(2,3,6,7) show ?thesis by (auto simp: last_dial_def)
  qed (use assms(2,6) in \<open>auto simp: last_dial_def\<close>)
  with assms show ?thesis by (simp add: timed_inv_def)
qed

lemma no_credit: "wait_credit pc = 0 \<Longrightarrow> pc \<noteq> DialCheck \<and> (\<forall>d. pc \<noteq> BackingOff d)"
  by (cases pc) auto

lemmas quiet_defs = backoff_clock_def wakes_owed_def wakes_requested_def

lemma timed_inv_read:
  assumes "timed_inv timer cfg s" and "backoff_inv cfg (rl (te s))"
    and step: "read_task cfg P C inp (cl (te s)) (rl (te s)) = Some (c', l')"
    and "inp = DelayOver \<Longrightarrow> due s \<le> now s" and e: "e = read_moves inp c' l' (te s)"
  shows "timed_inv timer cfg (clocked timer (DRead inp) (s\<lparr>te := e, wakes := wakes s + wakes_requested (te s) e\<rparr>))"
proof -
  note quiet = timed_inv_quiet [OF assms(1)]
  have "rl_pc (rl (te s)) \<noteq> Stopped" using step by (auto simp: read_task_def)
  then have inv: "backoff_clock timer s"
    "dials (rl (te s)) + wait_credit (rl_pc (rl (te s))) = length (waits (rl (te s)))"
    using assms(1) by (simp_all add: timed_inv_def)
  show ?thesis
  proof (cases inp)
    case (RecvEvent event)
    from event_step [OF step [unfolded RecvEvent]] inv(1) RecvEvent show ?thesis
      by (intro quiet) (auto simp: e quiet_defs dest: no_credit)
  next
    case RecvEnd
    from other_step [OF step] inv RecvEnd show ?thesis
      by (intro quiet) (auto simp: e quiet_defs dest: no_credit)
  next
    case Woken
    from woken_step [OF step [unfolded Woken]] inv Woken show ?thesis
      by (intro quiet) (auto simp: e quiet_defs dest: no_credit)
  next
    case (RSink r)
    from other_step [OF step, of r] inv RSink show ?thesis
      by (intro quiet) (auto simp: e quiet_defs dest: no_credit)
  next
    case (Drew u)
    from drew_step [OF step [unfolded Drew]] inv Drew show ?thesis
      by (intro quiet) (auto simp: e set_timer_def quiet_defs dest: no_credit)
  next
    case DelayOver
    from over_step [OF step [unfolded DelayOver]] inv assms(4) DelayOver show ?thesis
      by (intro quiet) (auto simp: e quiet_defs dest: no_credit)
  next
    case (Dialled ok)
    from other_step [OF step, of _ ok] inv Dialled show ?thesis
      by (intro quiet) (auto simp: e quiet_defs dest: no_credit)
  next
    case RGo
    note go = go_step [OF step [unfolded RGo]]
    have none: "wakes_requested (te s) (read_moves RGo c' l' (te s)) = 0" using go by (simp add: wakes_requested_def)
    show ?thesis
    proof (cases "rl_pc l' = Dialing")
      case True
      with go timed_inv_dial [OF assms(1,2), of e l'] RGo none show ?thesis by (simp add: e)
    next
      case False
      with go inv RGo show ?thesis by (intro quiet) (auto simp: e note_dial_def quiet_defs dest: no_credit)
    qed
  qed
qed

lemma timed_inv_step:
  assumes "timed_perform timer cfg P C T d s = Some t" and "timed_inv timer cfg s" and "engine_reach cfg P C T (te s)"
  shows "timed_inv timer cfg t"
proof (cases d)
  case (Passes x)
  with assms timed_inv_passes show ?thesis by auto
next
  case (Acts a)
  then obtain e where e: "perform cfg P C T a (te s) = Some e" "a = DRead DelayOver \<Longrightarrow> due s \<le> now s"
    "t = clocked timer a (s\<lparr>te := e, wakes := wakes s + wakes_requested (te s) e\<rparr>)"
    using assms(1) by (auto split: if_splits)
  show ?thesis
  proof (cases "\<exists>inp. a = DRead inp")
    case True
    then obtain inp c' l' where "a = DRead inp" "read_task cfg P C inp (cl (te s)) (rl (te s)) = Some (c', l')"
      "e = read_moves inp c' l' (te s)"
      using e(1) by (auto split: option.splits)
    moreover have "backoff_inv cfg (rl (te s))" using control.always [OF assms(3)] by (simp add: control_inv_def)
    ultimately show ?thesis using timed_inv_read [OF assms(2), of P C inp c' l' e] e(2,3) by simp
  next
    case False
    with timed_inv_beside [OF assms(2)] perform_beside [OF e(1)] e(3) show ?thesis by (simp add: clocked_beside)
  qed
qed

lemma timed_inv_run:
  "timed_run timer cfg P C T ds s = Some t \<Longrightarrow> timed_inv timer cfg s \<Longrightarrow> engine_reach cfg P C T (te s) \<Longrightarrow>
   timed_inv timer cfg t"
proof (induction ds arbitrary: s)
  case (Cons d ds)
  then obtain u where u: "timed_perform timer cfg P C T d s = Some u" "timed_run timer cfg P C T ds u = Some t"
    by (auto split: option.splits)
  from timed_inv_step [OF u(1)] engine_runs_trans [OF Cons.prems(3) timed_perform_te [OF u(1)]] Cons u(2)
  show ?case by blast
qed simp

lemma timed_always: "timed_run timer cfg P C T ds (timed_start cfg) = Some t \<Longrightarrow> timed_inv timer cfg t"
  by (rule timed_inv_run [OF _ timed_inv_start]) (auto simp: timed_start_def intro: engine_runs.stay)

text \<open>Without a reconnector there is nothing to pace.\<close>

lemma dial_noted:
  "dialled (clocked timer d s) = dialled s \<or> rl_pc (rl (te s)) = Dialing"
  by (induction timer d s rule: clocked.induct) (auto simp: set_timer_def note_dial_def split: read_pc.split)

lemma timed_perform_dialled:
  assumes "timed_perform timer cfg P C T d s = Some u"
  shows "dialled u = dialled s \<or> rl_pc (rl (te u)) = Dialing"
proof (cases d)
  case (Acts a)
  then obtain e where e: "u = clocked timer a (s\<lparr>te := e, wakes := wakes s + wakes_requested (te s) e\<rparr>)"
    using assms by (auto split: if_splits)
  show ?thesis unfolding e
    using dial_noted [of timer a "s\<lparr>te := e, wakes := wakes s + wakes_requested (te s) e\<rparr>"] by simp
qed (use assms in auto)

lemma lone_client_dials_nothing:
  assumes "\<not> cfg_reconnector cfg"
  shows "timed_run timer cfg P C T ds s = Some t \<Longrightarrow> engine_reach cfg P C T (te s) \<Longrightarrow> dialled s = [] \<Longrightarrow> dialled t = []"
proof (induction ds arbitrary: s)
  case (Cons d ds)
  then obtain u where u: "timed_perform timer cfg P C T d s = Some u" "timed_run timer cfg P C T ds u = Some t"
    by (auto split: option.splits)
  have reach: "engine_reach cfg P C T (te u)" by (rule engine_runs_trans [OF Cons.prems(2) timed_perform_te [OF u(1)]])
  then have "rl_pc (rl (te u)) \<noteq> Dialing" using lone.always [OF reach] assms by (auto simp: lone_inv_def)
  with timed_perform_dialled [OF u(1)] Cons.prems(3) have "dialled u = []" by simp
  with Cons.IH [OF u(2) reach] show ?case by simp
qed simp

subsection \<open>Properties\<close>

text \<open>A client whose connection ends and whose first dial fails, with the time its two backoffs take.\<close>

definition brisk_policy :: reconnect_policy where
  "brisk_policy = \<lparr>initial_delay = 3, max_delay = 100, multiplier = 2, jitter = False\<rparr>"

definition brisk_cfg :: client_config where
  "brisk_cfg = with_reconnect brisk_policy (client_config_new 0)"

definition timed_schedule :: "OCPP1_6Error timed_decision list" where
  "timed_schedule =
     map (Acts \<circ> DRead) [RecvEnd, RGo, RGo, Drew 0] @ [Passes 4] @ map (Acts \<circ> DRead) [DelayOver, RGo]
     @ [Passes 5] @ map (Acts \<circ> DRead) [Dialled False, Drew 0] @ [Passes 6] @ map (Acts \<circ> DRead) [DelayOver, RGo]"

definition timed_demo :: "OCPP1_6Error timed" where
  "timed_demo = the (timed_run id brisk_cfg protocol_error_1_6 (table_codec []) lenient_types timed_schedule
     (timed_start brisk_cfg))"

lemma brisk_delays: "jittered_delay_for brisk_policy 0 u = 3" "jittered_delay_for brisk_policy 1 u = 6"
  by (simp_all add: jittered_delay_for_def delay_for_def brisk_policy_def delay_loop_Suc duration_max_def)

lemma timed_demo_ok:
  "timed_run id brisk_cfg protocol_error_1_6 (table_codec []) lenient_types timed_schedule (timed_start brisk_cfg)
     = Some timed_demo"
  "dialled timed_demo = [\<lparr>dl_at = 4, dl_delay = 3, dl_cut = False, dl_attempt = 0, dl_heard = 0\<rparr>,
     \<lparr>dl_at = 15, dl_delay = 6, dl_cut = False, dl_attempt = Suc 0, dl_heard = 0\<rparr>]"
  by (simp_all add: timed_demo_def timed_schedule_def timed_start_def set_timer_def note_dial_def brisk_cfg_def
      brisk_delays saturating_add_def schedule_eval)

lemma timed_demo_open: "\<not> closed (cl (te timed_demo))"
  by (simp add: timed_demo_def timed_schedule_def timed_start_def set_timer_def note_dial_def brisk_cfg_def
      brisk_delays saturating_add_def schedule_eval)

text \<open>
  C19. Redials are paced: between two dials in a row lies at least the time the timer takes for a delay drawn
  between half of the policy's delay for that attempt and that delay, unless a wake ended the backoff
  early, and there are never more of those than wakes requested. The attempt is one more than the one
  before, and only an inbound event in between restarts it at 0: a dial that succeeds and drops at once
  does not. The first dial waits as well.
\<close>

theorem redials_are_paced:
  assumes "timed_run timer cfg P C T ds (timed_start cfg) = Some s"
  shows "successively (\<lambda>d e. dl_at d \<le> dl_at e \<and> (dl_cut e \<or> dl_at d + timer (dl_delay e) \<le> dl_at e)
      \<and> dl_attempt e = (if dl_heard d = dl_heard e then Suc (dl_attempt d) else 0)) (dialled s)
    \<and> list_all (\<lambda>e. delay_for (cfg_reconnect_policy cfg) (attempt_at (dl_attempt e)) div 2 \<le> dl_delay e
      \<and> dl_delay e \<le> delay_for (cfg_reconnect_policy cfg) (attempt_at (dl_attempt e))
      \<and> (dl_cut e \<or> timer (dl_delay e) \<le> dl_at e)) (dialled s)
    \<and> length (filter dl_cut (dialled s)) \<le> wakes s"
proof -
  have "timed_inv timer cfg s" by (rule timed_always [OF assms])
  then show ?thesis unfolding timed_inv_def in_window_def paced_def [abs_def] by (auto simp del: if_split)
qed

theorem redials_are_paced_witness:
  "length (dialled timed_demo) = 2 \<and> dl_at (dialled timed_demo ! 0) + 6 \<le> dl_at (dialled timed_demo ! 1)"
  using redials_are_paced [OF timed_demo_ok(1)] by (simp add: timed_demo_ok(2))

end
