(* ===== verification/Keepalive_Time.thy ===== *)
theory Keepalive_Time
  imports Keepalive_Loop
begin

text \<open>
  How long the keepalive task takes to give up on a silent peer. The timers of \<open>keepalive_loop\<close> and
  \<open>send_ping_with_timeout\<close> are steps elsewhere in this development; here each such step is charged with the
  duration the code asks the timer for.
\<close>

definition ka_ping_timeout :: "'e client \<Rightarrow> duration" where
  "ka_ping_timeout c = (case pong_timeout (policy (keepalive c)) of Some d \<Rightarrow> d | None \<Rightarrow> timeout c)"

text \<open>What a step of the task has waited for: the interval it slept out, or the deadline of its ping.\<close>

definition ka_waited :: "ka_input \<Rightarrow> 'e client \<Rightarrow> 'e ka_pc \<Rightarrow> duration" where
  "ka_waited inp c pc =
     (case pc of
        KaSleeping i \<Rightarrow> if inp = KElapsed then i else 0
      | KaPinging (PingWaiting _ _) \<Rightarrow> if inp = KPing TimerFires then ka_ping_timeout c else 0
      | _ \<Rightarrow> 0)"

text \<open>The input that moves the task on when its transport accepts every ping and no pong arrives.\<close>

fun ka_unanswered :: "'e ka_pc \<Rightarrow> ka_input" where
  "ka_unanswered (KaSleeping _) = KElapsed"
| "ka_unanswered (KaPinging (PingReturned _)) = KGo"
| "ka_unanswered (KaPinging pc) = KPing (ping_next_input (Ok ()) pc)"
| "ka_unanswered _ = KGo"

text \<open>
  The task among others: \<open>cs\<close> are the clients it finds at its steps. The result is the time it has waited,
  whether one of its steps asked for a redial, and where it has come to.
\<close>

fun ka_drive :: "'e client list \<Rightarrow> 'e ka_task \<Rightarrow> duration \<times> bool \<times> 'e ka_task" where
  "ka_drive [] k = (0, False, k)"
| "ka_drive (c # cs) k =
     (case ka_step (ka_unanswered (ka_pc k)) c k of
        Some (c', k') \<Rightarrow>
          (case ka_drive cs k' of (time, forced, k'') \<Rightarrow>
             (ka_waited (ka_unanswered (ka_pc k)) c (ka_pc k) + time,
              force_reconnect c' \<noteq> force_reconnect c \<or> forced, k''))
      | None \<Rightarrow> ka_drive cs k)"

definition silent_peer :: "keepalive_policy \<Rightarrow> duration \<Rightarrow> duration \<Rightarrow> 'e client \<Rightarrow> bool" where
  "silent_peer p i deadline c \<longleftrightarrow>
     \<not> closed c \<and> policy (keepalive c) = p \<and> read_interval (keepalive c) = Some i \<and> changed (keepalive c) = None
     \<and> ka_ping_timeout c = deadline \<and> force_reconnect c = None \<and> (\<forall>slot. pongs c slot = None)"

lemmas ka_eval = ka_step_def ka_at_top_def ka_at_awake_def ka_at_ping_def ka_waited_def ping_start_def ping_wait_cases
  ka_finish_def client_force_reconnect_def register_ping_def sink_write_def forget_ping_def notify_def signal_put_def

text \<open>One round from the top to the top: sleep, ping, wait for the pong in vain, count the miss.\<close>

lemma silent_steps:
  assumes "silent_peer p i deadline c1" "silent_peer p i deadline c2" "silent_peer p i deadline c3"
    "silent_peer p i deadline c4" "silent_peer p i deadline c5" "silent_peer p i deadline c6"
    "silent_peer p i deadline c7" "silent_peer p i deadline c8" and "ka_pc k = KaTop"
  shows "ka_drive (c1 # c2 # c3 # c4 # c5 # c6 # c7 # c8 # cs) k =
    (let (m, escalates) = count_miss (misses_allowed p) (missed k) (Err Timeout);
         (time, forced, k') = ka_drive cs (k\<lparr>ka_pc := KaTop, missed := m\<rparr>)
     in (i + deadline + time, escalates \<or> forced, k'))"
  using assms by (simp add: silent_peer_def ka_eval Let_def split_beta)

lemma silent_round:
  assumes "length round = 8" and "list_all (silent_peer p i deadline) round" and "ka_pc k = KaTop"
  shows "ka_drive (round @ cs) k =
    (let (m, escalates) = count_miss (misses_allowed p) (missed k) (Err Timeout);
         (time, forced, k') = ka_drive cs (k\<lparr>ka_pc := KaTop, missed := m\<rparr>)
     in (i + deadline + time, escalates \<or> forced, k'))"
proof -
  obtain c1 c2 c3 c4 c5 c6 c7 c8 where "round = [c1, c2, c3, c4, c5, c6, c7, c8]"
    using assms(1) by (auto simp: numeral_eq_Suc length_Suc_conv)
  with assms(2,3) silent_steps [of p i deadline c1 c2 c3 c4 c5 c6 c7 c8 k cs] show ?thesis by simp
qed

text \<open>Rounds that do not exhaust the tolerance, and the one that does.\<close>

lemma silent_rounds:
  assumes "length cs = 8 * n" and "list_all (silent_peer p i deadline) cs" and "ka_pc k = KaTop"
    and "unat (missed k) + n < unat (misses_allowed p)"
  shows "\<exists>m. ka_drive (cs @ ds) k =
      (let (time, forced, k') = ka_drive ds (k\<lparr>ka_pc := KaTop, missed := m\<rparr>)
       in (n * (i + deadline) + time, forced, k')) \<and> unat m = unat (missed k) + n"
  using assms
proof (induction n arbitrary: cs k)
  case 0
  then have "k\<lparr>ka_pc := KaTop, missed := missed k\<rparr> = k" by (cases k) simp
  then have "ka_drive ds (k\<lparr>ka_pc := KaTop, missed := missed k\<rparr>) = ka_drive ds k" by (rule arg_cong)
  with 0 show ?case by (intro exI [of _ "missed k"]) auto
next
  case (Suc n)
  let ?k = "k\<lparr>ka_pc := KaTop, missed := missed k + 1\<rparr>"
  have miss: "count_miss (misses_allowed p) (missed k) (Err Timeout) = (missed k + 1, False)"
    "unat (missed k + 1) = Suc (unat (missed k))"
    using Suc.prems(4) count_miss_below [of "missed k" "misses_allowed p"] by auto
  have "length (take 8 cs) = 8" "list_all (silent_peer p i deadline) (take 8 cs)"
    "list_all (silent_peer p i deadline) (drop 8 cs)" "length (drop 8 cs) = 8 * n"
    using Suc.prems by (auto simp: list_all_iff dest: in_set_takeD in_set_dropD)
  moreover from this obtain m where "ka_drive (drop 8 cs @ ds) ?k =
      (let (time, forced, k') = ka_drive ds (?k\<lparr>ka_pc := KaTop, missed := m\<rparr>)
       in (n * (i + deadline) + time, forced, k'))" "unat m = unat (missed ?k) + n"
    using Suc.IH [of "drop 8 cs" ?k] Suc.prems(4) miss(2) by auto
  ultimately show ?case
    using silent_round [of "take 8 cs" p i deadline k "drop 8 cs @ ds"] Suc.prems(3) miss
    by (intro exI [of _ m]) (simp add: split_beta Let_def flip: append_assoc)
qed

subsection \<open>Properties\<close>

text \<open>
  C21. A silent peer is given up on in time: when the transport accepts every ping and no pong arrives, the
  keepalive task asks for a redial after exactly the tolerated number of pings, having waited that many
  times the interval and the pong deadline, and not before; then it starts over with a clear counter.
\<close>

theorem silent_peer_detected_in_time:
  assumes "ka_pc k = KaTop" and "missed k = 0" and "list_all (silent_peer p i deadline) cs"
    and "length cs = 8 * n" and "n \<le> unat (misses_allowed p)"
  shows "ka_drive cs k =
    (n * (i + deadline), n = unat (misses_allowed p),
     k\<lparr>ka_pc := KaTop, missed := (if n = unat (misses_allowed p) then 0 else word_of_nat n)\<rparr>)"
proof (cases "n = unat (misses_allowed p)")
  case False
  then have "n < unat (misses_allowed p)" using assms(5) by simp
  with silent_rounds [OF assms(4,3,1), of "[]"] assms(2) obtain m where
    "ka_drive cs k = (n * (i + deadline), False, k\<lparr>ka_pc := KaTop, missed := m\<rparr>)" "unat m = n" by auto
  with False show ?thesis by auto
next
  case True
  then obtain r where n: "n = Suc r" using misses_allowed_pos [of p] gr0_implies_Suc by blast
  have parts: "list_all (silent_peer p i deadline) (take (8 * r) cs)" "length (take (8 * r) cs) = 8 * r"
    "list_all (silent_peer p i deadline) (drop (8 * r) cs)" "length (drop (8 * r) cs) = 8"
    using assms(3,4) n by (auto simp: list_all_iff dest: in_set_takeD in_set_dropD)
  obtain m where m: "ka_drive (take (8 * r) cs @ drop (8 * r) cs) k =
      (let (time, forced, k') = ka_drive (drop (8 * r) cs) (k\<lparr>ka_pc := KaTop, missed := m\<rparr>)
       in (r * (i + deadline) + time, forced, k'))" "unat m = r"
    using silent_rounds [OF parts(2,1) assms(1), of "drop (8 * r) cs"] assms(2) True n by auto
  have "count_miss (misses_allowed p) m (Err Timeout) = (0, True)"
    using count_miss_last [of m "misses_allowed p"] m(2) True n by simp
  with silent_round [OF parts(4,3), of "k\<lparr>ka_pc := KaTop, missed := m\<rparr>" "[]"] m
  have "ka_drive cs k = (Suc r * (i + deadline), True, k\<lparr>ka_pc := KaTop, missed := 0\<rparr>)" by simp
  with True n show ?thesis by simp
qed

theorem silent_peer_detected_in_time_witness:
  "let c = (new_client (with_keepalive (KeepaliveEnabled (every (from_millis 2))) (client_config_new (from_millis 3)))
       :: OCPP1_6Error client)
   in ka_drive (replicate 16 c) ka_start = (2 * (from_millis 2 + from_millis 3), True, ka_start)"
proof -
  let ?c = "new_client (with_keepalive (KeepaliveEnabled (every (from_millis 2))) (client_config_new (from_millis 3)))
    :: OCPP1_6Error client"
  have "silent_peer (every (from_millis 2)) (from_millis 2) (from_millis 3) ?c"
    by (simp add: silent_peer_def new_client_def with_keepalive_def client_config_new_def new_keepalive_state_def
        read_interval_def every_def default_keepalive_policy_def store_millis_def ka_ping_timeout_def
        from_millis_def as_millis_def notify_new_def oneshot_new_def signal_new_def)
  moreover have "unat (misses_allowed (every (from_millis 2))) = 2"
    by (simp add: misses_allowed_def every_def default_keepalive_policy_def)
  ultimately show ?thesis
    using silent_peer_detected_in_time [of ka_start "every (from_millis 2)" "from_millis 2" "from_millis 3" "replicate 16 ?c" 2]
    by (simp add: ka_start_def list_all_iff)
qed

end
