(* ===== verification/Connect.thy ===== *)
theory Connect
  imports Client_State
begin

text \<open>
  The WebSocket convenience layer (\<^verbatim>\<open>src/connect.rs\<close>): connection options and their defaults, the
  upgrade request, version negotiation, and the reconnectors. URL parsing, DNS, TCP, TLS, base64 and the
  HTTP upgrade belong to third-party crates and are the fields of \<open>network\<close>. \<open>'t\<close> stands for a TLS
  configuration and \<open>'r\<close> for a reconnector the caller supplies; the code only passes them on.
\<close>

record ('t, 'r) connect_options =
  username :: "string option"
  password :: "byte list option"
  opt_timeout :: "duration option"
  opt_reconnect :: reconnect_behavior
  tls_config :: "'t option"
  opt_reconnector :: "'r option"
  opt_keepalive :: keepalive_behavior

definition DEFAULT_TIMEOUT :: duration where
  "DEFAULT_TIMEOUT = from_secs 5"

definition default_connect_options :: "('t, 'r) connect_options" where
  "default_connect_options =
     \<lparr>username = None, password = None, opt_timeout = None, opt_reconnect = default_reconnect_behavior,
      tls_config = None, opt_reconnector = None, opt_keepalive = KeepaliveEnabled default_keepalive_policy\<rparr>"

text \<open>The \<open>Debug\<close> rendering, field by field.\<close>

datatype debug_value =
    DbgText string
  | DbgUser "string option"
  | DbgTimeout "duration option"
  | DbgReconnect reconnect_behavior
  | DbgMark "string option"
  | DbgKeepalive keepalive_behavior

definition connect_options_fmt :: "('t, 'r) connect_options \<Rightarrow> (string \<times> debug_value) list" where
  "connect_options_fmt o' =
     [(''username'', DbgUser (username o')),
      (''password'', DbgText (case password o' of Some _ \<Rightarrow> ''<redacted>'' | None \<Rightarrow> ''None'')),
      (''timeout'', DbgTimeout (opt_timeout o')),
      (''reconnect'', DbgReconnect (opt_reconnect o')),
      (''tls_config'', DbgMark (map_option (\<lambda>_. ''<set>'') (tls_config o'))),
      (''reconnector'', DbgMark (map_option (\<lambda>_. ''<custom>'') (opt_reconnector o'))),
      (''keepalive'', DbgKeepalive (opt_keepalive o'))]"

subsection \<open>Versions\<close>

datatype ocpp_version = V1_6 | V2_0_1 | V2_1

fun protocol :: "ocpp_version \<Rightarrow> string" where
  "protocol V1_6 = ''ocpp1.6''"
| "protocol V2_0_1 = ''ocpp2.0.1''"
| "protocol V2_1 = ''ocpp2.1''"

text \<open>The features a build was compiled with.\<close>

record features =
  ocpp_1_6 :: bool
  ocpp_2_0_1 :: bool
  ocpp_2_1 :: bool

definition all_compiled_in :: "features \<Rightarrow> ocpp_version list" where
  "all_compiled_in fs =
     (if ocpp_2_1 fs then [V2_1] else []) @ (if ocpp_2_0_1 fs then [V2_0_1] else [])
     @ (if ocpp_1_6 fs then [V1_6] else [])"

text \<open>Versions are ordered by age.\<close>

fun version_rank :: "ocpp_version \<Rightarrow> nat" where
  "version_rank V1_6 = 0"
| "version_rank V2_0_1 = 1"
| "version_rank V2_1 = 2"

lemma version_rank_inject: "version_rank v = version_rank w \<Longrightarrow> v = w"
  by (cases v; cases w) simp_all

instantiation ocpp_version :: linorder
begin

definition less_eq_ocpp_version :: "ocpp_version \<Rightarrow> ocpp_version \<Rightarrow> bool" where
  "less_eq_ocpp_version v w \<longleftrightarrow> version_rank v \<le> version_rank w"

definition less_ocpp_version :: "ocpp_version \<Rightarrow> ocpp_version \<Rightarrow> bool" where
  "less_ocpp_version v w \<longleftrightarrow> version_rank v < version_rank w"

instance
  by standard (auto simp: less_eq_ocpp_version_def less_ocpp_version_def intro: version_rank_inject)

end

lemma all_compiled_in_newest_first: "sorted_wrt (>) (all_compiled_in fs)"
  by (auto simp: all_compiled_in_def less_ocpp_version_def)

fun join :: "string \<Rightarrow> string list \<Rightarrow> string" where
  "join sep [] = []"
| "join sep [s] = s"
| "join sep (s # ss) = s @ sep @ join sep ss"

subsection \<open>Opening the socket\<close>

record 't network =
  open_tcp :: "string \<Rightarrow> (unit, string) result"            \<comment> \<open>parse the URL, resolve it, connect\<close>
  header_value :: "string \<Rightarrow> (string, string) result"      \<comment> \<open>whether a header value is legal\<close>
  base64 :: "byte list \<Rightarrow> string"
  upgrade :: "string \<Rightarrow> (string \<times> string) list \<Rightarrow> 't option \<Rightarrow> (string option, string) result"
    \<comment> \<open>the subprotocol the server answered with, if any\<close>

definition utf8_bytes :: "string \<Rightarrow> byte list" where
  "utf8_bytes s = map (\<lambda>c. word_of_nat (of_char c)) s"

definition basic_credentials :: "string \<Rightarrow> byte list option \<Rightarrow> byte list" where
  "basic_credentials user pass =
     utf8_bytes (user @ '':'') @ (case pass of Some p \<Rightarrow> p | None \<Rightarrow> [])"

definition upgrade_headers ::
  "'t network \<Rightarrow> string \<Rightarrow> ('t, 'r) connect_options option \<Rightarrow> ((string \<times> string) list, string) result" where
  "upgrade_headers net protocols options =
     (case header_value net protocols of
        Err e \<Rightarrow> Err e
      | Ok p \<Rightarrow>
          let base = [(''Sec-WebSocket-Protocol'', p)] in
          (case options of
             None \<Rightarrow> Ok base
           | Some o' \<Rightarrow>
               (case username o' of
                  None \<Rightarrow> Ok base
                | Some user \<Rightarrow>
                    (case header_value net (''Basic '' @ base64 net (basic_credentials user (password o'))) of
                       Err e \<Rightarrow> Err e
                     | Ok a \<Rightarrow> Ok (base @ [(''Authorization'', a)])))))"

definition setup_socket ::
  "'t network \<Rightarrow> string \<Rightarrow> string \<Rightarrow> ('t, 'r) connect_options option \<Rightarrow> (string, string) result" where
  "setup_socket net address protocols options =
     (case open_tcp net address of
        Err e \<Rightarrow> Err e
      | Ok _ \<Rightarrow>
          (case upgrade_headers net protocols options of
             Err e \<Rightarrow> Err e
           | Ok headers \<Rightarrow>
               (case upgrade net address headers (case options of None \<Rightarrow> None | Some o' \<Rightarrow> tls_config o') of
                  Err e \<Rightarrow> Err e
                | Ok None \<Rightarrow> Err ''No OCPP protocol negotiated''
                | Ok (Some p) \<Rightarrow> Ok p)))"

subsection \<open>Reconnectors and the client configuration\<close>

record 't websocket_reconnector =
  wr_address :: string
  wr_protocol :: string
  wr_username :: "string option"
  wr_password :: "byte list option"
  wr_tls_config :: "'t option"

datatype ('t, 'r) reconnector = SharedReconnector 'r | WebSocketReconnector "'t websocket_reconnector"

definition websocket_transport ::
  "'t network \<Rightarrow> string \<Rightarrow> ocpp_version \<Rightarrow> ('t, 'r) connect_options option \<Rightarrow> (unit, string) result" where
  "websocket_transport net address version options =
     (case setup_socket net address (protocol version) options of Ok _ \<Rightarrow> Ok () | Err e \<Rightarrow> Err e)"

text \<open>What a \<open>WebSocketReconnector\<close> dials with.\<close>

definition redial_options :: "'t websocket_reconnector \<Rightarrow> ('t, 'r) connect_options" where
  "redial_options w =
     \<lparr>username = wr_username w, password = wr_password w, opt_timeout = None,
      opt_reconnect = ReconnectDisabled, tls_config = wr_tls_config w, opt_reconnector = None,
      opt_keepalive = KeepaliveDisabled\<rparr>"

text \<open>
  \<open>dial_custom\<close> is the caller's own reconnector at work.
\<close>

fun reconnector_connect ::
  "'t network \<Rightarrow> ('r \<Rightarrow> (unit, string) result) \<Rightarrow> ('t, 'r) reconnector \<Rightarrow> (unit, string) result" where
  "reconnector_connect net dial_custom (SharedReconnector r) = dial_custom r"
| "reconnector_connect net dial_custom (WebSocketReconnector w) =
     (case setup_socket net (wr_address w) (wr_protocol w) (Some (redial_options w :: ('t, 'r) connect_options)) of
        Ok _ \<Rightarrow> Ok () | Err e \<Rightarrow> Err e)"

definition prepare ::
  "string \<Rightarrow> string \<Rightarrow> ('t, 'r) connect_options option \<Rightarrow> client_config \<times> ('t, 'r) reconnector option" where
  "prepare address proto options =
     (let defaults = default_connect_options :: ('t, 'r) connect_options;
          limit = (case options of None \<Rightarrow> DEFAULT_TIMEOUT
            | Some o' \<Rightarrow> (case opt_timeout o' of Some t \<Rightarrow> t | None \<Rightarrow> DEFAULT_TIMEOUT));
          pinging = (case options of Some o' \<Rightarrow> opt_keepalive o' | None \<Rightarrow> opt_keepalive defaults);
          behavior = (case options of Some o' \<Rightarrow> opt_reconnect o' | None \<Rightarrow> default_reconnect_behavior);
          user = Option.bind options username;
          pass = Option.bind options password;
          tls = Option.bind options tls_config;
          custom = Option.bind options opt_reconnector;
          config = with_keepalive pinging (client_config_new limit)
      in case behavior of
           ReconnectDisabled \<Rightarrow> (config, None)
         | ReconnectEnabled pol \<Rightarrow>
             (with_reconnect pol config,
              Some (case custom of
                 Some r \<Rightarrow> SharedReconnector r
               | None \<Rightarrow> WebSocketReconnector
                   \<lparr>wr_address = address, wr_protocol = proto, wr_username = user, wr_password = pass,
                    wr_tls_config = tls\<rparr>)))"

subsection \<open>Connecting\<close>

text \<open>
  A connected client: the version it speaks, its configuration and its reconnector. \<open>connect_version\<close> is
  the body shared by \<open>connect_1_6\<close>, \<open>connect_2_0_1\<close> and \<open>connect_2_1\<close>; they differ in the version.
\<close>

record ('t, 'r) connected =
  conn_version :: ocpp_version
  conn_config :: client_config
  conn_reconnector :: "('t, 'r) reconnector option"

definition connect_version ::
  "'t network \<Rightarrow> ocpp_version \<Rightarrow> string \<Rightarrow> ('t, 'r) connect_options option \<Rightarrow> (('t, 'r) connected, string) result" where
  "connect_version net version address options =
     (case prepare address (protocol version) options of (config, reconnector) \<Rightarrow>
       (case setup_socket net address (protocol version) options of
          Err e \<Rightarrow> Err e
        | Ok _ \<Rightarrow> Ok \<lparr>conn_version = version, conn_config = config, conn_reconnector = reconnector\<rparr>))"

definition connect_1_6 :: "'t network \<Rightarrow> string \<Rightarrow> ('t, 'r) connect_options option \<Rightarrow> (('t, 'r) connected, string) result" where
  "connect_1_6 net = connect_version net V1_6"

definition connect_2_0_1 :: "'t network \<Rightarrow> string \<Rightarrow> ('t, 'r) connect_options option \<Rightarrow> (('t, 'r) connected, string) result" where
  "connect_2_0_1 net = connect_version net V2_0_1"

definition connect_2_1 :: "'t network \<Rightarrow> string \<Rightarrow> ('t, 'r) connect_options option \<Rightarrow> (('t, 'r) connected, string) result" where
  "connect_2_1 net = connect_version net V2_1"

text \<open>
  The client a protocol string selects; \<open>None\<close> is the arm the code marks \<open>unreachable!\<close>, a panic.
\<close>

definition client_for :: "string \<Rightarrow> ocpp_version option" where
  "client_for proto =
     (if proto = ''ocpp1.6'' then Some V1_6 else if proto = ''ocpp2.0.1'' then Some V2_0_1
      else if proto = ''ocpp2.1'' then Some V2_1 else None)"

text \<open>\<open>None\<close> is the panic; the result is what the function returns otherwise.\<close>

definition connect ::
  "'t network \<Rightarrow> features \<Rightarrow> string \<Rightarrow> ocpp_version list option \<Rightarrow> ('t, 'r) connect_options option \<Rightarrow>
   (('t, 'r) connected, string) result option" where
  "connect net fs address versions options =
     (let versions = (case versions of Some vs \<Rightarrow> vs | None \<Rightarrow> all_compiled_in fs);
          offered = join '', '' (map protocol versions)
      in case setup_socket net address offered options of
           Err e \<Rightarrow> Some (Err e)
         | Ok negotiated \<Rightarrow>
             (case find (\<lambda>v. protocol v = negotiated) versions of
                None \<Rightarrow> Some (Err (''Server negotiated unsupported protocol: '' @ negotiated))
              | Some v \<Rightarrow>
                  let proto = protocol v; (config, reconnector) = prepare address proto options
                  in map_option (\<lambda>version. Ok \<lparr>conn_version = version, conn_config = config,
                       conn_reconnector = reconnector\<rparr>) (client_for proto)))"

lemma client_for_protocol [simp]: "client_for (protocol v) = Some v"
  by (cases v) (simp_all add: client_for_def)

lemma protocol_inject: "protocol v = protocol w \<Longrightarrow> v = w"
  by (metis client_for_protocol option.inject)

text \<open>Opening a socket reads the credentials and the TLS configuration of the options and nothing else.\<close>

lemma setup_socket_reads:
  assumes "Option.bind o1 username = Option.bind o2 username"
    and "Option.bind o1 password = Option.bind o2 password"
    and "Option.bind o1 tls_config = Option.bind o2 tls_config"
  shows "setup_socket net address protocols o1 = setup_socket net address protocols o2"
proof -
  have headers: "upgrade_headers net protocols opts =
      (case header_value net protocols of
         Err e \<Rightarrow> Err e
       | Ok p \<Rightarrow>
           (case Option.bind opts username of
              None \<Rightarrow> Ok [(''Sec-WebSocket-Protocol'', p)]
            | Some user \<Rightarrow>
                (case header_value net (''Basic '' @ base64 net (basic_credentials user (Option.bind opts password))) of
                   Err e \<Rightarrow> Err e
                 | Ok a \<Rightarrow> Ok ([(''Sec-WebSocket-Protocol'', p)] @ [(''Authorization'', a)]))))"
    for opts :: "('a, 'x) connect_options option"
    by (simp add: upgrade_headers_def Let_def split: option.split result.split)
  have tls: "(case opts of None \<Rightarrow> None | Some o' \<Rightarrow> tls_config o') = Option.bind opts tls_config"
    for opts :: "('a, 'x) connect_options option"
    by (simp split: option.split)
  show ?thesis unfolding setup_socket_def headers tls assms ..
qed

lemma prepare_default: "prepare address proto (Some default_connect_options) = prepare address proto None"
  by (simp add: prepare_def default_connect_options_def)

lemma disabled_reconnect_wins:
  "opt_reconnect o' = ReconnectDisabled \<Longrightarrow>
     snd (prepare address proto (Some o')) = None \<and> \<not> cfg_reconnector (fst (prepare address proto (Some o')))"
  by (simp add: prepare_def Let_def with_keepalive_def client_config_new_def)

lemma debug_hides_password:
  "connect_options_fmt (o'\<lparr>password := Some p\<rparr>) = connect_options_fmt (o'\<lparr>password := Some q\<rparr>)"
  by (simp add: connect_options_fmt_def)

text \<open>A network on which every server accepts the request and picks OCPP 1.6.\<close>

definition plain_network :: "unit network" where
  "plain_network = \<lparr>open_tcp = (\<lambda>_. Ok ()), header_value = Ok, base64 = map (\<lambda>b. char_of (unat b)),
     upgrade = (\<lambda>_ _ _. Ok (Some ''ocpp1.6''))\<rparr>"

subsection \<open>Properties\<close>

text \<open>
  C37. Negotiation is sound and never panics: \<open>connect\<close> always returns, with an error when the server
  picks nothing or something that was not offered, and otherwise with a client for the one offered
  version whose protocol the server picked.
\<close>

theorem connect_negotiates:
  "(\<exists>r. connect net fs address versions options = Some r
     \<and> (\<forall>conn. r = Ok conn \<longrightarrow>
          conn_version conn \<in> set (case versions of Some vs \<Rightarrow> vs | None \<Rightarrow> all_compiled_in fs)
          \<and> setup_socket net address
              (join '', '' (map protocol (case versions of Some vs \<Rightarrow> vs | None \<Rightarrow> all_compiled_in fs))) options
            = Ok (protocol (conn_version conn))
          \<and> (conn_config conn, conn_reconnector conn) = prepare address (protocol (conn_version conn)) options))"
  by (auto simp: connect_def Let_def find_Some_iff split: result.splits option.splits prod.splits dest: nth_mem)

theorem connect_negotiates_witness:
  "\<exists>conn. connect plain_network \<lparr>ocpp_1_6 = True, ocpp_2_0_1 = True, ocpp_2_1 = False\<rparr> ''ws://csms'' None
       (None :: (unit, unit) connect_options option) = Some (Ok conn)
     \<and> conn_version conn \<in> {V2_0_1, V1_6} \<and> protocol (conn_version conn) = ''ocpp1.6''"
proof -
  let ?fs = "\<lparr>ocpp_1_6 = True, ocpp_2_0_1 = True, ocpp_2_1 = False\<rparr>"
  let ?none = "None :: (unit, unit) connect_options option"
  have dial: "setup_socket plain_network ''ws://csms'' offered ?none = Ok ''ocpp1.6''" for offered
    by (simp add: setup_socket_def upgrade_headers_def plain_network_def Let_def)
  then obtain conn where "connect plain_network ?fs ''ws://csms'' None ?none = Some (Ok conn)"
    by (auto simp: connect_def all_compiled_in_def Let_def client_for_def split_beta)
  with connect_negotiates [of plain_network ?fs "''ws://csms''" None ?none] show ?thesis
    by (auto simp: dial all_compiled_in_def)
qed

text \<open>
  A redial repeats the first dial: the reconnector that \<open>connect\<close> and the version-specific entry
  points install when the caller brings none opens the same address with the same single protocol, the
  same \<open>Authorization\<close> header and the same TLS configuration, so it succeeds exactly when opening the
  first connection does; and a client has a reconnector exactly when reconnecting is enabled.
\<close>

lemma redial_repeats_the_first_dial:
  fixes options :: "('t, 'r) connect_options option" and dial_custom :: "'r \<Rightarrow> (unit, string) result"
  assumes "prepare address proto options = (config, rec)"
  shows "(rec = Some (WebSocketReconnector w) \<longrightarrow>
      reconnector_connect net dial_custom (WebSocketReconnector w) =
        (case setup_socket net address proto options of Ok _ \<Rightarrow> Ok () | Err e \<Rightarrow> Err e))
    \<and> (cfg_reconnector config \<longleftrightarrow> rec \<noteq> None)"
proof (intro conjI impI)
  assume "rec = Some (WebSocketReconnector w)"
  with assms have w: "w = \<lparr>wr_address = address, wr_protocol = proto, wr_username = Option.bind options username,
      wr_password = Option.bind options password, wr_tls_config = Option.bind options tls_config\<rparr>"
    by (auto simp: prepare_def Let_def split: reconnect_behavior.splits option.splits)
  have "setup_socket net address proto (Some (redial_options w :: ('t, 'r) connect_options))
      = setup_socket net address proto options"
    by (rule setup_socket_reads) (simp_all add: w redial_options_def)
  then show "reconnector_connect net dial_custom (WebSocketReconnector w) =
      (case setup_socket net address proto options of Ok _ \<Rightarrow> Ok () | Err e \<Rightarrow> Err e)"
    by (simp add: w)
next
  show "cfg_reconnector config \<longleftrightarrow> rec \<noteq> None"
    using assms by (auto simp: prepare_def Let_def with_keepalive_def client_config_new_def with_reconnect_def
        split: reconnect_behavior.splits)
qed

lemma redial_repeats_the_first_dial_example:
  "\<exists>w. snd (prepare ''ws://csms'' ''ocpp1.6'' (None :: (unit, unit) connect_options option))
       = Some (WebSocketReconnector w)
     \<and> reconnector_connect plain_network (\<lambda>_ :: unit. Err ''unused'') (WebSocketReconnector w) = Ok ()"
proof -
  obtain config rec where prep: "prepare ''ws://csms'' ''ocpp1.6'' (None :: (unit, unit) connect_options option) = (config, rec)"
    by fastforce
  then obtain w where w: "rec = Some (WebSocketReconnector w)"
    by (auto simp: prepare_def Let_def default_reconnect_behavior_def)
  have "setup_socket plain_network ''ws://csms'' ''ocpp1.6'' (None :: (unit, unit) connect_options option) = Ok ''ocpp1.6''"
    by (simp add: setup_socket_def upgrade_headers_def plain_network_def Let_def)
  with redial_repeats_the_first_dial [OF prep, of w plain_network "\<lambda>_. Err ''unused''"] w prep
  show ?thesis by simp
qed

end
