(* ===== verification/Wait_For.thy ===== *)
theory Wait_For
  imports Handlers
begin

text \<open>
  \<open>wait_for\<close> (\<^verbatim>\<open>src/client.rs\<close>, test builds only) as a task, await by await: it registers a channel like \<open>on\<close>,
  receives from it under the client's timeout, runs the callback on the one CALL it took, answers it and
  takes its registration out again. Other tasks run between any two of its steps.
\<close>

datatype 'e wait_pc =
    WChecking
  | WParked
  | WCalling string json
  | WReplying string json "'e handler_outcome"
  | WLeaving "(json, 'e cerror) result"
  | WReturned "(json, 'e cerror) result"

datatype 'e wait_input = WProceed | WTimer | WCallback "'e handler_outcome" | WSink sink_outcome

text \<open>The registration, the same as in \<open>on\<close>: a fresh channel takes the action over from whoever had it.\<close>

definition wait_for_start :: "string \<Rightarrow> 'e client \<Rightarrow> (nat \<times> 'e wait_pc) \<times> 'e client" where
  "wait_for_start action c = (case client_on action c of (chan, c') \<Rightarrow> ((chan, WChecking), c'))"

text \<open>
  \<open>with_timeout\<close> polls the receive first, so the timer only ends it where the receive is pending: at its
  signal while that is not latched, or at the lock of the queue while another task is inside it.
\<close>

fun wait_for_step ::
  "'e protocol_error \<Rightarrow> codec \<Rightarrow> payload_types \<Rightarrow> string \<Rightarrow> nat \<Rightarrow> 'e wait_input \<Rightarrow>
   'e client \<Rightarrow> 'e wait_pc \<Rightarrow> ('e client \<times> 'e wait_pc) option" where
  "wait_for_step P C T action chan WProceed c WChecking =
     (case chan_check (call_chans c chan) of
        (Ready (Some (message_id, payload)), ch) \<Rightarrow>
          Some (c\<lparr>call_chans := (call_chans c)(chan := ch)\<rparr>,
            case request_check T action payload of
              Ok _ \<Rightarrow> WCalling message_id payload
            | Err e \<Rightarrow> WLeaving (Err (Decode e)))
      | (Ready None, ch) \<Rightarrow> Some (c\<lparr>call_chans := (call_chans c)(chan := ch)\<rparr>, WLeaving (Err Closed))
      | (Park, ch) \<Rightarrow> Some (c\<lparr>call_chans := (call_chans c)(chan := ch)\<rparr>, WParked))"
| "wait_for_step P C T action chan WTimer c WChecking = Some (c, WLeaving (Err Timeout))"
| "wait_for_step P C T action chan WProceed c WParked =
     (case signal_poll (wakeup (call_chans c chan)) of
        (Some _, w) \<Rightarrow>
          Some (c\<lparr>call_chans := (call_chans c)(chan := (call_chans c chan)\<lparr>wakeup := w\<rparr>)\<rparr>, WChecking)
      | (None, _) \<Rightarrow> None)"
| "wait_for_step P C T action chan WTimer c WParked =
     (if wakeup (call_chans c chan) = None then Some (c, WLeaving (Err Timeout)) else None)"
| "wait_for_step P C T action chan (WCallback response) c (WCalling message_id payload) =
     Some (c, WReplying message_id payload response)"
| "wait_for_step P C T action chan (WSink r) c (WReplying message_id payload response) =
     Some (do_send_response P C response message_id r c, WLeaving (Ok payload))"
| "wait_for_step P C T action chan WProceed c (WLeaving outcome) =
     Some (unregister_own action chan c, WReturned outcome)"
| "wait_for_step P C T action chan _ c _ = None"

fun wait_for_run ::
  "'e protocol_error \<Rightarrow> codec \<Rightarrow> payload_types \<Rightarrow> string \<Rightarrow> nat \<Rightarrow> 'e wait_input list \<Rightarrow>
   'e client \<times> 'e wait_pc \<Rightarrow> ('e client \<times> 'e wait_pc) option" where
  "wait_for_run P C T action chan [] s = Some s"
| "wait_for_run P C T action chan (i # is) (c, pc) =
     (case wait_for_step P C T action chan i c pc of
        Some s \<Rightarrow> wait_for_run P C T action chan is s | None \<Rightarrow> None)"

fun_cases wait_for_step_SomeE: "wait_for_step P C T action chan inp c pc = Some r"

subsection \<open>On its own\<close>

text \<open>With nothing running beside it the task does what \<open>wait_for_finish\<close> says, for each way out.\<close>

lemma wait_for_answers:
  assumes "queue (call_chans c chan) = (mid, payload) # rest" and "request_check T action payload = Ok ()"
    and "d = c\<lparr>call_chans := (call_chans c)(chan := (call_chans c chan)\<lparr>queue := rest\<rparr>)\<rparr>"
  shows "wait_for_run P C T action chan [WProceed, WCallback response, WSink r, WProceed] (c, WChecking) =
    (case wait_for_finish P C T action chan (Received mid payload) response r d of
       (res, c') \<Rightarrow> Some (c', WReturned res))"
  using assms by (simp add: chan_check_def)

lemma wait_for_superseded:
  assumes "queue (call_chans c chan) = []" and "is_closed_chan (call_chans c chan)"
  shows "wait_for_run P C T action chan [WProceed, WProceed] (c, WChecking) =
    (case wait_for_finish P C T action chan Superseded response r c of (res, c') \<Rightarrow> Some (c', WReturned res))"
  using assms by (simp add: chan_check_def unregister_own_def)

lemma wait_for_expires:
  assumes "wakeup (call_chans c chan) = None"
  shows "wait_for_run P C T action chan [WTimer, WProceed] (c, WParked) =
    (case wait_for_finish P C T action chan Expired response r c of (res, c') \<Rightarrow> Some (c', WReturned res))"
  using assms by simp

subsection \<open>Among other tasks\<close>

text \<open>The input that takes the task towards its return once its timer has fired.\<close>

fun wait_for_next :: "'e client \<Rightarrow> nat \<Rightarrow> 'e handler_outcome \<Rightarrow> sink_outcome \<Rightarrow> 'e wait_pc \<Rightarrow> 'e wait_input" where
  "wait_for_next c chan response r WParked = (if wakeup (call_chans c chan) = None then WTimer else WProceed)"
| "wait_for_next c chan response r WChecking = WTimer"
| "wait_for_next c chan response r (WCalling _ _) = WCallback response"
| "wait_for_next c chan response r (WReplying _ _ _) = WSink r"
| "wait_for_next c chan response r _ = WProceed"

fun wait_for_measure :: "'e wait_pc \<Rightarrow> nat" where
  "wait_for_measure WParked = 3"
| "wait_for_measure (WCalling _ _) = 3"
| "wait_for_measure (WReplying _ _ _) = 2"
| "wait_for_measure WChecking = 2"
| "wait_for_measure (WLeaving _) = 1"
| "wait_for_measure (WReturned _) = 0"

lemma wait_for_progress:
  assumes "wait_for_measure pc \<noteq> 0"
  shows "\<exists>c' pc'. wait_for_step P C T action chan (wait_for_next c chan response r pc) c pc = Some (c', pc')
    \<and> wait_for_measure pc' < wait_for_measure pc"
  using assms by (cases pc) (auto simp: signal_poll_def split: option.split)

text \<open>On the way out the task's own registration is gone and every other is as it was.\<close>

lemma wait_for_leaves_no_registration:
  assumes "wait_for_step P C T action chan inp c pc = Some (c', WReturned res)"
  shows "request_senders c' action \<noteq> Some chan
    \<and> (request_senders c action \<noteq> Some chan \<longrightarrow> request_senders c' = request_senders c)
    \<and> (\<forall>a. a \<noteq> action \<longrightarrow> request_senders c' a = request_senders c a)"
  using assms
  by (rule wait_for_step_SomeE) (auto simp: unregister_own_def split: recv_outcome.splits option.splits
      prod.splits result.splits if_splits)

lemma wait_for_registered_until_return:
  assumes "wait_for_step P C T action chan inp c pc = Some (c', pc')" and "\<And>res. pc' \<noteq> WReturned res"
  shows "request_senders c' = request_senders c"
  using assms
  by (elim wait_for_step_SomeE) (auto simp: do_send_response_wire split: recv_outcome.splits option.splits
      prod.splits result.splits if_splits)

text \<open>
  A second CALL for the action that arrives while the callback runs is queued on the task's channel, which
  the task does not look at again: the CALL is neither handled nor answered.
\<close>

lemma wait_for_forgets_second_call:
  assumes "request_senders c action = Some chan" and "queue (call_chans c chan) = [(mid, payload)]"
    and "request_check T action payload = Ok ()"
    and "from_str C frame = Some (call_value (RawCall MESSAGE_TYPE_CALL mid2 action payload2))"
  shows "\<exists>c1 pc1 c2. wait_for_step P C T action chan WProceed c WChecking = Some (c1, pc1)
    \<and> wait_for_run P C T action chan [WCallback response, WSink r, WProceed]
        (handle_frame P C frame (Ok ()) c1, pc1) = Some (c2, WReturned (Ok payload))
    \<and> queue (call_chans c2 chan) = [(mid2, payload2)] \<and> request_senders c2 action = None
    \<and> wire c2 = wire (do_send_response P C response mid r c)"
  using assms
  by (simp add: chan_check_def handle_frame_def route_frame_call do_send_response_wire unregister_own_def
      split: option.split)

end
