(* ===== verification/Actions.thy ===== *)
theory Actions
  imports Wait_For
begin

text \<open>
  Typed actions: the \<open>Action\<close> and \<open>SendAction\<close> traits (\<^verbatim>\<open>src/action.rs\<close>) and what the per-version macros
  expand to (\<^verbatim>\<open>src/ocpp_*/actions.rs\<close>): a marker type with its wire name and payload types, and
  \<open>send_x\<close>, \<open>on_x\<close> and \<open>wait_for_x\<close> methods that call the generic client operations with that name. The
  payload types themselves come from \<open>ocpp-types\<close>; an entry keeps their names.
\<close>

datatype action_entry =
  Action (marker: string) (request_type: string) (response_type: string) (action_name: string)
    (send_method: string) (on_method: string) (wait_for_method: string)

datatype send_entry =
  SendAction (send_marker: string) (payload_type: string) (send_name: string)
    (notify_method: string) (on_notify_method: string)

text \<open>The bodies of the generated methods.\<close>

definition typed_send ::
  "codec \<Rightarrow> action_entry \<Rightarrow> uuid \<Rightarrow> (json, string) result \<Rightarrow> 'e client \<Rightarrow> 'e call_pc" where
  "typed_send C a message_id request c = call_start C message_id (action_name a) request c"

definition typed_on :: "action_entry \<Rightarrow> 'e client \<Rightarrow> nat \<times> 'e client" where
  "typed_on a c = client_on (action_name a) c"

definition typed_wait_for :: "action_entry \<Rightarrow> 'e client \<Rightarrow> (nat \<times> 'e wait_pc) \<times> 'e client" where
  "typed_wait_for a c = wait_for_start (action_name a) c"

definition typed_notify ::
  "codec \<Rightarrow> send_entry \<Rightarrow> uuid \<Rightarrow> (json, string) result \<Rightarrow> 'e client \<Rightarrow> 'e send_pc" where
  "typed_notify C a message_id payload c = send_start C message_id (send_name a) payload c"

definition typed_on_notification :: "send_entry \<Rightarrow> 'e client \<Rightarrow> nat \<times> 'e client" where
  "typed_on_notification a c = client_on_notification (send_name a) c"

subsection \<open>Naming\<close>

definition lower :: "char \<Rightarrow> char" where
  "lower c = (let n = of_char c :: nat in if 65 \<le> n \<and> n \<le> 90 then char_of (n + 32) else c)"

text \<open>
  The convention every entry follows: the marker is the wire name, the payload types add \<open>Request\<close> and
  \<open>Response\<close> to it, and the three methods are \<open>send_\<close>, \<open>on_\<close> and \<open>wait_for_\<close> in front of one suffix that is
  the wire name in lower case with underscores.
\<close>

definition well_named :: "action_entry \<Rightarrow> bool" where
  "well_named a \<longleftrightarrow>
     (let name = action_name a; suffix = drop 5 (send_method a) in
      marker a = name \<and> request_type a = name @ ''Request'' \<and> response_type a = name @ ''Response''
      \<and> send_method a = ''send_'' @ suffix \<and> on_method a = ''on_'' @ suffix
      \<and> wait_for_method a = ''wait_for_'' @ suffix
      \<and> filter (\<lambda>c. c \<noteq> CHR ''_'') suffix = map lower name)"

lemma well_named_send_inj:
  assumes "well_named a" and "well_named b" and "send_method a = send_method b"
  shows "map lower (action_name a) = map lower (action_name b)"
  using assms by (metis well_named_def)

end
