(* ===== verification/Actions_1_6.thy ===== *)
theory Actions_1_6
  imports Actions
begin

text \<open>
  The 39 CALL actions of OCPP 1.6 (\<^verbatim>\<open>src/ocpp_1_6/actions.rs\<close>), one entry per macro
  invocation and in their order. The table is cut into blocks only to keep the terms small.
\<close>

definition actions_1_6_a :: "action_entry list" where
  "actions_1_6_a =
     [Action ''Authorize'' ''AuthorizeRequest'' ''AuthorizeResponse'' ''Authorize'' ''send_authorize'' ''on_authorize'' ''wait_for_authorize'',
      Action ''BootNotification'' ''BootNotificationRequest'' ''BootNotificationResponse'' ''BootNotification'' ''send_boot_notification'' ''on_boot_notification'' ''wait_for_boot_notification'',
      Action ''CancelReservation'' ''CancelReservationRequest'' ''CancelReservationResponse'' ''CancelReservation'' ''send_cancel_reservation'' ''on_cancel_reservation'' ''wait_for_cancel_reservation'',
      Action ''CertificateSigned'' ''CertificateSignedRequest'' ''CertificateSignedResponse'' ''CertificateSigned'' ''send_certificate_signed'' ''on_certificate_signed'' ''wait_for_certificate_signed'',
      Action ''ChangeAvailability'' ''ChangeAvailabilityRequest'' ''ChangeAvailabilityResponse'' ''ChangeAvailability'' ''send_change_availability'' ''on_change_availability'' ''wait_for_change_availability'',
      Action ''ChangeConfiguration'' ''ChangeConfigurationRequest'' ''ChangeConfigurationResponse'' ''ChangeConfiguration'' ''send_change_configuration'' ''on_change_configuration'' ''wait_for_change_configuration'',
      Action ''ClearCache'' ''ClearCacheRequest'' ''ClearCacheResponse'' ''ClearCache'' ''send_clear_cache'' ''on_clear_cache'' ''wait_for_clear_cache'',
      Action ''ClearChargingProfile'' ''ClearChargingProfileRequest'' ''ClearChargingProfileResponse'' ''ClearChargingProfile'' ''send_clear_charging_profile'' ''on_clear_charging_profile'' ''wait_for_clear_charging_profile'',
      Action ''DataTransfer'' ''DataTransferRequest'' ''DataTransferResponse'' ''DataTransfer'' ''send_data_transfer'' ''on_data_transfer'' ''wait_for_data_transfer'',
      Action ''DeleteCertificate'' ''DeleteCertificateRequest'' ''DeleteCertificateResponse'' ''DeleteCertificate'' ''send_delete_certificate'' ''on_delete_certificate'' ''wait_for_delete_certificate'',
      Action ''DiagnosticsStatusNotification'' ''DiagnosticsStatusNotificationRequest'' ''DiagnosticsStatusNotificationResponse'' ''DiagnosticsStatusNotification'' ''send_diagnostics_status_notification'' ''on_diagnostics_status_notification'' ''wait_for_diagnostics_status_notification'',
      Action ''ExtendedTriggerMessage'' ''ExtendedTriggerMessageRequest'' ''ExtendedTriggerMessageResponse'' ''ExtendedTriggerMessage'' ''send_extended_trigger_message'' ''on_extended_trigger_message'' ''wait_for_extended_trigger_message'',
      Action ''FirmwareStatusNotification'' ''FirmwareStatusNotificationRequest'' ''FirmwareStatusNotificationResponse'' ''FirmwareStatusNotification'' ''send_firmware_status_notification'' ''on_firmware_status_notification'' ''wait_for_firmware_status_notification'',
      Action ''GetCompositeSchedule'' ''GetCompositeScheduleRequest'' ''GetCompositeScheduleResponse'' ''GetCompositeSchedule'' ''send_get_composite_schedule'' ''on_get_composite_schedule'' ''wait_for_get_composite_schedule'',
      Action ''GetConfiguration'' ''GetConfigurationRequest'' ''GetConfigurationResponse'' ''GetConfiguration'' ''send_get_configuration'' ''on_get_configuration'' ''wait_for_get_configuration'',
      Action ''GetDiagnostics'' ''GetDiagnosticsRequest'' ''GetDiagnosticsResponse'' ''GetDiagnostics'' ''send_get_diagnostics'' ''on_get_diagnostics'' ''wait_for_get_diagnostics'']"

definition actions_1_6_b :: "action_entry list" where
  "actions_1_6_b =
     [Action ''GetInstalledCertificateIds'' ''GetInstalledCertificateIdsRequest'' ''GetInstalledCertificateIdsResponse'' ''GetInstalledCertificateIds'' ''send_get_installed_certificate_ids'' ''on_get_installed_certificate_ids'' ''wait_for_get_installed_certificate_ids'',
      Action ''GetLocalListVersion'' ''GetLocalListVersionRequest'' ''GetLocalListVersionResponse'' ''GetLocalListVersion'' ''send_get_local_list_version'' ''on_get_local_list_version'' ''wait_for_get_local_list_version'',
      Action ''GetLog'' ''GetLogRequest'' ''GetLogResponse'' ''GetLog'' ''send_get_log'' ''on_get_log'' ''wait_for_get_log'',
      Action ''Heartbeat'' ''HeartbeatRequest'' ''HeartbeatResponse'' ''Heartbeat'' ''send_heartbeat'' ''on_heartbeat'' ''wait_for_heartbeat'',
      Action ''InstallCertificate'' ''InstallCertificateRequest'' ''InstallCertificateResponse'' ''InstallCertificate'' ''send_install_certificate'' ''on_install_certificate'' ''wait_for_install_certificate'',
      Action ''LogStatusNotification'' ''LogStatusNotificationRequest'' ''LogStatusNotificationResponse'' ''LogStatusNotification'' ''send_log_status_notification'' ''on_log_status_notification'' ''wait_for_log_status_notification'',
      Action ''MeterValues'' ''MeterValuesRequest'' ''MeterValuesResponse'' ''MeterValues'' ''send_meter_values'' ''on_meter_values'' ''wait_for_meter_values'',
      Action ''RemoteStartTransaction'' ''RemoteStartTransactionRequest'' ''RemoteStartTransactionResponse'' ''RemoteStartTransaction'' ''send_remote_start_transaction'' ''on_remote_start_transaction'' ''wait_for_remote_start_transaction'',
      Action ''RemoteStopTransaction'' ''RemoteStopTransactionRequest'' ''RemoteStopTransactionResponse'' ''RemoteStopTransaction'' ''send_remote_stop_transaction'' ''on_remote_stop_transaction'' ''wait_for_remote_stop_transaction'',
      Action ''ReserveNow'' ''ReserveNowRequest'' ''ReserveNowResponse'' ''ReserveNow'' ''send_reserve_now'' ''on_reserve_now'' ''wait_for_reserve_now'',
      Action ''Reset'' ''ResetRequest'' ''ResetResponse'' ''Reset'' ''send_reset'' ''on_reset'' ''wait_for_reset'',
      Action ''SecurityEventNotification'' ''SecurityEventNotificationRequest'' ''SecurityEventNotificationResponse'' ''SecurityEventNotification'' ''send_security_event_notification'' ''on_security_event_notification'' ''wait_for_security_event_notification'',
      Action ''SendLocalList'' ''SendLocalListRequest'' ''SendLocalListResponse'' ''SendLocalList'' ''send_send_local_list'' ''on_send_local_list'' ''wait_for_send_local_list'',
      Action ''SetChargingProfile'' ''SetChargingProfileRequest'' ''SetChargingProfileResponse'' ''SetChargingProfile'' ''send_set_charging_profile'' ''on_set_charging_profile'' ''wait_for_set_charging_profile'',
      Action ''SignCertificate'' ''SignCertificateRequest'' ''SignCertificateResponse'' ''SignCertificate'' ''send_sign_certificate'' ''on_sign_certificate'' ''wait_for_sign_certificate'',
      Action ''SignedFirmwareStatusNotification'' ''SignedFirmwareStatusNotificationRequest'' ''SignedFirmwareStatusNotificationResponse'' ''SignedFirmwareStatusNotification'' ''send_signed_firmware_status_notification'' ''on_signed_firmware_status_notification'' ''wait_for_signed_firmware_status_notification'']"

definition actions_1_6_c :: "action_entry list" where
  "actions_1_6_c =
     [Action ''SignedUpdateFirmware'' ''SignedUpdateFirmwareRequest'' ''SignedUpdateFirmwareResponse'' ''SignedUpdateFirmware'' ''send_signed_update_firmware'' ''on_signed_update_firmware'' ''wait_for_signed_update_firmware'',
      Action ''StartTransaction'' ''StartTransactionRequest'' ''StartTransactionResponse'' ''StartTransaction'' ''send_start_transaction'' ''on_start_transaction'' ''wait_for_start_transaction'',
      Action ''StatusNotification'' ''StatusNotificationRequest'' ''StatusNotificationResponse'' ''StatusNotification'' ''send_status_notification'' ''on_status_notification'' ''wait_for_status_notification'',
      Action ''StopTransaction'' ''StopTransactionRequest'' ''StopTransactionResponse'' ''StopTransaction'' ''send_stop_transaction'' ''on_stop_transaction'' ''wait_for_stop_transaction'',
      Action ''TriggerMessage'' ''TriggerMessageRequest'' ''TriggerMessageResponse'' ''TriggerMessage'' ''send_trigger_message'' ''on_trigger_message'' ''wait_for_trigger_message'',
      Action ''UnlockConnector'' ''UnlockConnectorRequest'' ''UnlockConnectorResponse'' ''UnlockConnector'' ''send_unlock_connector'' ''on_unlock_connector'' ''wait_for_unlock_connector'',
      Action ''UpdateFirmware'' ''UpdateFirmwareRequest'' ''UpdateFirmwareResponse'' ''UpdateFirmware'' ''send_update_firmware'' ''on_update_firmware'' ''wait_for_update_firmware'']"

definition actions_1_6 :: "action_entry list" where
  "actions_1_6 = actions_1_6_a @ actions_1_6_b @ actions_1_6_c"

lemma actions_1_6_a_named [table_simps]: "list_all well_named actions_1_6_a"
  by code_simp

lemma actions_1_6_a_names [table_simps]:
  "map action_name actions_1_6_a = [''Authorize'', ''BootNotification'', ''CancelReservation'', ''CertificateSigned'',
      ''ChangeAvailability'', ''ChangeConfiguration'', ''ClearCache'', ''ClearChargingProfile'',
      ''DataTransfer'', ''DeleteCertificate'', ''DiagnosticsStatusNotification'', ''ExtendedTriggerMessage'',
      ''FirmwareStatusNotification'', ''GetCompositeSchedule'', ''GetConfiguration'', ''GetDiagnostics'']"
  by (simp add: actions_1_6_a_def)

lemma actions_1_6_b_named [table_simps]: "list_all well_named actions_1_6_b"
  by code_simp

lemma actions_1_6_b_names [table_simps]:
  "map action_name actions_1_6_b = [''GetInstalledCertificateIds'', ''GetLocalListVersion'', ''GetLog'', ''Heartbeat'',
      ''InstallCertificate'', ''LogStatusNotification'', ''MeterValues'', ''RemoteStartTransaction'',
      ''RemoteStopTransaction'', ''ReserveNow'', ''Reset'', ''SecurityEventNotification'',
      ''SendLocalList'', ''SetChargingProfile'', ''SignCertificate'', ''SignedFirmwareStatusNotification'']"
  by (simp add: actions_1_6_b_def)

lemma actions_1_6_c_named [table_simps]: "list_all well_named actions_1_6_c"
  by code_simp

lemma actions_1_6_c_names [table_simps]:
  "map action_name actions_1_6_c = [''SignedUpdateFirmware'', ''StartTransaction'', ''StatusNotification'', ''StopTransaction'',
      ''TriggerMessage'', ''UnlockConnector'', ''UpdateFirmware'']"
  by (simp add: actions_1_6_c_def)

end
