(* ===== verification/Actions_2_0_1.thy ===== *)
theory Actions_2_0_1
  imports Actions
begin

text \<open>
  The 64 CALL actions of OCPP 2.0.1 (\<^verbatim>\<open>src/ocpp_2_0_1/actions.rs\<close>), one entry per macro
  invocation and in their order. The table is cut into blocks only to keep the terms small.
\<close>

definition actions_2_0_1_a :: "action_entry list" where
  "actions_2_0_1_a =
     [Action ''Authorize'' ''AuthorizeRequest'' ''AuthorizeResponse'' ''Authorize'' ''send_authorize'' ''on_authorize'' ''wait_for_authorize'',
      Action ''BootNotification'' ''BootNotificationRequest'' ''BootNotificationResponse'' ''BootNotification'' ''send_boot_notification'' ''on_boot_notification'' ''wait_for_boot_notification'',
      Action ''CancelReservation'' ''CancelReservationRequest'' ''CancelReservationResponse'' ''CancelReservation'' ''send_cancel_reservation'' ''on_cancel_reservation'' ''wait_for_cancel_reservation'',
      Action ''CertificateSigned'' ''CertificateSignedRequest'' ''CertificateSignedResponse'' ''CertificateSigned'' ''send_certificate_signed'' ''on_certificate_signed'' ''wait_for_certificate_signed'',
      Action ''ChangeAvailability'' ''ChangeAvailabilityRequest'' ''ChangeAvailabilityResponse'' ''ChangeAvailability'' ''send_change_availability'' ''on_change_availability'' ''wait_for_change_availability'',
      Action ''ClearCache'' ''ClearCacheRequest'' ''ClearCacheResponse'' ''ClearCache'' ''send_clear_cache'' ''on_clear_cache'' ''wait_for_clear_cache'',
      Action ''ClearChargingProfile'' ''ClearChargingProfileRequest'' ''ClearChargingProfileResponse'' ''ClearChargingProfile'' ''send_clear_charging_profile'' ''on_clear_charging_profile'' ''wait_for_clear_charging_profile'',
      Action ''ClearDisplayMessage'' ''ClearDisplayMessageRequest'' ''ClearDisplayMessageResponse'' ''ClearDisplayMessage'' ''send_clear_display_message'' ''on_clear_display_message'' ''wait_for_clear_display_message'',
      Action ''ClearVariableMonitoring'' ''ClearVariableMonitoringRequest'' ''ClearVariableMonitoringResponse'' ''ClearVariableMonitoring'' ''send_clear_variable_monitoring'' ''on_clear_variable_monitoring'' ''wait_for_clear_variable_monitoring'',
      Action ''ClearedChargingLimit'' ''ClearedChargingLimitRequest'' ''ClearedChargingLimitResponse'' ''ClearedChargingLimit'' ''send_cleared_charging_limit'' ''on_cleared_charging_limit'' ''wait_for_cleared_charging_limit'',
      Action ''CostUpdated'' ''CostUpdatedRequest'' ''CostUpdatedResponse'' ''CostUpdated'' ''send_cost_updated'' ''on_cost_updated'' ''wait_for_cost_updated'',
      Action ''CustomerInformation'' ''CustomerInformationRequest'' ''CustomerInformationResponse'' ''CustomerInformation'' ''send_customer_information'' ''on_customer_information'' ''wait_for_customer_information'',
      Action ''DataTransfer'' ''DataTransferRequest'' ''DataTransferResponse'' ''DataTransfer'' ''send_data_transfer'' ''on_data_transfer'' ''wait_for_data_transfer'',
      Action ''DeleteCertificate'' ''DeleteCertificateRequest'' ''DeleteCertificateResponse'' ''DeleteCertificate'' ''send_delete_certificate'' ''on_delete_certificate'' ''wait_for_delete_certificate'',
      Action ''FirmwareStatusNotification'' ''FirmwareStatusNotificationRequest'' ''FirmwareStatusNotificationResponse'' ''FirmwareStatusNotification'' ''send_firmware_status_notification'' ''on_firmware_status_notification'' ''wait_for_firmware_status_notification'',
      Action ''Get15118EVCertificate'' ''Get15118EVCertificateRequest'' ''Get15118EVCertificateResponse'' ''Get15118EVCertificate'' ''send_get_15118_ev_certificate'' ''on_get_15118_ev_certificate'' ''wait_for_get_15118_ev_certificate'']"

definition actions_2_0_1_b :: "action_entry list" where
  "actions_2_0_1_b =
     [Action ''GetBaseReport'' ''GetBaseReportRequest'' ''GetBaseReportResponse'' ''GetBaseReport'' ''send_get_base_report'' ''on_get_base_report'' ''wait_for_get_base_report'',
      Action ''GetCertificateStatus'' ''GetCertificateStatusRequest'' ''GetCertificateStatusResponse'' ''GetCertificateStatus'' ''send_get_certificate_status'' ''on_get_certificate_status'' ''wait_for_get_certificate_status'',
      Action ''GetChargingProfiles'' ''GetChargingProfilesRequest'' ''GetChargingProfilesResponse'' ''GetChargingProfiles'' ''send_get_charging_profiles'' ''on_get_charging_profiles'' ''wait_for_get_charging_profiles'',
      Action ''GetCompositeSchedule'' ''GetCompositeScheduleRequest'' ''GetCompositeScheduleResponse'' ''GetCompositeSchedule'' ''send_get_composite_schedule'' ''on_get_composite_schedule'' ''wait_for_get_composite_schedule'',
      Action ''GetDisplayMessages'' ''GetDisplayMessagesRequest'' ''GetDisplayMessagesResponse'' ''GetDisplayMessages'' ''send_get_display_messages'' ''on_get_display_messages'' ''wait_for_get_display_messages'',
      Action ''GetInstalledCertificateIds'' ''GetInstalledCertificateIdsRequest'' ''GetInstalledCertificateIdsResponse'' ''GetInstalledCertificateIds'' ''send_get_installed_certificate_ids'' ''on_get_installed_certificate_ids'' ''wait_for_get_installed_certificate_ids'',
      Action ''GetLocalListVersion'' ''GetLocalListVersionRequest'' ''GetLocalListVersionResponse'' ''GetLocalListVersion'' ''send_get_local_list_version'' ''on_get_local_list_version'' ''wait_for_get_local_list_version'',
      Action ''GetLog'' ''GetLogRequest'' ''GetLogResponse'' ''GetLog'' ''send_get_log'' ''on_get_log'' ''wait_for_get_log'',
      Action ''GetMonitoringReport'' ''GetMonitoringReportRequest'' ''GetMonitoringReportResponse'' ''GetMonitoringReport'' ''send_get_monitoring_report'' ''on_get_monitoring_report'' ''wait_for_get_monitoring_report'',
      Action ''GetReport'' ''GetReportRequest'' ''GetReportResponse'' ''GetReport'' ''send_get_report'' ''on_get_report'' ''wait_for_get_report'',
      Action ''GetTransactionStatus'' ''GetTransactionStatusRequest'' ''GetTransactionStatusResponse'' ''GetTransactionStatus'' ''send_get_transaction_status'' ''on_get_transaction_status'' ''wait_for_get_transaction_status'',
      Action ''GetVariables'' ''GetVariablesRequest'' ''GetVariablesResponse'' ''GetVariables'' ''send_get_variables'' ''on_get_variables'' ''wait_for_get_variables'',
      Action ''Heartbeat'' ''HeartbeatRequest'' ''HeartbeatResponse'' ''Heartbeat'' ''send_heartbeat'' ''on_heartbeat'' ''wait_for_heartbeat'',
      Action ''InstallCertificate'' ''InstallCertificateRequest'' ''InstallCertificateResponse'' ''InstallCertificate'' ''send_install_certificate'' ''on_install_certificate'' ''wait_for_install_certificate'',
      Action ''LogStatusNotification'' ''LogStatusNotificationRequest'' ''LogStatusNotificationResponse'' ''LogStatusNotification'' ''send_log_status_notification'' ''on_log_status_notification'' ''wait_for_log_status_notification'',
      Action ''MeterValues'' ''MeterValuesRequest'' ''MeterValuesResponse'' ''MeterValues'' ''send_meter_values'' ''on_meter_values'' ''wait_for_meter_values'']"

definition actions_2_0_1_c :: "action_entry list" where
  "actions_2_0_1_c =
     [Action ''NotifyChargingLimit'' ''NotifyChargingLimitRequest'' ''NotifyChargingLimitResponse'' ''NotifyChargingLimit'' ''send_notify_charging_limit'' ''on_notify_charging_limit'' ''wait_for_notify_charging_limit'',
      Action ''NotifyCustomerInformation'' ''NotifyCustomerInformationRequest'' ''NotifyCustomerInformationResponse'' ''NotifyCustomerInformation'' ''send_notify_customer_information'' ''on_notify_customer_information'' ''wait_for_notify_customer_information'',
      Action ''NotifyDisplayMessages'' ''NotifyDisplayMessagesRequest'' ''NotifyDisplayMessagesResponse'' ''NotifyDisplayMessages'' ''send_notify_display_messages'' ''on_notify_display_messages'' ''wait_for_notify_display_messages'',
      Action ''NotifyEVChargingNeeds'' ''NotifyEVChargingNeedsRequest'' ''NotifyEVChargingNeedsResponse'' ''NotifyEVChargingNeeds'' ''send_notify_ev_charging_needs'' ''on_notify_ev_charging_needs'' ''wait_for_notify_ev_charging_needs'',
      Action ''NotifyEVChargingSchedule'' ''NotifyEVChargingScheduleRequest'' ''NotifyEVChargingScheduleResponse'' ''NotifyEVChargingSchedule'' ''send_notify_ev_charging_schedule'' ''on_notify_ev_charging_schedule'' ''wait_for_notify_ev_charging_schedule'',
      Action ''NotifyEvent'' ''NotifyEventRequest'' ''NotifyEventResponse'' ''NotifyEvent'' ''send_notify_event'' ''on_notify_event'' ''wait_for_notify_event'',
      Action ''NotifyMonitoringReport'' ''NotifyMonitoringReportRequest'' ''NotifyMonitoringReportResponse'' ''NotifyMonitoringReport'' ''send_notify_monitoring_report'' ''on_notify_monitoring_report'' ''wait_for_notify_monitoring_report'',
      Action ''NotifyReport'' ''NotifyReportRequest'' ''NotifyReportResponse'' ''NotifyReport'' ''send_notify_report'' ''on_notify_report'' ''wait_for_notify_report'',
      Action ''PublishFirmware'' ''PublishFirmwareRequest'' ''PublishFirmwareResponse'' ''PublishFirmware'' ''send_publish_firmware'' ''on_publish_firmware'' ''wait_for_publish_firmware'',
      Action ''PublishFirmwareStatusNotification'' ''PublishFirmwareStatusNotificationRequest'' ''PublishFirmwareStatusNotificationResponse'' ''PublishFirmwareStatusNotification'' ''send_publish_firmware_status_notification'' ''on_publish_firmware_status_notification'' ''wait_for_publish_firmware_status_notification'',
      Action ''ReportChargingProfiles'' ''ReportChargingProfilesRequest'' ''ReportChargingProfilesResponse'' ''ReportChargingProfiles'' ''send_report_charging_profiles'' ''on_report_charging_profiles'' ''wait_for_report_charging_profiles'',
      Action ''RequestStartTransaction'' ''RequestStartTransactionRequest'' ''RequestStartTransactionResponse'' ''RequestStartTransaction'' ''send_request_start_transaction'' ''on_request_start_transaction'' ''wait_for_request_start_transaction'',
      Action ''RequestStopTransaction'' ''RequestStopTransactionRequest'' ''RequestStopTransactionResponse'' ''RequestStopTransaction'' ''send_request_stop_transaction'' ''on_request_stop_transaction'' ''wait_for_request_stop_transaction'',
      Action ''ReservationStatusUpdate'' ''ReservationStatusUpdateRequest'' ''ReservationStatusUpdateResponse'' ''ReservationStatusUpdate'' ''send_reservation_status_update'' ''on_reservation_status_update'' ''wait_for_reservation_status_update'',
      Action ''ReserveNow'' ''ReserveNowRequest'' ''ReserveNowResponse'' ''ReserveNow'' ''send_reserve_now'' ''on_reserve_now'' ''wait_for_reserve_now'',
      Action ''Reset'' ''ResetRequest'' ''ResetResponse'' ''Reset'' ''send_reset'' ''on_reset'' ''wait_for_reset'']"

definition actions_2_0_1_d :: "action_entry list" where
  "actions_2_0_1_d =
     [Action ''SecurityEventNotification'' ''SecurityEventNotificationRequest'' ''SecurityEventNotificationResponse'' ''SecurityEventNotification'' ''send_security_event_notification'' ''on_security_event_notification'' ''wait_for_security_event_notification'',
      Action ''SendLocalList'' ''SendLocalListRequest'' ''SendLocalListResponse'' ''SendLocalList'' ''send_send_local_list'' ''on_send_local_list'' ''wait_for_send_local_list'',
      Action ''SetChargingProfile'' ''SetChargingProfileRequest'' ''SetChargingProfileResponse'' ''SetChargingProfile'' ''send_set_charging_profile'' ''on_set_charging_profile'' ''wait_for_set_charging_profile'',
      Action ''SetDisplayMessage'' ''SetDisplayMessageRequest'' ''SetDisplayMessageResponse'' ''SetDisplayMessage'' ''send_set_display_message'' ''on_set_display_message'' ''wait_for_set_display_message'',
      Action ''SetMonitoringBase'' ''SetMonitoringBaseRequest'' ''SetMonitoringBaseResponse'' ''SetMonitoringBase'' ''send_set_monitoring_base'' ''on_set_monitoring_base'' ''wait_for_set_monitoring_base'',
      Action ''SetMonitoringLevel'' ''SetMonitoringLevelRequest'' ''SetMonitoringLevelResponse'' ''SetMonitoringLevel'' ''send_set_monitoring_level'' ''on_set_monitoring_level'' ''wait_for_set_monitoring_level'',
      Action ''SetNetworkProfile'' ''SetNetworkProfileRequest'' ''SetNetworkProfileResponse'' ''SetNetworkProfile'' ''send_set_network_profile'' ''on_set_network_profile'' ''wait_for_set_network_profile'',
      Action ''SetVariableMonitoring'' ''SetVariableMonitoringRequest'' ''SetVariableMonitoringResponse'' ''SetVariableMonitoring'' ''send_set_variable_monitoring'' ''on_set_variable_monitoring'' ''wait_for_set_variable_monitoring'',
      Action ''SetVariables'' ''SetVariablesRequest'' ''SetVariablesResponse'' ''SetVariables'' ''send_set_variables'' ''on_set_variables'' ''wait_for_set_variables'',
      Action ''SignCertificate'' ''SignCertificateRequest'' ''SignCertificateResponse'' ''SignCertificate'' ''send_sign_certificate'' ''on_sign_certificate'' ''wait_for_sign_certificate'',
      Action ''StatusNotification'' ''StatusNotificationRequest'' ''StatusNotificationResponse'' ''StatusNotification'' ''send_status_notification'' ''on_status_notification'' ''wait_for_status_notification'',
      Action ''TransactionEvent'' ''TransactionEventRequest'' ''TransactionEventResponse'' ''TransactionEvent'' ''send_transaction_event'' ''on_transaction_event'' ''wait_for_transaction_event'',
      Action ''TriggerMessage'' ''TriggerMessageRequest'' ''TriggerMessageResponse'' ''TriggerMessage'' ''send_trigger_message'' ''on_trigger_message'' ''wait_for_trigger_message'',
      Action ''UnlockConnector'' ''UnlockConnectorRequest'' ''UnlockConnectorResponse'' ''UnlockConnector'' ''send_unlock_connector'' ''on_unlock_connector'' ''wait_for_unlock_connector'',
      Action ''UnpublishFirmware'' ''UnpublishFirmwareRequest'' ''UnpublishFirmwareResponse'' ''UnpublishFirmware'' ''send_unpublish_firmware'' ''on_unpublish_firmware'' ''wait_for_unpublish_firmware'',
      Action ''UpdateFirmware'' ''UpdateFirmwareRequest'' ''UpdateFirmwareResponse'' ''UpdateFirmware'' ''send_update_firmware'' ''on_update_firmware'' ''wait_for_update_firmware'']"

definition actions_2_0_1 :: "action_entry list" where
  "actions_2_0_1 = actions_2_0_1_a @ actions_2_0_1_b @ actions_2_0_1_c @ actions_2_0_1_d"

lemma actions_2_0_1_a_named [table_simps]: "list_all well_named actions_2_0_1_a"
  by code_simp

lemma actions_2_0_1_a_names [table_simps]:
  "map action_name actions_2_0_1_a = [''Authorize'', ''BootNotification'', ''CancelReservation'', ''CertificateSigned'',
      ''ChangeAvailability'', ''ClearCache'', ''ClearChargingProfile'', ''ClearDisplayMessage'',
      ''ClearVariableMonitoring'', ''ClearedChargingLimit'', ''CostUpdated'', ''CustomerInformation'',
      ''DataTransfer'', ''DeleteCertificate'', ''FirmwareStatusNotification'', ''Get15118EVCertificate'']"
  by (simp add: actions_2_0_1_a_def)

lemma actions_2_0_1_b_named [table_simps]: "list_all well_named actions_2_0_1_b"
  by code_simp

lemma actions_2_0_1_b_names [table_simps]:
  "map action_name actions_2_0_1_b = [''GetBaseReport'', ''GetCertificateStatus'', ''GetChargingProfiles'', ''GetCompositeSchedule'',
      ''GetDisplayMessages'', ''GetInstalledCertificateIds'', ''GetLocalListVersion'', ''GetLog'',
      ''GetMonitoringReport'', ''GetReport'', ''GetTransactionStatus'', ''GetVariables'',
      ''Heartbeat'', ''InstallCertificate'', ''LogStatusNotification'', ''MeterValues'']"
  by (simp add: actions_2_0_1_b_def)

lemma actions_2_0_1_c_named [table_simps]: "list_all well_named actions_2_0_1_c"
  by code_simp

lemma actions_2_0_1_c_names [table_simps]:
  "map action_name actions_2_0_1_c = [''NotifyChargingLimit'', ''NotifyCustomerInformation'', ''NotifyDisplayMessages'', ''NotifyEVChargingNeeds'',
      ''NotifyEVChargingSchedule'', ''NotifyEvent'', ''NotifyMonitoringReport'', ''NotifyReport'',
      ''PublishFirmware'', ''PublishFirmwareStatusNotification'', ''ReportChargingProfiles'', ''RequestStartTransaction'',
      ''RequestStopTransaction'', ''ReservationStatusUpdate'', ''ReserveNow'', ''Reset'']"
  by (simp add: actions_2_0_1_c_def)

lemma actions_2_0_1_d_named [table_simps]: "list_all well_named actions_2_0_1_d"
  by code_simp

lemma actions_2_0_1_d_names [table_simps]:
  "map action_name actions_2_0_1_d = [''SecurityEventNotification'', ''SendLocalList'', ''SetChargingProfile'', ''SetDisplayMessage'',
      ''SetMonitoringBase'', ''SetMonitoringLevel'', ''SetNetworkProfile'', ''SetVariableMonitoring'',
      ''SetVariables'', ''SignCertificate'', ''StatusNotification'', ''TransactionEvent'',
      ''TriggerMessage'', ''UnlockConnector'', ''UnpublishFirmware'', ''UpdateFirmware'']"
  by (simp add: actions_2_0_1_d_def)

end
