(* ===== verification/Typed_Clients.thy ===== *)
theory Typed_Clients
  imports Actions_1_6 Actions_2_0_1 Actions_2_1
begin

text \<open>
  The three typed clients: \<open>OCPP1_6Client\<close>, \<open>OCPP2_0_1Client\<close> and \<open>OCPP2_1Client\<close> are the generic client
  with the action table of their version.
\<close>

definition version_tables :: "action_entry list list" where
  "version_tables = [actions_1_6, actions_2_0_1, actions_2_1]"

lemmas tables_def = actions_1_6_def actions_2_0_1_def actions_2_1_def

lemma table_names_distinct:
  "distinct (map action_name actions_1_6)"
  "distinct (map action_name actions_2_0_1)"
  "distinct (map action_name actions_2_1)"
  by code_simp+

lemma tables_named:
  "list_all well_named actions_1_6" "list_all well_named actions_2_0_1" "list_all well_named actions_2_1"
  by (simp_all add: tables_def table_simps)

lemma tables_sizes:
  "length actions_1_6 = 39" "length actions_2_0_1 = 64" "length actions_2_1 = 90"
  by code_simp+

lemma newer_version_keeps_actions:
  "set (map action_name actions_2_0_1) \<subseteq> set (map action_name actions_2_1)"
  by code_simp

lemma sends_are_not_calls:
  "set (map send_name send_actions_2_1) \<inter> set (map action_name actions_2_1) = {}"
  by code_simp

lemma table_names_inj:
  assumes "table \<in> set version_tables" and "a \<in> set table" and "b \<in> set table" and "action_name a = action_name b"
  shows "a = b"
proof -
  have "distinct (map action_name table)"
    using assms(1) table_names_distinct by (auto simp: version_tables_def)
  with assms show ?thesis by (auto simp: distinct_map dest: inj_onD)
qed

subsection \<open>Properties\<close>

text \<open>
  The typed methods of one client never interfere: in each version's table the wire names are
  pairwise distinct, so registering a handler through one \<open>on_x\<close> leaves the registration and the channel
  of every other action's handler exactly as they were, and only replaces its own.
\<close>

lemma typed_handlers_are_independent:
  assumes "table \<in> set version_tables" and "a \<in> set table" and "b \<in> set table" and "a \<noteq> b"
    and "well_registered (request_senders c) (next_call_chan c)"
    and "request_senders c (action_name b) = Some chan"
  shows "request_senders (snd (typed_on a c)) (action_name b) = Some chan
    \<and> call_chans (snd (typed_on a c)) chan = call_chans c chan
    \<and> request_senders (snd (typed_on a c)) (action_name a) = Some (fst (typed_on a c))
    \<and> fst (typed_on a c) \<noteq> chan"
proof -
  have names: "action_name a \<noteq> action_name b" using table_names_inj assms(1-4) by blast
  have "chan < next_call_chan c" using assms(5,6) by (auto simp: well_registered_def)
  with requests.others_untouched [OF assms(5,6) names] show ?thesis
    by (simp add: typed_on_def requests.register_handle requests.register_senders)
qed

lemma typed_handlers_are_independent_example:
  "let a = actions_1_6 ! 0; b = actions_1_6 ! 1;
       c = snd (typed_on b (new_client (client_config_new 0))) :: OCPP1_6Error client
   in request_senders (snd (typed_on a c)) (action_name b) = Some 0"
proof -
  let ?a = "actions_1_6 ! 0" and ?b = "actions_1_6 ! 1"
  let ?c = "snd (typed_on ?b (new_client (client_config_new 0))) :: OCPP1_6Error client"
  have mem: "?a \<in> set actions_1_6" "?b \<in> set actions_1_6" using tables_sizes(1) by (simp_all add: nth_mem)
  have "action_name ?a \<noteq> action_name ?b"
    using nth_eq_iff_index_eq [OF table_names_distinct(1), of 0 1] tables_sizes(1) by simp
  then have neq: "?a \<noteq> ?b" by metis
  have "well_registered (request_senders ?c) (next_call_chan ?c)"
    unfolding typed_on_def by (rule requests.register_well) (simp add: new_client_def well_registered_def)
  moreover have "request_senders ?c (action_name ?b) = Some 0"
    by (simp add: typed_on_def requests.register_senders new_client_def)
  moreover have "actions_1_6 \<in> set version_tables" by (simp add: version_tables_def)
  ultimately have "request_senders (snd (typed_on ?a ?c)) (action_name ?b) = Some 0"
    using typed_handlers_are_independent [OF _ mem neq] by blast
  then show ?thesis by (simp add: Let_def)
qed

text \<open>
  Every typed action follows the naming convention of its version's table and the tables are
  complete in the sense the code relies on: 39 actions for 1.6, 64 for 2.0.1 and 90 for 2.1 with pairwise
  distinct wire names, every 2.0.1 action is still there in 2.1, and no SEND message of 2.1 is also a
  CALL action.
\<close>

lemma action_tables_are_well_formed:
  "list_all well_named (concat version_tables)
   \<and> map length version_tables = [39, 64, 90]
   \<and> list_all (\<lambda>table. distinct (map action_name table)) version_tables
   \<and> set (map action_name actions_2_0_1) \<subseteq> set (map action_name actions_2_1)
   \<and> set (map send_name send_actions_2_1) \<inter> set (map action_name actions_2_1) = {}"
  using newer_version_keeps_actions sends_are_not_calls
  by (simp add: version_tables_def tables_named tables_sizes table_names_distinct)

end
