(* ===== verification/Runtime.thy ===== *)
theory Runtime
  imports Ocpp_Prelude
begin

text \<open>
  The runtime seam (\<^verbatim>\<open>src/runtime.rs\<close>) and the embassy implementation of it
  (\<^verbatim>\<open>crates/ocpp-transport-embassy-net/src/runtime.rs\<close>). A future is a state with a poll function;
  \<open>None\<close> is \<open>Poll::Pending\<close>. \<open>with_cancel\<close> and \<open>with_timeout\<close> are the poll functions of the futures
  they build, and \<open>drive\<close> polls a future until it is ready, at most \<open>n\<close> times.
\<close>

type_synonym ('s, 'a) future = "'s \<Rightarrow> 'a option \<times> 's"

datatype cancelled = Cancelled
datatype elapsed = Elapsed

definition with_cancel :: "('f, 'a) future \<Rightarrow> ('c, 'b) future \<Rightarrow> ('f \<times> 'c, ('a, cancelled) result) future" where
  "with_cancel fut cancel s =
     (case s of (f, c) \<Rightarrow>
       (case fut f of
          (Some v, f') \<Rightarrow> (Some (Ok v), (f', c))
        | (None, f') \<Rightarrow>
            (case cancel c of
               (Some _, c') \<Rightarrow> (Some (Err Cancelled), (f', c'))
             | (None, c') \<Rightarrow> (None, (f', c')))))"

definition with_timeout :: "('f, 'a) future \<Rightarrow> ('d, unit) future \<Rightarrow> ('f \<times> 'd, ('a, elapsed) result) future" where
  "with_timeout fut delay s =
     (case s of (f, d) \<Rightarrow>
       (case fut f of
          (Some v, f') \<Rightarrow> (Some (Ok v), (f', d))
        | (None, f') \<Rightarrow>
            (case delay d of
               (Some _, d') \<Rightarrow> (Some (Err Elapsed), (f', d'))
             | (None, d') \<Rightarrow> (None, (f', d')))))"

fun drive :: "nat \<Rightarrow> ('s, 'a) future \<Rightarrow> ('s, 'a) future" where
  "drive 0 fut s = (None, s)"
| "drive (Suc n) fut s =
     (case fut s of (Some v, s') \<Rightarrow> (Some v, s') | (None, s') \<Rightarrow> drive n fut s')"

text \<open>The state after \<open>k\<close> polls, and whether all of them were pending.\<close>

fun polled :: "nat \<Rightarrow> ('s, 'a) future \<Rightarrow> 's \<Rightarrow> 's" where
  "polled 0 fut s = s"
| "polled (Suc k) fut s = polled k fut (snd (fut s))"

fun pending_for :: "nat \<Rightarrow> ('s, 'a) future \<Rightarrow> 's \<Rightarrow> bool" where
  "pending_for 0 fut s = True"
| "pending_for (Suc k) fut s = (fst (fut s) = None \<and> pending_for k fut (snd (fut s)))"

subsection \<open>The race contract\<close>

locale race =
  fixes race_poll :: "('f, 'a) future \<Rightarrow> ('c, 'b) future \<Rightarrow> ('f \<times> 'c, ('a, 'e) result) future" and lost :: 'e
  assumes fut_first: "fut f = (Some v, f') \<Longrightarrow> race_poll fut other (f, c) = (Some (Ok v), (f', c))"
    and other_second: "fut f = (None, f') \<Longrightarrow> other c = (Some u, c') \<Longrightarrow>
      race_poll fut other (f, c) = (Some (Err lost), (f', c'))"
    and both_pending: "fut f = (None, f') \<Longrightarrow> other c = (None, c') \<Longrightarrow>
      race_poll fut other (f, c) = (None, (f', c'))"
begin

lemma future_wins:
  assumes "k < n" and "pending_for k fut f" and "pending_for k other c"
    and "fut (polled k fut f) = (Some v, f')"
  shows "drive n (race_poll fut other) (f, c) = (Some (Ok v), (f', polled k other c))"
  using assms
proof (induction k arbitrary: n f c)
  case 0
  then show ?case by (cases n) (auto simp: fut_first)
next
  case (Suc k)
  then obtain m where "n = Suc m" "k < m" by (cases n) auto
  moreover have "fut f = (None, snd (fut f))" "other c = (None, snd (other c))"
    using Suc.prems by (auto simp: prod_eq_iff)
  ultimately show ?case using Suc.IH [of m "snd (fut f)" "snd (other c)"] Suc.prems
    by (simp add: both_pending)
qed

lemma other_wins:
  assumes "k < n" and "pending_for (Suc k) fut f" and "pending_for k other c"
    and "other (polled k other c) = (Some u, c')"
  shows "drive n (race_poll fut other) (f, c) = (Some (Err lost), (polled (Suc k) fut f, c'))"
  using assms
proof (induction k arbitrary: n f c)
  case 0
  then have "fut f = (None, snd (fut f))" by (auto simp: prod_eq_iff)
  with 0 show ?case by (cases n) (auto simp: other_second)
next
  case (Suc k)
  then obtain m where "n = Suc m" "k < m" by (cases n) auto
  moreover have "fut f = (None, snd (fut f))" "other c = (None, snd (other c))"
    using Suc.prems by (auto simp: prod_eq_iff)
  ultimately show ?case using Suc.IH [of m "snd (fut f)" "snd (other c)"] Suc.prems
    by (simp add: both_pending)
qed

end

interpretation cancel: race with_cancel Cancelled
  by unfold_locales (simp_all add: with_cancel_def)

interpretation timing: race with_timeout Elapsed
  by unfold_locales (simp_all add: with_timeout_def)

subsection \<open>The embassy runtime\<close>

definition POOL_SIZE :: nat where
  "POOL_SIZE = 8"

text \<open>
  \<open>spawn\<close> on a pool of \<open>slots\<close> statically allocated slots: the tasks running now, in the order they were
  spawned. A spawn that finds no free slot drops its future and only logs.
\<close>

definition embassy_spawn :: "nat \<Rightarrow> 't \<Rightarrow> 't list \<Rightarrow> 't list" where
  "embassy_spawn slots future running = (if length running < slots then running @ [future] else running)"

definition embassy_delay :: "duration \<Rightarrow> u64" where
  "embassy_delay d = word_of_nat (as_micros d)"

lemma embassy_spawn_all: "fold (embassy_spawn slots) ts running = running @ take (slots - length running) ts"
proof (induction ts arbitrary: running)
  case Nil
  then show ?case by simp
next
  case (Cons t ts)
  show ?case
  proof (cases "length running < slots")
    case True
    then have "take (slots - length running) (t # ts) = t # take (slots - Suc (length running)) ts"
      by (simp add: take_Cons' Suc_diff_Suc)
    with True Cons show ?thesis by (simp add: embassy_spawn_def)
  qed (use Cons in \<open>simp add: embassy_spawn_def\<close>)
qed

text \<open>
  The module documents one background task per client and asks for one slot more than there are
  handlers; the client spawns two (the read loop and the keepalive task), so a pool of that size
  silently loses the handler registered last.
\<close>

lemma documented_pool_loses_a_handler:
  assumes "handlers \<noteq> []"
  shows "fold (embassy_spawn (1 + length handlers)) ([read_loop_task, keepalive_task] @ handlers) []
    = [read_loop_task, keepalive_task] @ butlast handlers"
proof -
  have "take (length handlers - 1) handlers = butlast handlers" by (simp add: butlast_conv_take)
  moreover obtain n where "length handlers = Suc n" using assms by (cases handlers) auto
  ultimately show ?thesis by (simp add: embassy_spawn_all embassy_spawn_def)
qed

lemma embassy_delay_rounds_down:
  assumes "as_micros d < 2 ^ 64"
  shows "unat (embassy_delay d) * 1000 \<le> d \<and> d < Suc (unat (embassy_delay d)) * 1000"
proof -
  have "unat (embassy_delay d) = d div 1000"
    using assms by (simp add: embassy_delay_def as_micros_def unsigned_of_nat take_bit_eq_mod)
  then show ?thesis by (simp add: dividend_less_div_times)
qed

subsection \<open>Properties\<close>

text \<open>
  Both races resolve at the first poll at which either side is ready, and a tie goes to the awaited
  future: a reply or an event that is already there is never discarded for a timer or a wake signal.
  When the future loses, it has been polled once more and found pending, and it is dropped in exactly
  that state, which is all a cancel-safe \<open>recv\<close> has to tolerate.
\<close>

lemma races_prefer_the_awaited_future:
  assumes "k < n" and "pending_for k fut f"
  shows "(pending_for k cancel c \<longrightarrow> fut (polled k fut f) = (Some v, f') \<longrightarrow>
      drive n (with_cancel fut cancel) (f, c) = (Some (Ok v), (f', polled k cancel c)))
    \<and> (pending_for k cancel c \<longrightarrow> fst (fut (polled k fut f)) = None \<longrightarrow> cancel (polled k cancel c) = (Some u, c') \<longrightarrow>
      drive n (with_cancel fut cancel) (f, c) = (Some (Err Cancelled), (polled (Suc k) fut f, c')))
    \<and> (pending_for k delay d \<longrightarrow> fut (polled k fut f) = (Some v, f') \<longrightarrow>
      drive n (with_timeout fut delay) (f, d) = (Some (Ok v), (f', polled k delay d)))
    \<and> (pending_for k delay d \<longrightarrow> fst (fut (polled k fut f)) = None \<longrightarrow> delay (polled k delay d) = (Some (), d') \<longrightarrow>
      drive n (with_timeout fut delay) (f, d) = (Some (Err Elapsed), (polled (Suc k) fut f, d')))"
proof -
  have suc: "fst (fut (polled k fut f)) = None \<Longrightarrow> pending_for (Suc k) fut f"
    using assms(2) by (induction k arbitrary: f) auto
  show ?thesis
    by (intro conjI impI cancel.future_wins [OF assms] timing.future_wins [OF assms]
        cancel.other_wins [OF assms(1) suc] timing.other_wins [OF assms(1) suc])
qed

text \<open>Two countdowns: the awaited one is ready on its third poll, the timer on the same one.\<close>

definition countdown :: "(nat, unit) future" where
  "countdown n = (if n = 0 then Some () else None, n - 1)"

lemma races_prefer_the_awaited_future_example:
  "drive 5 (with_timeout countdown countdown) (2, 2) = (Some (Ok ()), (0, 0))"
proof -
  have "(2 :: nat) < 5" "pending_for 2 countdown 2" by (simp_all add: countdown_def numeral_2_eq_2)
  from races_prefer_the_awaited_future [OF this, of countdown 2 "()" 0 "()" 0 countdown 2 0]
  show ?thesis by (simp add: countdown_def numeral_2_eq_2)
qed

end
