(* ===== verification/Board.thy ===== *)
theory Board
  imports Engine_Calls Engine_Redial Runtime Transport
begin

text \<open>
  The firmware of the NUCLEO-H723ZG board (\<^verbatim>\<open>crates/ocpp-board-stm32h723-nucleo/src/main.rs\<close>): its
  constants, the hardware random number generator shared through \<open>RNG_CELL\<close>, the boot sequence, the
  first connect with its retries, and the heartbeat loop on top of the running client. The peripherals,
  the \<open>uuid\<close> crate's layout of its random bytes and the serialised heartbeat are the fields of
  \<open>firmware\<close>. A failed \<open>expect\<close> and a failed UUID are the program counter \<open>BPanicked\<close>.
\<close>

subsection \<open>Constants\<close>

definition CSMS_ADDR :: "byte list" where
  "CSMS_ADDR = [192, 168, 1, 10]"

definition CSMS_PORT :: "16 word" where
  "CSMS_PORT = 9000"

definition CSMS_HOST :: string where
  "CSMS_HOST = ''192.168.1.10''"

definition CHARGE_POINT_PATH :: string where
  "CHARGE_POINT_PATH = ''/ocpp/CP001''"

definition MAC_ADDR :: "byte list" where
  "MAC_ADDR = [0x02, 0x00, 0x11, 0x22, 0x33, 0x44]"

definition HEAP_SIZE :: nat where
  "HEAP_SIZE = 64 * 1024"

text \<open>The clock tree: prescalers and multipliers as the numbers they stand for.\<close>

record rcc_config =
  hsi_prescaler :: nat
  csi_enabled :: bool
  hsi48_enabled :: bool
  pll1_prediv :: nat
  pll1_mul :: nat
  pll1_divp :: nat
  ahb_pre :: nat
  apb_pre :: "nat list"       \<comment> \<open>APB1 to APB4\<close>

definition board_rcc :: rcc_config where
  "board_rcc = \<lparr>hsi_prescaler = 1, csi_enabled = True, hsi48_enabled = True, pll1_prediv = 4, pll1_mul = 50,
     pll1_divp = 2, ahb_pre = 2, apb_pre = [2, 2, 2, 2]\<rparr>"

text \<open>The frequencies the RCC derives from the frequency of the internal oscillator, all divisions exact.\<close>

definition sysclk :: "nat \<Rightarrow> rcc_config \<Rightarrow> nat" where
  "sysclk hsi r = hsi div hsi_prescaler r div pll1_prediv r * pll1_mul r div pll1_divp r"

definition ahb_clock :: "nat \<Rightarrow> rcc_config \<Rightarrow> nat" where
  "ahb_clock hsi r = sysclk hsi r div ahb_pre r"

definition apb_clocks :: "nat \<Rightarrow> rcc_config \<Rightarrow> nat list" where
  "apb_clocks hsi r = map (\<lambda>pre. ahb_clock hsi r div pre) (apb_pre r)"

subsection \<open>The shared random number generator\<close>

record 'r firmware =
  rng_new :: 'r
  rng_next_u32 :: "'r \<Rightarrow> u32 \<times> 'r"
  rng_next_u64 :: "'r \<Rightarrow> u64 \<times> 'r"
  rng_fill_bytes :: "nat \<Rightarrow> 'r \<Rightarrow> byte list \<times> 'r"
  uuid_v4 :: "byte list \<Rightarrow> uuid"
  heartbeat_value :: "(json, string) result"

text \<open>\<open>None\<close> is the panic of the \<open>expect\<close> on an empty cell.\<close>

definition with_rng :: "('r \<Rightarrow> 'a \<times> 'r) \<Rightarrow> 'r option \<Rightarrow> ('a \<times> 'r option) option" where
  "with_rng f cell = (case cell of None \<Rightarrow> None | Some r \<Rightarrow> (case f r of (v, r') \<Rightarrow> Some (v, Some r')))"

definition shared_next_u32 :: "'r firmware \<Rightarrow> 'r option \<Rightarrow> (u32 \<times> 'r option) option" where
  "shared_next_u32 hw = with_rng (rng_next_u32 hw)"

definition shared_next_u64 :: "'r firmware \<Rightarrow> 'r option \<Rightarrow> (u64 \<times> 'r option) option" where
  "shared_next_u64 hw = with_rng (rng_next_u64 hw)"

definition shared_fill_bytes :: "'r firmware \<Rightarrow> nat \<Rightarrow> 'r option \<Rightarrow> (byte list \<times> 'r option) option" where
  "shared_fill_bytes hw n = with_rng (rng_fill_bytes hw n)"

definition shared_try_fill_bytes ::
  "'r firmware \<Rightarrow> nat \<Rightarrow> 'r option \<Rightarrow> ((byte list, string) result \<times> 'r option) option" where
  "shared_try_fill_bytes hw n cell = map_option (\<lambda>(bytes, cell'). (Ok bytes, cell')) (shared_fill_bytes hw n cell)"

text \<open>\<open>__getrandom_v03_custom\<close>: an empty cell is the custom error 1, not a panic.\<close>

definition getrandom_custom :: "'r firmware \<Rightarrow> nat \<Rightarrow> 'r option \<Rightarrow> (byte list, nat) result \<times> 'r option" where
  "getrandom_custom hw len cell =
     (case cell of
        Some r \<Rightarrow> (case rng_fill_bytes hw len r of (bytes, r') \<Rightarrow> (Ok bytes, Some r'))
      | None \<Rightarrow> (Err 1, None))"

definition from_le_bytes :: "byte list \<Rightarrow> u64" where
  "from_le_bytes bytes = from_be_bytes (rev bytes)"

text \<open>
  The consumers outside \<open>main\<close>: the transport's frame masks go through the shared generator, the UUIDs of
  the client (message ids and jitter) through \<open>getrandom\<close>, whose error makes \<open>Uuid::new_v4\<close> panic.
\<close>

datatype draw = Draw32 | Draw64 | DrawBytes nat | TryDrawBytes nat | DrawUuid

fun draw_from :: "'r firmware \<Rightarrow> draw \<Rightarrow> 'r option \<Rightarrow> 'r option option" where
  "draw_from hw Draw32 cell = map_option snd (shared_next_u32 hw cell)"
| "draw_from hw Draw64 cell = map_option snd (shared_next_u64 hw cell)"
| "draw_from hw (DrawBytes n) cell = map_option snd (shared_fill_bytes hw n cell)"
| "draw_from hw (TryDrawBytes n) cell = map_option snd (shared_try_fill_bytes hw n cell)"
| "draw_from hw DrawUuid cell =
     (case getrandom_custom hw 16 cell of (Ok _, cell') \<Rightarrow> Some cell' | (Err _, _) \<Rightarrow> None)"

subsection \<open>The firmware\<close>

datatype board_pc =
    BPowerOn
  | BHeapUp
  | BClocksUp
  | BRngUp
  | BSeeded
  | BEthernetUp
  | BAwaitDhcp
  | BConnecting
  | BRetryWait
  | BSend
  | BSent nat
  | BRest
  | BPanicked

datatype board_input =
    BGo
  | BDhcpUp
  | BDialled bool
  | BElapsed
  | BDraw draw
  | BEngine "OCPP1_6Error decision"

record 'r board =
  bd_pc :: board_pc
  heap_bytes :: nat
  clock_tree :: "rcc_config option"
  rng_cell :: "'r option"
  net_seed :: u64
  bd_engine :: "OCPP1_6Error engine option"

definition board_start :: "'r board" where
  "board_start = \<lparr>bd_pc = BPowerOn, heap_bytes = 0, clock_tree = None, rng_cell = None, net_seed = 0,
     bd_engine = None\<rparr>"

text \<open>The client's configuration, the waits of the retry and of the heartbeat loop.\<close>

definition board_cfg :: client_config where
  "board_cfg = (client_config_new (from_secs 30))\<lparr>cfg_reconnector := True,
     cfg_reconnect_policy := default_reconnect_policy\<rparr>"

definition board_connect_config :: connect_config where
  "board_connect_config = connect_config_new (CSMS_ADDR, CSMS_PORT) CSMS_HOST CHARGE_POINT_PATH ''ocpp1.6''"

definition board_reconnector :: embassy_net_reconnector where
  "board_reconnector = embassy_net_reconnector_new board_connect_config"

definition connect_retry_delay :: duration where
  "connect_retry_delay = from_secs 5"

definition heartbeat_delay :: duration where
  "heartbeat_delay = from_secs 30"

text \<open>The client's own tasks: the firmware registers no handler and never pings or disconnects by itself.\<close>

fun background :: "OCPP1_6Error decision \<Rightarrow> bool" where
  "background (DRead _) = True"
| "background (DKeepalive _) = True"
| "background (DCallMoves _ _) = True"
| "background _ = False"

definition board_draw :: "'r firmware \<Rightarrow> draw \<Rightarrow> 'r board \<Rightarrow> 'r board option" where
  "board_draw hw d b =
     (if bd_pc b = BConnecting \<or> bd_engine b \<noteq> None then
        (case draw_from hw d (rng_cell b) of
           Some cell \<Rightarrow> Some (b\<lparr>rng_cell := cell\<rparr>)
         | None \<Rightarrow> Some (b\<lparr>bd_pc := BPanicked\<rparr>))
      else None)"

definition board_seed :: "'r firmware \<Rightarrow> 'r board \<Rightarrow> 'r board" where
  "board_seed hw b =
     (case shared_fill_bytes hw 8 (rng_cell b) of
        Some (bytes, cell) \<Rightarrow> b\<lparr>bd_pc := BSeeded, rng_cell := cell, net_seed := from_le_bytes bytes\<rparr>
      | None \<Rightarrow> b\<lparr>bd_pc := BPanicked\<rparr>)"

text \<open>\<open>send_heartbeat\<close> up to its first await: draw the message id, start the call.\<close>

definition board_send ::
  "'r firmware \<Rightarrow> codec \<Rightarrow> payload_types \<Rightarrow> OCPP1_6Error engine \<Rightarrow> 'r board \<Rightarrow> 'r board" where
  "board_send hw C T e b =
     (case getrandom_custom hw 16 (rng_cell b) of
        (Ok bytes, cell) \<Rightarrow>
          b\<lparr>bd_pc := BSent (length (calls e)), rng_cell := cell,
            bd_engine := perform board_cfg protocol_error_1_6 C T
              (DCall (uuid_v4 hw bytes) ''Heartbeat'' (heartbeat_value hw)) e\<rparr>
      | (Err _, _) \<Rightarrow> b\<lparr>bd_pc := BPanicked\<rparr>)"

definition board_main ::
  "'r firmware \<Rightarrow> codec \<Rightarrow> payload_types \<Rightarrow> board_input \<Rightarrow> 'r board \<Rightarrow> 'r board option" where
  "board_main hw C T inp b =
     (case (bd_pc b, inp) of
        (BPowerOn, BGo) \<Rightarrow> Some (b\<lparr>bd_pc := BHeapUp, heap_bytes := HEAP_SIZE\<rparr>)
      | (BHeapUp, BGo) \<Rightarrow> Some (b\<lparr>bd_pc := BClocksUp, clock_tree := Some board_rcc\<rparr>)
      | (BClocksUp, BGo) \<Rightarrow> Some (b\<lparr>bd_pc := BRngUp, rng_cell := Some (rng_new hw)\<rparr>)
      | (BRngUp, BGo) \<Rightarrow> Some (board_seed hw b)
      | (BSeeded, BGo) \<Rightarrow> Some (b\<lparr>bd_pc := BEthernetUp\<rparr>)
      | (BEthernetUp, BGo) \<Rightarrow> Some (b\<lparr>bd_pc := BAwaitDhcp\<rparr>)
      | (BAwaitDhcp, BDhcpUp) \<Rightarrow> Some (b\<lparr>bd_pc := BConnecting\<rparr>)
      | (BConnecting, BDialled ok) \<Rightarrow>
          Some (if ok then b\<lparr>bd_pc := BSend, bd_engine :=
              Some (from_transport_with_reconnect (from_secs 30) True default_reconnect_policy)\<rparr>
            else b\<lparr>bd_pc := BRetryWait\<rparr>)
      | (BRetryWait, BElapsed) \<Rightarrow> Some (b\<lparr>bd_pc := BConnecting\<rparr>)
      | (BSend, BGo) \<Rightarrow> map_option (\<lambda>e. board_send hw C T e b) (bd_engine b)
      | (BSent i, BGo) \<Rightarrow>
          (case bd_engine b of
             Some e \<Rightarrow>
               (case ct_pc (calls e ! i) of CallReturned _ \<Rightarrow> Some (b\<lparr>bd_pc := BRest\<rparr>) | _ \<Rightarrow> None)
           | None \<Rightarrow> None)
      | (BRest, BElapsed) \<Rightarrow> Some (b\<lparr>bd_pc := BSend\<rparr>)
      | _ \<Rightarrow> None)"

definition board_step ::
  "'r firmware \<Rightarrow> codec \<Rightarrow> payload_types \<Rightarrow> board_input \<Rightarrow> 'r board \<Rightarrow> 'r board option" where
  "board_step hw C T inp b =
     (if bd_pc b = BPanicked then None
      else (case inp of
        BDraw d \<Rightarrow> board_draw hw d b
      | BEngine d \<Rightarrow>
          (case bd_engine b of
             Some e \<Rightarrow>
               if background d then
                 map_option (\<lambda>e'. b\<lparr>bd_engine := Some e'\<rparr>) (perform board_cfg protocol_error_1_6 C T d e)
               else None
           | None \<Rightarrow> None)
      | _ \<Rightarrow> board_main hw C T inp b))"

fun board_run ::
  "'r firmware \<Rightarrow> codec \<Rightarrow> payload_types \<Rightarrow> board_input list \<Rightarrow> 'r board \<Rightarrow> 'r board option" where
  "board_run hw C T [] b = Some b"
| "board_run hw C T (i # is) b =
     (case board_step hw C T i b of Some b' \<Rightarrow> board_run hw C T is b' | None \<Rightarrow> None)"

subsection \<open>The invariant\<close>

lemma board_cfg_transport:
  "from_transport_with_reconnect (from_secs 30) True default_reconnect_policy = from_transport_with_config board_cfg"
  by (simp add: from_transport_with_reconnect_def board_cfg_def)

definition returned :: "'e call_task \<Rightarrow> bool" where
  "returned t = (case ct_pc t of CallReturned _ \<Rightarrow> True | _ \<Rightarrow> False)"

lemma returned_owner: "returned t \<Longrightarrow> call_owner (ct_pc t) = None"
  by (auto simp: returned_def split: call_pc.splits)

text \<open>The heartbeats of the client: every call is one, and all but the one being awaited have returned.\<close>

definition heartbeats_ok :: "board_pc \<Rightarrow> OCPP1_6Error engine \<Rightarrow> bool" where
  "heartbeats_ok pc e \<longleftrightarrow> (\<forall>t \<in> set (calls e). ct_action t = ''Heartbeat'')
     \<and> (\<forall>i < length (calls e). returned (calls e ! i) \<or> pc = BSent i)
     \<and> (\<forall>i. pc = BSent i \<longrightarrow> i < length (calls e))"

definition board_inv :: "codec \<Rightarrow> payload_types \<Rightarrow> 'r board \<Rightarrow> bool" where
  "board_inv C T b \<longleftrightarrow>
     bd_pc b \<noteq> BPanicked
     \<and> (bd_pc b \<in> {BPowerOn, BHeapUp, BClocksUp} \<or> rng_cell b \<noteq> None)
     \<and> (bd_engine b \<noteq> None \<longleftrightarrow> bd_pc b = BSend \<or> bd_pc b = BRest \<or> (\<exists>i. bd_pc b = BSent i))
     \<and> (\<forall>e. bd_engine b = Some e \<longrightarrow> engine_reach board_cfg protocol_error_1_6 C T e \<and> \<not> closed (cl e)
          \<and> heartbeats_ok (bd_pc b) e)"

lemma board_inv_start: "board_inv C T board_start"
  by (simp add: board_inv_def board_start_def)

lemma draw_from_present: "cell \<noteq> None \<Longrightarrow> \<exists>r. draw_from hw d cell = Some (Some r)"
  by (cases d) (auto simp: shared_next_u32_def shared_next_u64_def shared_fill_bytes_def shared_try_fill_bytes_def
      with_rng_def getrandom_custom_def split_beta)

lemma board_draw_inv:
  assumes "board_draw hw d b = Some b'" and "board_inv C T b"
  shows "board_inv C T b'"
proof -
  have "rng_cell b \<noteq> None" using assms by (auto simp: board_draw_def board_inv_def split: if_splits)
  from draw_from_present [OF this, of hw d] obtain r where "draw_from hw d (rng_cell b) = Some (Some r)" ..
  with assms show ?thesis by (auto simp: board_draw_def board_inv_def split: if_splits)
qed

text \<open>The client's own tasks neither shut it down nor start calls, and a returned call stays returned.\<close>

lemma call_step_returned: "call_step T inp c (ct_pc t) = Some r \<Longrightarrow> \<not> returned t"
  by (cases inp) (auto simp: returned_def split: call_pc.splits)

lemma background_keeps:
  assumes "perform cfg P C T d e = Some e'" and "background d" and "\<not> closed (cl e)"
  shows "\<not> closed (cl e')" and "length (calls e') = length (calls e)"
    and "\<And>i. i < length (calls e) \<Longrightarrow> ct_action (calls e' ! i) = ct_action (calls e ! i)"
    and "\<And>i. i < length (calls e) \<Longrightarrow> returned (calls e ! i) \<Longrightarrow> returned (calls e' ! i)"
  using assms
  by (cases d; auto simp: read_task_closed ka_step_closed nth_list_update control_view_def
      dest: call_step_control call_step_returned split: option.splits if_splits)+

lemma board_engine_inv:
  assumes "perform board_cfg protocol_error_1_6 C T d e = Some e'" and "background d"
    and "bd_engine b = Some e" and "board_inv C T b"
  shows "board_inv C T (b\<lparr>bd_engine := Some e'\<rparr>)"
proof -
  have e: "engine_reach board_cfg protocol_error_1_6 C T e" "\<not> closed (cl e)" "heartbeats_ok (bd_pc b) e"
    using assms(3,4) by (auto simp: board_inv_def)
  note keeps = background_keeps [OF assms(1,2) e(2)]
  have "engine_reach board_cfg protocol_error_1_6 C T e'"
    by (rule engine_runs.go [OF e(1) perform_step [OF assms(1)]])
  moreover have "heartbeats_ok (bd_pc b) e'"
    using e(3) keeps unfolding heartbeats_ok_def by (auto simp: in_set_conv_nth) (metis nth_mem)+
  ultimately show ?thesis using assms(3,4) keeps(1) by (auto simp: board_inv_def)
qed

lemma board_send_inv:
  assumes "bd_pc b = BSend" and "bd_engine b = Some e" and "board_inv C T b"
  shows "board_inv C T (board_send hw C T e b)"
proof -
  obtain r where r: "rng_cell b = Some r" using assms(1,3) by (auto simp: board_inv_def)
  obtain bytes r' where fill: "rng_fill_bytes hw 16 r = (bytes, r')" by fastforce
  have e: "engine_reach board_cfg protocol_error_1_6 C T e" "\<not> closed (cl e)" "heartbeats_ok BSend e"
    using assms by (auto simp: board_inv_def)
  obtain e' where e': "perform board_cfg protocol_error_1_6 C T
      (DCall (uuid_v4 hw bytes) ''Heartbeat'' (heartbeat_value hw)) e = Some e'" by simp
  have "engine_reach board_cfg protocol_error_1_6 C T e'"
    by (rule engine_runs.go [OF e(1) perform_step [OF e']])
  moreover have "heartbeats_ok (BSent (length (calls e))) e'" "\<not> closed (cl e')"
    using e e' by (auto simp: heartbeats_ok_def nth_append less_Suc_eq)
  ultimately show ?thesis
    using r fill e' by (simp add: board_send_def getrandom_custom_def board_inv_def del: perform.simps)
qed

lemma client_starts_quiet:
  "heartbeats_ok BSend (from_transport_with_config cfg)" "\<not> closed (cl (from_transport_with_config cfg))"
  by (simp_all add: heartbeats_ok_def from_transport_with_config_def new_client_def)

lemma board_main_inv:
  assumes "board_main hw C T inp b = Some b'" and "board_inv C T b"
  shows "board_inv C T b'"
proof (cases "bd_pc b")
  case BRngUp
  then obtain r where r: "rng_cell b = Some r" using assms(2) by (auto simp: board_inv_def)
  obtain bytes r' where "rng_fill_bytes hw 8 r = (bytes, r')" by fastforce
  with BRngUp r assms show ?thesis
    by (cases inp) (auto simp: board_main_def board_seed_def shared_fill_bytes_def with_rng_def board_inv_def)
next
  case BConnecting
  then obtain ok where "inp = BDialled ok" using assms(1) by (cases inp) (auto simp: board_main_def)
  with BConnecting assms show ?thesis
    by (cases ok) (auto simp: board_main_def board_inv_def board_cfg_transport client_starts_quiet
        intro: engine_runs.stay)
next
  case BSend
  then obtain e where "bd_engine b = Some e" using assms(2) by (auto simp: board_inv_def)
  with BSend assms board_send_inv [OF BSend this assms(2)] show ?thesis
    by (cases inp) (auto simp: board_main_def)
next
  case (BSent i)
  then obtain e where e: "bd_engine b = Some e" "heartbeats_ok (BSent i) e" using assms(2) by (auto simp: board_inv_def)
  from BSent e(1) assms(1) have "b' = b\<lparr>bd_pc := BRest\<rparr>" "returned (calls e ! i)"
    by (cases inp; auto simp: board_main_def returned_def split: call_pc.splits)+
  with BSent e assms(2) show ?thesis by (auto simp: board_inv_def heartbeats_ok_def)
next
  case BRest
  with assms show ?thesis by (cases inp) (auto simp: board_main_def board_inv_def heartbeats_ok_def)
qed (use assms in \<open>cases inp; auto simp: board_main_def board_inv_def\<close>)+

lemma board_step_inv:
  assumes "board_step hw C T inp b = Some b'" and "board_inv C T b"
  shows "board_inv C T b'"
proof (cases inp)
  case (BDraw d)
  with assms board_draw_inv show ?thesis by (auto simp: board_step_def split: if_splits)
next
  case (BEngine d)
  with assms board_engine_inv [of C T d _ _ b] show ?thesis
    by (auto simp: board_step_def split: if_splits option.splits)
qed (use assms board_main_inv in \<open>auto simp: board_step_def split: if_splits\<close>)

lemma board_run_inv: "board_run hw C T is b = Some b' \<Longrightarrow> board_inv C T b \<Longrightarrow> board_inv C T b'"
  by (induction "is" arbitrary: b) (auto split: option.splits dest: board_step_inv)

subsection \<open>Properties\<close>

text \<open>Constants that have to agree with each other, and the clock frequencies the comments state.\<close>

fun decimal :: "nat \<Rightarrow> string" where
  "decimal n = (if n < 10 then [char_of (48 + n)] else decimal (n div 10) @ [char_of (48 + n mod 10)])"

declare decimal.simps [simp del]

fun dotted :: "byte list \<Rightarrow> string" where
  "dotted [] = []"
| "dotted [b] = decimal (unat b)"
| "dotted (b # bs) = decimal (unat b) @ ''.'' @ dotted bs"

lemma board_clocks:
  "sysclk 64000000 board_rcc = 400000000" "ahb_clock 64000000 board_rcc = 200000000"
  "apb_clocks 64000000 board_rcc = [100000000, 100000000, 100000000, 100000000]"
  by (simp_all add: sysclk_def ahb_clock_def apb_clocks_def board_rcc_def)

lemma board_host_is_address: "CSMS_HOST = dotted CSMS_ADDR"
  by code_simp

text \<open>A locally administered unicast address: bit 1 of the first byte is set, bit 0 is not.\<close>

lemma board_mac_is_local: "bit (hd MAC_ADDR) 1 \<and> \<not> bit (hd MAC_ADDR) 0 \<and> length MAC_ADDR = 6"
  by (simp add: MAC_ADDR_def)

text \<open>The client's two background tasks fit into the executor's pool.\<close>

lemma board_tasks_fit:
  "fold (embassy_spawn POOL_SIZE) [read_loop_task, keepalive_task] [] = [read_loop_task, keepalive_task]"
  by (simp add: embassy_spawn_def POOL_SIZE_def)

text \<open>A board whose generator counts, and a peer that answers nothing.\<close>

definition counting_hw :: "nat firmware" where
  "counting_hw = \<lparr>rng_new = 0, rng_next_u32 = (\<lambda>n. (word_of_nat n, Suc n)), rng_next_u64 = (\<lambda>n. (word_of_nat n, Suc n)),
     rng_fill_bytes = (\<lambda>k n. (replicate k (word_of_nat n), Suc n)), uuid_v4 = (\<lambda>_. 1), heartbeat_value = Ok (JObject [])\<rparr>"

definition heartbeat_codec :: codec where
  "heartbeat_codec = table_codec
     [(''[2,x,Heartbeat,{}]'', call_value (RawCall MESSAGE_TYPE_CALL ''x'' ''Heartbeat'' (JObject [])))]"

definition board_schedule :: "board_input list" where
  "board_schedule = [BGo, BGo, BGo, BGo, BGo, BGo, BDhcpUp, BDraw (DrawBytes 4), BDialled False, BElapsed,
     BDialled True, BGo, BEngine (DCallMoves 0 Proceed), BEngine (DCallMoves 0 (SinkAnswers (Ok ())))]"

definition board_demo :: "nat board" where
  "board_demo = the (board_run counting_hw heartbeat_codec lenient_types board_schedule board_start)"

lemma heartbeat_printed:
  "to_string heartbeat_codec (JArray [JNumber (PosInt MESSAGE_TYPE_CALL), JString ''x'', JString ''Heartbeat'', JObject []])
     = Ok ''[2,x,Heartbeat,{}]''" "uuid_string heartbeat_codec 1 = ''x''"
  by (simp_all add: heartbeat_codec_def table_codec_def)

lemmas board_eval = board_demo_def board_schedule_def board_step_def board_main_def board_start_def board_seed_def
  board_send_def board_draw_def shared_fill_bytes_def with_rng_def getrandom_custom_def counting_hw_def board_cfg_def
  from_transport_with_reconnect_def heartbeat_printed schedule_eval

lemma board_demo_runs: "board_run counting_hw heartbeat_codec lenient_types board_schedule board_start = Some board_demo"
  by (simp add: board_eval)

lemma board_demo_state:
  "bd_pc board_demo = BSent 0" "\<exists>e. bd_engine board_demo = Some e \<and> dom (pending_responses (cl e)) = {1}"
  by (simp_all add: board_eval)

text \<open>
  C26. The firmware never panics over its random number generator: in every run from power-on, the cell is
  filled before anything can draw from it, so neither \<open>main\<close>, nor the transport's frame masks, nor the
  client's UUIDs (through \<open>getrandom\<close>) ever find it empty.
\<close>

theorem firmware_never_panics:
  assumes "board_run hw C T is board_start = Some b"
  shows "bd_pc b \<noteq> BPanicked
    \<and> (bd_pc b \<in> {BPowerOn, BHeapUp, BClocksUp} \<or> (\<forall>d. draw_from hw d (rng_cell b) \<noteq> None))"
proof -
  have "board_inv C T b" by (rule board_run_inv [OF assms board_inv_start])
  moreover have "rng_cell b \<noteq> None \<Longrightarrow> draw_from hw d (rng_cell b) \<noteq> None" for d
    using draw_from_present [of "rng_cell b" hw d] by (metis option.distinct(1))
  ultimately show ?thesis by (auto simp: board_inv_def simp del: draw_from.simps)
qed

theorem firmware_never_panics_witness:
  "bd_pc board_demo = BSent 0 \<and> draw_from counting_hw DrawUuid (rng_cell board_demo) \<noteq> None"
  using firmware_never_panics [OF board_demo_runs] board_demo_state(1) by (simp del: draw_from.simps)

text \<open>
  C25. The firmware keeps one request in flight: whatever the network does, every call of its client is a
  heartbeat, all but the one it is waiting for have returned, and the client's pending table holds at
  most one entry.
\<close>

theorem firmware_keeps_one_request:
  assumes "board_run hw C T is board_start = Some b" and "bd_engine b = Some e"
  shows "pending_request_count (cl e) \<le> 1 \<and> list_all (\<lambda>t. ct_action t = ''Heartbeat'') (calls e)
    \<and> length (filter (\<lambda>t. \<not> returned t) (calls e)) \<le> 1"
proof -
  have inv: "engine_reach board_cfg protocol_error_1_6 C T e" "heartbeats_ok (bd_pc b) e"
    using board_run_inv [OF assms(1) board_inv_start] assms(2) by (auto simp: board_inv_def)
  have "{i. i < length (calls e) \<and> \<not> returned (calls e ! i)} \<subseteq> {i. bd_pc b = BSent i}"
    using inv(2) by (auto simp: heartbeats_ok_def)
  moreover have "\<exists>j. {i. bd_pc b = BSent i} \<subseteq> {j}" by (cases "bd_pc b") auto
  ultimately obtain j where "{i. i < length (calls e) \<and> \<not> returned (calls e ! i)} \<subseteq> {j}" by blast
  then have one: "length (filter (\<lambda>t. \<not> returned t) (calls e)) \<le> 1"
    unfolding length_filter_conv_card by (metis card_mono finite.emptyI finite_insert is_singletonI is_singleton_altdef)
  have "length (filter (\<lambda>t. call_owner (ct_pc t) \<noteq> None) (calls e)) \<le> length (filter (\<lambda>t. \<not> returned t) (calls e))"
    unfolding length_filter_conv_card by (rule card_mono) (auto dest: returned_owner)
  with one pending_count_live [OF inv(1)] inv(2) show ?thesis
    by (auto simp: heartbeats_ok_def list_all_iff)
qed

theorem firmware_keeps_one_request_witness:
  "\<exists>e. bd_engine board_demo = Some e \<and> dom (pending_responses (cl e)) = {1} \<and> pending_request_count (cl e) \<le> 1"
proof -
  obtain e where e: "bd_engine board_demo = Some e" "dom (pending_responses (cl e)) = {1}"
    using board_demo_state(2) by blast
  with firmware_keeps_one_request [OF board_demo_runs e(1)] show ?thesis by blast
qed

text \<open>
  Once connected the firmware never gives up: its client is never closed and its read loop never
  stops, and from every state it can reach a newer connection and read from it.
\<close>

lemma firmware_recovers:
  assumes "board_run hw C T is board_start = Some b" and "bd_engine b = Some e"
  shows "\<not> closed (cl e) \<and> rl_pc (rl e) \<noteq> Stopped
    \<and> (\<exists>t. engine_runs board_cfg protocol_error_1_6 C T e t \<and> rl_pc (rl t) = Reading
        \<and> stream_conn (rl e) < stream_conn (rl t))"
proof -
  have inv: "engine_reach board_cfg protocol_error_1_6 C T e" "\<not> closed (cl e)"
    using board_run_inv [OF assms(1) board_inv_start] assms(2) by (auto simp: board_inv_def)
  have "cfg_reconnector board_cfg" by (simp add: board_cfg_def)
  from recovers [OF inv(1) this inv(2)] inv(2) show ?thesis by blast
qed

lemma firmware_recovers_example:
  "\<exists>e t. bd_engine board_demo = Some e \<and> engine_runs board_cfg protocol_error_1_6 heartbeat_codec lenient_types e t
     \<and> rl_pc (rl t) = Reading \<and> stream_conn (rl e) < stream_conn (rl t)"
proof -
  obtain e where e: "bd_engine board_demo = Some e" using board_demo_state(2) by blast
  with firmware_recovers [OF board_demo_runs e] show ?thesis by blast
qed

end
