(* ===== verification/Spec2Isabelle.thy ===== *)
theory Spec2Isabelle
  imports Chan_Steps Engine_Drops Engine_Pings Engine_Answers Engine_Sink Engine_Lost Engine_Links Redial_Time Keepalive_Time Connect
    Typed_Clients Board
begin

text \<open>
  A verification library for \<open>ocpp-client\<close>, the charge-point side of OCPP-J: one generic client engine
  (\<open>Client<E>\<close>) that multiplexes calls, responses, notifications, pings and reconnects over a pluggable
  transport and runtime, and three typed clients (OCPP 1.6, 2.0.1, 2.1) on top of it.

  \<^bold>\<open>The program.\<close> A client owns shared tables behind mutexes: pending calls by message id, pong waiters by
  token, request and notification handlers by action. Two background tasks run for its whole life: the
  read loop, which dispatches what the transport delivers and redials when it ends, and the keepalive
  task, which pings on a schedule and escalates an unresponsive peer to a redial. Calls, pings,
  registered handlers and subscribers are further tasks. They meet only at the tables, at the signals
  (one-shot cells, notify latches, unbounded channels, broadcast registries) and at the sink. Besides
  the library the repository has a transport and runtime for embassy and a board firmware built on them.

  \<^bold>\<open>The model.\<close> Asynchronous code is cut at its awaits: a task is a program counter that names the await
  it is suspended at, one step runs it to the next await, and every decision of the outside (what the
  transport delivers or answers, which timer fired, what a callback returned, which UUID was drawn) is
  an input of the step. A mutex guard that is not held across an await is one step. \<open>Arc\<close>-shared cells
  are addresses into stores of the client state, so a table entry and the task waiting on it share one
  cell. Errors are values of \<open>result\<close>; integers keep their width where it shows (message type ids, ping
  tokens, attempt and miss counters, milliseconds of the interval).

  \<^bold>\<open>Theories and sources.\<close>
  \<^item> \<open>Ocpp_Prelude\<close>: the Rust values used throughout: results, durations in nanoseconds, saturating and
    wrapping integers, big-endian bytes with their round trip.
  \<^item> \<open>Reconnect\<close> (\<^verbatim>\<open>src/reconnect.rs\<close>): the backoff policy; its loop equals a capped geometric series, the
    jitter stays in its window, and the cap is reached after a bounded number of attempts.
  \<^item> \<open>Keepalive\<close> (\<^verbatim>\<open>src/keepalive.rs\<close>, \<open>KeepaliveState\<close> in \<^verbatim>\<open>src/client.rs\<close>): the ping policy and the interval
    cell; what is written is what is read back, in whole milliseconds and saturating.
  \<^item> \<open>Sync\<close> (\<^verbatim>\<open>src/sync.rs\<close>): one-shot cells, notify latches, channels and broadcast registries with the
    locales \<open>latch_signal\<close> and \<open>mailbox\<close>; \<open>Chan_Steps\<close> interleaves senders, closers and the receiver of a
    channel at their lock sections: messages arrive exactly once and in order, no wakeup is lost.
  \<^item> \<open>Envelope\<close> (\<^verbatim>\<open>src/envelope.rs\<close>, the classification in \<open>handle_frame\<close>): the four wire tuples over JSON
    values. \<open>serde_json\<close> and \<open>uuid\<close> are the parameter \<open>codec\<close>; \<open>codec_ok\<close> says that they read back what they
    print, for values that nest at most 127 deep and hold no floating-point number, and \<open>table_codec\<close> is an
    instance.
  \<^item> \<open>Protocol_Error\<close> (\<^verbatim>\<open>src/error.rs\<close>, \<^verbatim>\<open>src/ocpp_*/error.rs\<close>): the \<open>ProtocolError\<close> trait as the locale
    \<open>protocol_error_laws\<close>, interpreted for the three versions: every error survives the wire.
  \<^item> \<open>Client_State\<close> (\<^verbatim>\<open>src/client.rs\<close>): configuration, shared state and the operations of one lock
    section; the locale \<open>waiter_table\<close> is the contract of both waiter tables.
  \<^item> \<open>Client_Tasks\<close>: calls, pings, notifications and responses as tasks; four steps take a call or a ping
    to its result in any environment.
  \<^item> \<open>Dispatch\<close>: \<open>handle_frame\<close>: who receives a frame, who is answered, and who is not; a call goes to a peer
    of the same kind and its outcome comes back.
  \<^item> \<open>Handlers\<close>: \<open>on\<close>, \<open>on_notification\<close>, \<open>wait_for\<close> and the tasks they spawn; the locale
    \<open>handler_registry\<close> is the registration contract; a handler refines the abstract service that answers
    its queue in order.
  \<^item> \<open>Wait_For\<close>: \<open>wait_for\<close> await by await, what it does on its own and what it leaves behind among others.
  \<^item> \<open>Subscribers\<close>: the callback loops of \<open>on_ping\<close> and \<open>on_reconnect\<close>.
  \<^item> \<open>Mailroom\<close>: the abstract specification of the handler machinery, a mail room with one reader per box,
    its invariant, and the locale \<open>mailroom_refinement\<close>: whatever implements it loses nothing, reorders
    nothing, never oversleeps and attends every bound action.
  \<^item> \<open>Read_Loop\<close> and \<open>Keepalive_Loop\<close>: the two background tasks with their measures and invariants;
    \<open>Keepalive_Time\<close> adds up what the keepalive task waits before it gives up on a silent peer.
  \<^item> \<open>Engine\<close>: the whole client as a step relation over all interleavings of its tasks, an executable
    scheduler for concrete runs, and the locale \<open>engine_invariant\<close>, interpreted in \<open>Engine_Calls\<close> (who owns a
    pending entry, whose answer a call returns), \<open>Engine_Pings\<close> (the same for pongs), \<open>Engine_Drops\<close> (what a
    dropped call leaves behind), \<open>Engine_Shutdown\<close>
    (shutdown is final and completes, no reconnector means no redial),
    \<open>Engine_Subscribers\<close> (no broadcast is lost or invented; sink and stream are the same connection),
    \<open>Engine_Redial\<close> (an open client with a reconnector can always recover, a dead peer is redialled) and
    \<open>Engine_Answers\<close> (every CALL handed to a handler is answered once and in order). \<open>Engine_Handlers\<close>
    shows that the CALL side and the SEND side both refine the mail room. \<open>Engine_Sink\<close> makes the mutex of
    the sink explicit, which the engine's atomic writes abstract from: the two reach the same states, an
    unanswered write blocks every recovery, and answered ones none. \<open>Redial_Time\<close> puts a clock beside the
    engine and shows that redials are paced. \<open>Engine_Lost\<close> holds two losses, from every state that leads to
    them: the connection of a dial that completes after a shutdown, and a CALL whose handler is replaced. \<open>Waiters\<close> holds the bookkeeping
    invariant both waiter tables share.
  \<^item> \<open>Streams\<close> (\<^verbatim>\<open>src/transport.rs\<close>): the contract of \<open>TransportStream::recv\<close> as the locale \<open>transport_stream\<close>, a
    \<open>recv\<close> that waits may be dropped and one that answers does not depend on what comes later, with an
    interpretation for the WebSocket and for the embassy stream. \<open>Engine_Links\<close> puts the engine on any
    stream that meets it, with the items of every connection arriving at any time: the client reads what
    an undisturbed reader would, can always catch up, echoes each ping where it came from, and an answer a
    call returns did arrive from the network.
  \<^item> \<open>Runtime\<close> (\<^verbatim>\<open>src/runtime.rs\<close>, the embassy runtime): the two races as poll functions under the locale
    \<open>race\<close>, the task pool, the microsecond timer.
  \<^item> \<open>Transport\<close> (\<^verbatim>\<open>src/transport/websocket.rs\<close>, the embassy transport): what \<open>recv\<close> delivers, cancel
    safety, reassembly of fragments, the opening handshake and what it leaks, the sink, the reconnector.
  \<^item> \<open>Connect\<close> (\<^verbatim>\<open>src/connect.rs\<close>): options, the upgrade request, negotiation, the reconnectors.
  \<^item> \<open>Actions\<close>, \<open>Actions_1_6\<close>, \<open>Actions_2_0_1\<close>, \<open>Actions_2_1\<close>, \<open>Typed_Clients\<close> (\<^verbatim>\<open>src/action.rs\<close>,
    \<^verbatim>\<open>src/ocpp_*/actions.rs\<close>): the action tables and the typed methods the macros generate.
  \<^item> \<open>Board\<close> (\<^verbatim>\<open>crates/ocpp-board-stm32h723-nucleo/src/main.rs\<close>): the firmware, from power-on through the
    shared random number generator and the first connect to the heartbeat loop, with the running
    \<open>Engine\<close> inside: it never panics over its generator, keeps one request in flight and never gives up.
  \<^item> this theory: what spans the components, the well-formedness of every reachable state and what the
    connection options mean for the running client.

  \<^bold>\<open>Bounds and fuel.\<close> Every function is total but \<open>embassy_poll\<close>, the loop of \<open>recv\<close> without a bound, whose value
  is \<open>None\<close> where it never ends (\<open>embassy_poll_answers\<close> says when it does). \<open>embassy_recv\<close> takes fuel for the passes of its loop; with
  a decoder that consumes at least one byte per call, more fuel than there are bytes is always enough
  (\<open>embassy_recv_answers\<close>). The history fields of the read loop, the engine and the clock (\<open>waits\<close>, the delays
  drawn, \<open>dials\<close>, \<open>inbox\<close>, \<open>delivered\<close>, \<open>notified\<close>, \<open>dialled\<close>, \<open>wakes\<close>, and those of the tasks that \<open>Engine\<close>
  lists) are written and never read by a step. \<open>wire\<close> holds every operation on a sink, with a flag whether the
  transport took it.

  \<^bold>\<open>Assumptions on code outside the repository\<close> appear as parameters or named hypotheses: \<open>codec\<close> and
  \<open>codec_ok\<close> for \<open>serde_json\<close> and \<open>uuid\<close>; \<open>timer\<close>, the least time a delay takes, for the runtime's timer;
  \<open>payload_types\<close> for the types of \<open>ocpp-types\<close>; the sink's and the stream's outcomes for the transports; \<open>ws_decoder\<close> with \<open>consuming\<close>, and \<open>accept_result\<close>, for
  \<open>embedded-websocket\<close>; \<open>network\<close> for URL, TCP, TLS, base64 and the HTTP upgrade; \<open>firmware\<close> for the board's
  peripherals and the layout of random UUIDs.

  \<^bold>\<open>Not modelled.\<close> Logging, \<open>Clone\<close> and \<open>Debug\<close> boilerplate, \<open>Send\<close>/\<open>Sync\<close> assertions, the tokio bindings
  (one call each), the board's pin assignment, benchmarks and examples. Dropping the
  future of a call, a ping, a notification or a shutdown is a step of the engine (between two awaits; what
  a transport does with a half-written frame is outside); the background tasks are never dropped.
  \<open>wait_for\<close>, which only test builds have, is a task of its own and not one of the engine. The mutexes other than the
  sink's are never held across an await, so a section under them is part of a step. Memory ordering
  of the atomics, exhaustion of the heap and fairness of the executor are outside the model.
\<close>

subsection \<open>Every reachable state is well formed\<close>

text \<open>
  C10. Every state the running client can reach is well formed: both handler registries bind actions to
  allocated channels, one action each; every handler task has a channel of its own and every
  subscriber a slot of its own in its registry; the entries of the two waiter tables point to allocated
  empty cells, one entry each; and the sink belongs to the connection the read loop reads, the newest.
\<close>

theorem engine_well_formed:
  assumes "engine_reach cfg P C T s"
  shows "well_registered (request_senders (cl s)) (next_call_chan (cl s))
    \<and> well_registered (notification_senders (cl s)) (next_send_chan (cl s))
    \<and> distinct (map ht_chan (handlers s)) \<and> list_all (\<lambda>h. ht_chan h < next_call_chan (cl s)) (handlers s)
    \<and> distinct (map nt_chan (notifiers s)) \<and> list_all (\<lambda>n. nt_chan n < next_send_chan (cl s)) (notifiers s)
    \<and> distinct (map subscriber_key (subscribers s))
    \<and> list_all (\<lambda>b. st_slot b < length (registry_of (st_registry b) (cl s))) (subscribers s)
    \<and> sound_table (pending_responses (cl s)) (replies (cl s)) (next_reply (cl s))
    \<and> sound_table (pong_waiters (cl s)) (pongs (cl s)) (next_pong (cl s))
    \<and> sink_conn (cl s) = stream_conn (rl s) \<and> next_conn (rl s) = Suc (stream_conn (rl s))"
proof (intro conjI)
  have call: "room_inv (call_room s)" and send: "room_inv (send_room s)"
    by (rule call_mail.view_inv [OF assms] send_mail.view_inv [OF assms])+
  then show "well_registered (request_senders (cl s)) (next_call_chan (cl s))"
    "well_registered (notification_senders (cl s)) (next_send_chan (cl s))"
    "distinct (map ht_chan (handlers s))" "list_all (\<lambda>h. ht_chan h < next_call_chan (cl s)) (handlers s)"
    "distinct (map nt_chan (notifiers s))" "list_all (\<lambda>n. nt_chan n < next_send_chan (cl s)) (notifiers s)"
    by (auto simp: room_inv_def comp_def list_all_iff reader_ok_def)
  have "subscribers_inv s" by (rule subscribing.always [OF assms])
  then show "distinct (map subscriber_key (subscribers s))"
    "list_all (\<lambda>b. st_slot b < length (registry_of (st_registry b) (cl s))) (subscribers s)"
    "sink_conn (cl s) = stream_conn (rl s)" "next_conn (rl s) = Suc (stream_conn (rl s))"
    by (auto simp: subscribers_inv_def subscriber_ok_def connections_ok_def list_all_iff)
  show "sound_table (pending_responses (cl s)) (replies (cl s)) (next_reply (cl s))"
    using calling.always [OF assms] by (auto simp: calls_inv_def calls_tracked_def views intro: tracked_sound)
  show "sound_table (pong_waiters (cl s)) (pongs (cl s)) (next_pong (cl s))"
    using pinging.always [OF assms] by (auto simp: pings_inv_def pong_tracked_def views intro: tracked_sound)
qed

theorem engine_well_formed_witness:
  "sound_table (pending_responses (cl (demo_run 3))) (replies (cl (demo_run 3))) (next_reply (cl (demo_run 3)))
   \<and> pending_responses (cl (demo_run 3)) 1 = Some 0"
  using engine_well_formed [OF demo_reach(1)] by (simp add: demo_waiting)

subsection \<open>From the options to the running client\<close>

text \<open>
  C24. The reconnect option decides what a connected client does when its connection dies: with
  reconnecting disabled it keeps its one connection for good and never dials, whatever keepalive and the
  callers do; with it enabled it can always reach a newer one until it is shut down, the delay drawn
  for every dial lies in the window of the caller's policy, and unless a wake cut the backoff short the
  timer's time for that delay has passed since the dial before.
\<close>

theorem options_decide_redialling:
  assumes "connect net fs address versions (Some o') = Some (Ok conn)"
    and "timed_run timer (conn_config conn) P C T ds (timed_start (conn_config conn)) = Some s"
  shows "(opt_reconnect o' = ReconnectDisabled \<longrightarrow>
        stream_conn (rl (te s)) = 0 \<and> next_conn (rl (te s)) = 1 \<and> dialled s = [])
    \<and> (\<forall>pol. opt_reconnect o' = ReconnectEnabled pol \<longrightarrow>
        (closed (cl (te s)) \<or> (\<exists>t. engine_runs (conn_config conn) P C T (te s) t \<and> rl_pc (rl t) = Reading
          \<and> stream_conn (rl (te s)) < stream_conn (rl t)))
        \<and> list_all (\<lambda>e. delay_for pol (attempt_at (dl_attempt e)) div 2 \<le> dl_delay e
          \<and> dl_delay e \<le> delay_for pol (attempt_at (dl_attempt e))) (dialled s)
        \<and> successively (\<lambda>d e. dl_cut e \<or> dl_at d + timer (dl_delay e) \<le> dl_at e) (dialled s))"
proof (intro conjI allI impI)
  have prep: "conn_config conn = fst (prepare address (protocol (conn_version conn)) (Some o'))"
    using assms(1) by (auto simp: connect_def Let_def split_beta split: result.splits option.splits)
  note reach = timed_reach [OF assms(2)]
  show "stream_conn (rl (te s)) = 0" "next_conn (rl (te s)) = 1" "dialled s = []"
    if off: "opt_reconnect o' = ReconnectDisabled"
    using lone.always [OF reach] disabled_reconnect_wins [OF off, of address] prep
      lone_client_dials_nothing [OF _ assms(2)]
    by (simp_all add: lone_inv_def timed_start_def engine_runs.stay)
  fix pol assume on: "opt_reconnect o' = ReconnectEnabled pol"
  then have cfg: "cfg_reconnector (conn_config conn)" "cfg_reconnect_policy (conn_config conn) = pol"
    unfolding prep by (simp_all add: prepare_def Let_def with_reconnect_def)
  show "closed (cl (te s)) \<or> (\<exists>t. engine_runs (conn_config conn) P C T (te s) t \<and> rl_pc (rl t) = Reading
      \<and> stream_conn (rl (te s)) < stream_conn (rl t))"
    using recovers [OF reach cfg(1)] by blast
  have "list_all (in_window pol) (dialled s)" "successively (paced timer) (dialled s)"
    using timed_always [OF assms(2)] cfg(2) by (simp_all add: timed_inv_def list_all_iff)
  then show "list_all (\<lambda>e. delay_for pol (attempt_at (dl_attempt e)) div 2 \<le> dl_delay e
      \<and> dl_delay e \<le> delay_for pol (attempt_at (dl_attempt e))) (dialled s)"
    and "successively (\<lambda>d e. dl_cut e \<or> dl_at d + timer (dl_delay e) \<le> dl_at e) (dialled s)"
    by (auto simp: in_window_def list_all_iff paced_def elim: successively_mono)
qed

text \<open>The same two dials as a connected client with the brisk policy makes, and one that may not redial.\<close>

definition brisk_options :: "reconnect_behavior \<Rightarrow> (unit, unit) connect_options" where
  "brisk_options behavior = default_connect_options
     \<lparr>opt_reconnect := behavior, opt_timeout := Some 0, opt_keepalive := KeepaliveDisabled\<rparr>"

definition only_1_6 :: features where
  "only_1_6 = \<lparr>ocpp_1_6 = True, ocpp_2_0_1 = False, ocpp_2_1 = False\<rparr>"

lemma brisk_connected:
  "\<exists>conn. connect plain_network only_1_6 ''ws://csms'' None (Some (brisk_options behavior)) = Some (Ok conn)
     \<and> conn_config conn = (case behavior of ReconnectEnabled pol \<Rightarrow> with_reconnect pol (client_config_new 0)
         | ReconnectDisabled \<Rightarrow> client_config_new 0)"
proof -
  have "setup_socket plain_network ''ws://csms'' offered (Some (brisk_options behavior)) = Ok ''ocpp1.6''" for offered
    by (simp add: setup_socket_def upgrade_headers_def plain_network_def Let_def default_connect_options_def brisk_options_def)
  then show ?thesis
    by (cases behavior) (simp_all add: connect_def all_compiled_in_def only_1_6_def Let_def client_for_def split_beta prepare_def
        brisk_options_def with_keepalive_def client_config_new_def with_reconnect_def)
qed

theorem options_decide_redialling_witness:
  "\<exists>conn. connect plain_network only_1_6 ''ws://csms'' None (Some (brisk_options (ReconnectEnabled brisk_policy))) = Some (Ok conn)
     \<and> timed_run id (conn_config conn) protocol_error_1_6 (table_codec []) lenient_types timed_schedule
         (timed_start (conn_config conn)) = Some timed_demo
     \<and> map dl_at (dialled timed_demo) = [4, 15]
     \<and> dl_at (dialled timed_demo ! 0) + dl_delay (dialled timed_demo ! 1) \<le> dl_at (dialled timed_demo ! 1)
     \<and> (\<exists>t. engine_runs (conn_config conn) protocol_error_1_6 (table_codec []) lenient_types (te timed_demo) t
          \<and> rl_pc (rl t) = Reading \<and> 0 < stream_conn (rl t))"
proof -
  obtain conn where conn: "connect plain_network only_1_6 ''ws://csms'' None (Some (brisk_options (ReconnectEnabled brisk_policy)))
      = Some (Ok conn)" "conn_config conn = brisk_cfg"
    using brisk_connected [of "ReconnectEnabled brisk_policy"] by (auto simp: brisk_cfg_def)
  note run = timed_demo_ok(1) [folded conn(2)]
  have "opt_reconnect (brisk_options (ReconnectEnabled brisk_policy)) = ReconnectEnabled brisk_policy"
    by (simp add: brisk_options_def)
  with options_decide_redialling [OF conn(1) run] timed_demo_open
  have "successively (\<lambda>d e. dl_cut e \<or> dl_at d + id (dl_delay e) \<le> dl_at e) (dialled timed_demo)"
    "\<exists>t. engine_runs (conn_config conn) protocol_error_1_6 (table_codec []) lenient_types (te timed_demo) t
       \<and> rl_pc (rl t) = Reading \<and> stream_conn (rl (te timed_demo)) < stream_conn (rl t)"
    by blast+
  with conn(1) run show ?thesis by (auto simp: timed_demo_ok(2))
qed

end
